(* ===== verification/PKE_Prelude.thy ===== *)
theory PKE_Prelude
  imports Main "HOL-Library.Word"
begin

unbundle bit_operations_syntax

text \<open>
  Shared material of the development: the machine integer types of
  \<^verbatim>\<open>util/types.h\<close>, the macros of \<^verbatim>\<open>util/functions.h\<close>, the constants and the page
  table macros of \<^verbatim>\<open>kernel/riscv.h\<close>, \<^verbatim>\<open>kernel/memlayout.h\<close> and
  \<^verbatim>\<open>kernel/config.h\<close>; the state-and-exit monad in which every kernel function is
  written, with its weakest-precondition equations; and the collections of facts the
  component theories feed.
\<close>

named_theorems kdefs "unfolding equations of the monad's combinators"
named_theorems wp_eqs "weakest preconditions of the combinators, as equations"
named_theorems keeps_intros "composition rules for invariants preserved by kernel code"

section \<open>Machine integers and macros\<close>

type_synonym u8 = "8 word"
type_synonym u16 = "16 word"
type_synonym u32 = "32 word"
type_synonym u64 = "64 word"
type_synonym i32 = "32 word"

definition ROUNDUP :: "u64 \<Rightarrow> u64 \<Rightarrow> u64" where
  "ROUNDUP a b = ((a - 1) div b + 1) * b"

definition ROUNDDOWN :: "u64 \<Rightarrow> u64 \<Rightarrow> u64" where
  "ROUNDDOWN a b = a div b * b"

definition MIN_u64 :: "u64 \<Rightarrow> u64 \<Rightarrow> u64" where
  "MIN_u64 a b = (if a < b then a else b)"

definition PGSIZE :: u64 where [simp]: "PGSIZE = 4096"
definition PGSHIFT :: nat where [simp]: "PGSHIFT = 12"

definition DRAM_BASE :: u64 where [simp]: "DRAM_BASE = 0x80000000"
definition KERN_BASE :: u64 where [simp]: "KERN_BASE = 0x80000000"
definition USER_STACK_TOP :: u64 where [simp]: "USER_STACK_TOP = 0x7ffff000"
definition USER_FREE_ADDRESS_START :: u64 where
  [simp]: "USER_FREE_ADDRESS_START = 0x00000000 + PGSIZE * 1024"
definition PKE_MAX_ALLOWABLE_RAM :: u64 where
  [simp]: "PKE_MAX_ALLOWABLE_RAM = 128 * 1024 * 1024"
definition PHYS_TOP :: u64 where
  [simp]: "PHYS_TOP = DRAM_BASE + PKE_MAX_ALLOWABLE_RAM"

definition PTE_V :: u64 where [simp]: "PTE_V = 1"
definition PTE_R :: u64 where [simp]: "PTE_R = 2"
definition PTE_W :: u64 where [simp]: "PTE_W = 4"
definition PTE_X :: u64 where [simp]: "PTE_X = 8"
definition PTE_U :: u64 where [simp]: "PTE_U = 16"
definition PTE_G :: u64 where [simp]: "PTE_G = 32"
definition PTE_A :: u64 where [simp]: "PTE_A = 64"
definition PTE_D :: u64 where [simp]: "PTE_D = 128"

definition PA2PTE :: "u64 \<Rightarrow> u64" where
  "PA2PTE pa = push_bit 10 (drop_bit 12 pa)"

definition PTE2PA :: "u64 \<Rightarrow> u64" where
  "PTE2PA pte = push_bit 12 (drop_bit 10 pte)"

definition PTE_FLAGS :: "u64 \<Rightarrow> u64" where
  "PTE_FLAGS pte = pte AND 0x3FF"

definition PXSHIFT :: "nat \<Rightarrow> nat" where
  "PXSHIFT level = PGSHIFT + 9 * level"

definition PX :: "nat \<Rightarrow> u64 \<Rightarrow> u64" where
  "PX level va = drop_bit (PXSHIFT level) va AND 0x1FF"

definition MAXVA :: u64 where
  "MAXVA = push_bit (9 + 9 + 9 + 12 - 1) 1"

definition SATP_SV39 :: u64 where
  "SATP_SV39 = push_bit 60 8"

definition MAKE_SATP :: "u64 \<Rightarrow> u64" where
  "MAKE_SATP pagetable = SATP_SV39 OR drop_bit 12 pagetable"

lemma unat_u64_less: "unat (a :: u64) < 0x10000000000000000"
proof -
  have "unat a < 2 ^ LENGTH(64)" by (rule unsigned_less)
  then show ?thesis by simp
qed

lemma sint_small: "k < 2 ^ 31 \<Longrightarrow> sint (of_nat k :: i32) = int k"
  by (simp add: signed_of_nat signed_take_bit_int_eq_self)

lemma unat_ROUNDDOWN: "unat (ROUNDDOWN a 4096) = unat a div 4096 * 4096"
proof -
  have "unat a div 4096 * 4096 < 0x10000000000000000"
    using unat_u64_less [of a] div_times_less_eq_dividend [of "unat a" 4096] by linarith
  then show ?thesis
    by (simp add: ROUNDDOWN_def unat_word_ariths unat_div)
qed

lemma unat_ROUNDUP:
  assumes "0 < unat a" and "unat a \<le> 0x88000000"
  shows "unat (ROUNDUP a 4096) = ((unat a - 1) div 4096 + 1) * 4096"
proof -
  have "unat (a - 1) = unat a - 1"
    using assms by (simp add: unat_sub word_le_nat_alt)
  moreover have "((unat a - 1) div 4096 + 1) * 4096 < 2 ^ 64"
    using assms by simp
  ultimately show ?thesis
    by (simp add: ROUNDUP_def unat_word_ariths unat_div)
qed

section \<open>Null-terminated chains\<close>

text \<open>
  The kernel keeps two linked lists, the free pages and the ready queue. \<open>chain nxt p xs\<close>
  says that following \<open>nxt\<close> from \<open>p\<close> visits exactly \<open>xs\<close> and then ends.
\<close>

fun chain :: "('a \<Rightarrow> 'a option) \<Rightarrow> 'a option \<Rightarrow> 'a list \<Rightarrow> bool" where
  "chain nxt p [] \<longleftrightarrow> p = None"
| "chain nxt p (x # xs) \<longleftrightarrow> p = Some x \<and> chain nxt (nxt x) xs"

lemma chain_None [simp]: "chain nxt None xs \<longleftrightarrow> xs = []"
  by (cases xs) auto

lemma chain_Some: "chain nxt (Some x) xs \<longleftrightarrow> (\<exists>ys. xs = x # ys \<and> chain nxt (nxt x) ys)"
  by (cases xs) auto

lemma chain_unique: "chain nxt p xs \<Longrightarrow> chain nxt p ys \<Longrightarrow> xs = ys"
  by (induction xs arbitrary: p ys) (auto simp: chain_Some)

lemma chain_suffix: "chain nxt p (xs @ ys) \<Longrightarrow> \<exists>q. chain nxt q ys"
  by (induction xs arbitrary: p) auto

lemma chain_notin:
  assumes "chain nxt (nxt x) xs"
  shows "x \<notin> set xs"
proof
  assume "x \<in> set xs"
  then obtain us vs where xs: "xs = us @ x # vs"
    by (auto simp: in_set_conv_decomp)
  with assms have "chain nxt (nxt x) vs"
    using chain_suffix [of nxt "nxt x" us "x # vs"] by auto
  with assms have "xs = vs" by (rule chain_unique)
  with xs show False by (auto dest: arg_cong [where f = length])
qed

lemma chain_distinct: "chain nxt p xs \<Longrightarrow> distinct xs"
  by (induction xs arbitrary: p) (auto dest: chain_notin)

lemma chain_cong:
  "(\<And>x. x \<in> set xs \<Longrightarrow> nxt x = nxt' x) \<Longrightarrow> chain nxt p xs = chain nxt' p xs"
  by (induction xs arbitrary: p) auto

lemma chain_snoc:
  assumes "chain nxt p (xs @ [x])" and "y \<notin> set (xs @ [x])"
    and "nxt' x = Some y" and "nxt' y = None" and "\<And>z. z \<in> set xs \<Longrightarrow> nxt' z = nxt z"
  shows "chain nxt' p (xs @ [x, y])"
  using assms by (induction xs arbitrary: p) auto

section \<open>The kernel monad\<close>

text \<open>
  A kernel function takes the kernel's state and either returns a value and a new state,
  or leaves the C code for good: it panics, fails an assertion, shuts the machine down,
  spins for ever, makes a memory access the model does not follow, or passes control to
  user mode with the state it leaves behind (\<^verbatim>\<open>return_to_user\<close> never returns to its
  caller).

  Not every one of these stops the machine. \<open>Misaligned a\<close> is an access that is not
  aligned to its width; it traps to machine mode, whose handler panics. \<open>Wild a\<close> is an
  access to an address with no memory behind it: the processor faults, and a page fault of
  the supervisor enters the supervisor's own trap vector again. \<open>In_image a\<close> is an access to
  the kernel's image, its code, its variables and the structures C keeps there: on the
  machine it succeeds, but the image is not part of the memory of the model. \<open>Undef x\<close> is
  an access past the end of the array \<open>x\<close> or a use of \<open>x\<close> before it has a value, after
  which C promises nothing. After the last three the model says nothing of what the
  machine does next.
\<close>

datatype 's kexit =
    Panic string
  | Assert_fail string
  | Shutdown int
  | Wild u64
  | In_image u64
  | Misaligned u64
  | Undef string
  | Spins
  | To_user 's

type_synonym ('s, 'a) km = "'s \<Rightarrow> 's kexit + 'a \<times> 's"

definition kret :: "'a \<Rightarrow> ('s, 'a) km" where
  "kret x = (\<lambda>s. Inr (x, s))"

definition kexits :: "'s kexit \<Rightarrow> ('s, 'a) km" where
  "kexits e = (\<lambda>s. Inl e)"

definition kbind :: "('s, 'a) km \<Rightarrow> ('a \<Rightarrow> ('s, 'b) km) \<Rightarrow> ('s, 'b) km" where
  "kbind m f = (\<lambda>s. case m s of Inl e \<Rightarrow> Inl e | Inr (x, t) \<Rightarrow> f x t)"

definition kthen :: "('s, 'a) km \<Rightarrow> ('s, 'b) km \<Rightarrow> ('s, 'b) km" where
  "kthen m n = kbind m (\<lambda>_. n)"

definition kget :: "('s \<Rightarrow> 'a) \<Rightarrow> ('s, 'a) km" where
  "kget f = (\<lambda>s. Inr (f s, s))"

definition kmod :: "('s \<Rightarrow> 's) \<Rightarrow> ('s, unit) km" where
  "kmod f = (\<lambda>s. Inr ((), f s))"

definition kguard :: "bool \<Rightarrow> 's kexit \<Rightarrow> ('s, unit) km" where
  "kguard b e = (if b then kret () else kexits e)"

fun kfor :: "'b list \<Rightarrow> ('b \<Rightarrow> ('s, unit) km) \<Rightarrow> ('s, unit) km" where
  "kfor [] f = kret ()"
| "kfor (x # xs) f = kthen (f x) (kfor xs f)"

text \<open>A loop over \<open>xs\<close> whose body may return from the function around it.\<close>

fun kfirst :: "'b list \<Rightarrow> ('b \<Rightarrow> ('s, 'a option) km) \<Rightarrow> ('s, 'a option) km" where
  "kfirst [] f = kret None"
| "kfirst (x # xs) f = kbind (f x) (\<lambda>r. case r of None \<Rightarrow> kfirst xs f | Some y \<Rightarrow> kret (Some y))"

fun ktimes :: "nat \<Rightarrow> ('s, 'a) km \<Rightarrow> ('s, 'a list) km" where
  "ktimes 0 m = kret []"
| "ktimes (Suc n) m = kbind m (\<lambda>x. kbind (ktimes n m) (\<lambda>xs. kret (x # xs)))"

lemma kbind_cong [fundef_cong]:
  assumes "m s = m' s'" and "s = s'"
    and "\<And>x t. m' s' = Inr (x, t) \<Longrightarrow> f x t = f' x t"
  shows "kbind m f s = kbind m' f' s'"
  using assms by (auto simp: kbind_def split: sum.splits)

lemma kthen_cong [fundef_cong]:
  assumes "m s = m' s'" and "s = s'"
    and "\<And>x t. m' s' = Inr (x, t) \<Longrightarrow> n t = n' t"
  shows "kthen m n s = kthen m' n' s'"
  using assms by (auto simp: kthen_def intro: kbind_cong)

lemma kret_eq [kdefs]: "kret x s = Inr (x, s)"
  by (simp add: kret_def)

lemma kexits_eq [kdefs]: "kexits e s = Inl e"
  by (simp add: kexits_def)

lemma kbind_eq [kdefs]:
  "kbind m f s = (case m s of Inl e \<Rightarrow> Inl e | Inr (x, t) \<Rightarrow> f x t)"
  by (simp add: kbind_def)

lemma kthen_eq [kdefs]:
  "kthen m n s = (case m s of Inl e \<Rightarrow> Inl e | Inr (x, t) \<Rightarrow> n t)"
  by (simp add: kthen_def kbind_def)

lemma kget_eq [kdefs]: "kget f s = Inr (f s, s)"
  by (simp add: kget_def)

lemma kmod_eq [kdefs]: "kmod f s = Inr ((), f s)"
  by (simp add: kmod_def)

lemma kguard_eq [kdefs]: "kguard b e s = (if b then Inr ((), s) else Inl e)"
  by (simp add: kguard_def kret_def kexits_def)

subsection \<open>Weakest preconditions\<close>

text \<open>
  \<open>wp m Q E s\<close>: run from \<open>s\<close>, \<open>m\<close> either returns with \<open>Q\<close> or leaves with \<open>E\<close>.
  \<open>runs_to m s Q\<close> is total correctness: \<open>m\<close> returns, and with \<open>Q\<close>.
\<close>

definition wp :: "('s, 'a) km \<Rightarrow> ('a \<Rightarrow> 's \<Rightarrow> bool) \<Rightarrow> ('s kexit \<Rightarrow> bool) \<Rightarrow> 's \<Rightarrow> bool" where
  "wp m Q E s = (case m s of Inl e \<Rightarrow> E e | Inr (x, t) \<Rightarrow> Q x t)"

definition runs_to :: "('s, 'a) km \<Rightarrow> 's \<Rightarrow> ('a \<Rightarrow> 's \<Rightarrow> bool) \<Rightarrow> bool" where
  "runs_to m s Q = wp m Q (\<lambda>_. False) s"

lemma wp_kret [wp_eqs]: "wp (kret x) Q E s = Q x s"
  by (simp add: wp_def kret_def)

lemma wp_kexits [wp_eqs]: "wp (kexits e) Q E s = E e"
  by (simp add: wp_def kexits_def)

lemma wp_kbind [wp_eqs]: "wp (kbind m f) Q E s = wp m (\<lambda>x. wp (f x) Q E) E s"
  by (auto simp: wp_def kbind_def split: sum.splits)

lemma wp_kthen [wp_eqs]: "wp (kthen m n) Q E s = wp m (\<lambda>_. wp n Q E) E s"
  by (simp add: kthen_def wp_kbind)

lemma wp_kget [wp_eqs]: "wp (kget f) Q E s = Q (f s) s"
  by (simp add: wp_def kget_def)

lemma wp_kmod [wp_eqs]: "wp (kmod f) Q E s = Q () (f s)"
  by (simp add: wp_def kmod_def)

lemma wp_kguard [wp_eqs]: "wp (kguard b e) Q E s = (if b then Q () s else E e)"
  by (simp add: wp_def kguard_eq)

lemma wp_if [wp_eqs]: "wp (if b then m else n) Q E s = (if b then wp m Q E s else wp n Q E s)"
  by simp

lemma wp_weaken:
  assumes "wp m Q E s" and "\<And>x t. Q x t \<Longrightarrow> Q' x t" and "\<And>e. E e \<Longrightarrow> E' e"
  shows "wp m Q' E' s"
  using assms by (auto simp: wp_def split: sum.splits)

lemma runs_to_weaken:
  assumes "runs_to m s Q" and "\<And>x t. Q x t \<Longrightarrow> Q' x t"
  shows "runs_to m s Q'"
  using assms by (auto simp: runs_to_def intro: wp_weaken)

lemma runs_to_iff: "runs_to m s Q \<longleftrightarrow> (\<exists>x t. m s = Inr (x, t) \<and> Q x t)"
  by (auto simp: runs_to_def wp_def split: sum.splits)

lemma runs_toE:
  assumes "runs_to m s Q"
  obtains x t where "m s = Inr (x, t)" and "Q x t"
  using assms by (auto simp: runs_to_iff)

lemma runs_to_kbind:
  assumes "runs_to m s Q" and "\<And>x t. Q x t \<Longrightarrow> runs_to (f x) t R"
  shows "runs_to (kbind m f) s R"
  using assms by (fastforce simp: runs_to_iff kbind_eq)

lemma runs_to_kthen:
  assumes "runs_to m s Q" and "\<And>x t. Q x t \<Longrightarrow> runs_to n t R"
  shows "runs_to (kthen m n) s R"
  using assms by (auto simp: kthen_def intro: runs_to_kbind)

lemma runs_to_kret [intro]: "Q x s \<Longrightarrow> runs_to (kret x) s Q"
  by (simp add: runs_to_iff kdefs)

subsection \<open>Invariants kept by kernel code\<close>

text \<open>
  \<open>preserves E I m\<close>: started in a state with \<open>I\<close>, \<open>m\<close> returns in a state with \<open>I\<close> or leaves
  with an exit in \<open>E\<close>. \<open>stays I m\<close>: the exits only end the run the model follows. \<open>keeps I m\<close>: \<open>I\<close> holds both
  when it returns and when it passes control to user mode; it does not loop for ever, and
  shuts the machine down only with code 0. After the other exits there is no later state
  to speak of.
\<close>

fun exit_keeps :: "('s \<Rightarrow> bool) \<Rightarrow> 's kexit \<Rightarrow> bool" where
  "exit_keeps I (To_user t) = I t"
| "exit_keeps I Spins = False"
| "exit_keeps I (Shutdown c) = (c = 0)"
| "exit_keeps I _ = True"

fun run_over :: "'s kexit \<Rightarrow> bool" where
  "run_over (To_user t) = False"
| "run_over Spins = False"
| "run_over (Shutdown c) = False"
| "run_over _ = True"

definition preserves :: "('s kexit \<Rightarrow> bool) \<Rightarrow> ('s \<Rightarrow> bool) \<Rightarrow> ('s, 'a) km \<Rightarrow> bool" where
  "preserves E I m \<longleftrightarrow> (\<forall>s. I s \<longrightarrow> wp m (\<lambda>_. I) E s)"

abbreviation keeps :: "('s \<Rightarrow> bool) \<Rightarrow> ('s, 'a) km \<Rightarrow> bool" where
  "keeps I \<equiv> preserves (exit_keeps I) I"

abbreviation stays :: "('s \<Rightarrow> bool) \<Rightarrow> ('s, 'a) km \<Rightarrow> bool" where
  "stays I \<equiv> preserves run_over I"

lemma preservesI:
  assumes "\<And>s. I s \<Longrightarrow> wp m (\<lambda>_. I) E s"
  shows "preserves E I m"
  using assms by (simp add: preserves_def)

lemma wp_preserves: "preserves E I m \<Longrightarrow> I s \<Longrightarrow> wp m (\<lambda>_. I) E s"
  by (simp add: preserves_def)

lemma run_over_exit_keeps: "run_over e \<Longrightarrow> exit_keeps I e"
  by (cases e) simp_all

lemma stays_preserves: "stays I m \<Longrightarrow> (\<And>e. run_over e \<Longrightarrow> E e) \<Longrightarrow> preserves E I m"
  by (auto simp: preserves_def intro: wp_weaken)

lemma preserves_kret [keeps_intros]: "preserves E I (kret x)"
  by (simp add: preserves_def wp_eqs)

lemma preserves_kexits [keeps_intros]: "E e \<Longrightarrow> preserves E I (kexits e)"
  by (simp add: preserves_def wp_eqs)

lemma preserves_kget [keeps_intros]: "preserves E I (kget f)"
  by (simp add: preserves_def wp_eqs)

lemma preserves_kguard [keeps_intros]: "E e \<Longrightarrow> preserves E I (kguard b e)"
  by (simp add: preserves_def wp_eqs)

lemma preserves_kbind [keeps_intros]:
  assumes "preserves E I m" and "\<And>x. preserves E I (f x)"
  shows "preserves E I (kbind m f)"
proof (rule preservesI)
  fix s assume "I s"
  with assms(1) have "wp m (\<lambda>_. I) E s" by (rule wp_preserves)
  then show "wp (kbind m f) (\<lambda>_. I) E s"
    using assms(2) by (auto simp: wp_eqs preserves_def intro: wp_weaken)
qed

lemma preserves_kthen [keeps_intros]: "preserves E I m \<Longrightarrow> preserves E I n \<Longrightarrow> preserves E I (kthen m n)"
  by (simp add: kthen_def preserves_kbind)

lemma preserves_if [keeps_intros]:
  "(b \<Longrightarrow> preserves E I m) \<Longrightarrow> (\<not> b \<Longrightarrow> preserves E I n) \<Longrightarrow> preserves E I (if b then m else n)"
  by simp

lemma kfor_append: "kfor (xs @ ys) f = kthen (kfor xs f) (kfor ys f)"
proof (induction xs)
  case (Cons x xs)
  then show ?case by (auto simp: kdefs fun_eq_iff split: sum.splits)
qed (simp add: kdefs)

lemma preserves_kfor [keeps_intros]:
  "(\<And>x. x \<in> set xs \<Longrightarrow> preserves E I (f x)) \<Longrightarrow> preserves E I (kfor xs f)"
  by (induction xs) (auto intro: keeps_intros)

lemma preserves_option [keeps_intros]:
  "preserves E I m \<Longrightarrow> (\<And>x. preserves E I (f x)) \<Longrightarrow> preserves E I (case r of None \<Rightarrow> m | Some x \<Rightarrow> f x)"
  by (cases r) auto

lemma preserves_prod [keeps_intros]:
  "(\<And>x y. preserves E I (f x y)) \<Longrightarrow> preserves E I (case p of (x, y) \<Rightarrow> f x y)"
  by (cases p) auto

lemma preserves_kfirst [keeps_intros]:
  "(\<And>x. x \<in> set xs \<Longrightarrow> preserves E I (f x)) \<Longrightarrow> preserves E I (kfirst xs f)"
  by (induction xs) (auto intro!: keeps_intros)

lemma preserves_ktimes [keeps_intros]: "preserves E I m \<Longrightarrow> preserves E I (ktimes n m)"
  by (induction n) (auto intro!: keeps_intros)

lemma preserves_kmod [keeps_intros]: "(\<And>s. I s \<Longrightarrow> I (f s)) \<Longrightarrow> preserves E I (kmod f)"
  by (simp add: preserves_def wp_eqs)

end
