(* ===== verification/PKE_State.thy ===== *)
theory PKE_State
  imports PKE_Prelude
begin

text \<open>
  The state of the kernel: the process control block of \<^verbatim>\<open>kernel/process.h\<close>, the global
  variables of all C files as fields of one record, and the physical memory the kernel
  allocates pages from, with 8, 32 and 64 bit accesses to it.

  The memory is a function from 8-byte aligned addresses to 64-bit little-endian words.
  Free-list nodes, page tables, trapframes, region tables and file tables live in it, at
  the addresses the code computes, so that a page handed out twice is really shared.
  Global variables live in the record and not in this memory, so the model follows a run
  only as long as its accesses by address stay in the allocatable range
  \<open>[free_mem_start_addr, free_mem_end_addr)\<close>: one to the kernel's image below that range,
  which on the machine reads or overwrites code and variables, is the exit \<open>In_image\<close>, one to
  any other address the exit \<open>Wild\<close>, and a misaligned one \<open>Misaligned\<close>.
\<close>

section \<open>Data of the kernel\<close>

datatype proc_status = FREE | READY | RUNNING | BLOCKED | ZOMBIE

definition CODE_SEGMENT :: u32 where [simp]: "CODE_SEGMENT = 0"
definition DATA_SEGMENT :: u32 where [simp]: "DATA_SEGMENT = 1"
definition STACK_SEGMENT :: u32 where [simp]: "STACK_SEGMENT = 2"
definition CONTEXT_SEGMENT :: u32 where [simp]: "CONTEXT_SEGMENT = 3"
definition SYSTEM_SEGMENT :: u32 where [simp]: "SYSTEM_SEGMENT = 4"

definition NPROC :: nat where [simp]: "NPROC = 32"

text \<open>
  Pointers to processes are indices into \<open>procs\<close>, \<open>None\<close> for the null pointer; the
  other pointers are physical addresses.
\<close>

record process =
  kstack :: u64
  pagetable :: u64
  trapframe :: u64
  mapped_info :: u64
  total_mapped_region :: i32
  pid :: u64
  status :: proc_status
  parent :: "nat option"
  queue_next :: "nat option"
  tick_count :: i32
  total_tick_count :: i32
  total_mem_count :: i32
  pfiles :: u64

record spike_file =
  kfd :: i32
  refcnt :: u32

record csrs =
  stvec :: u64
  satp :: u64
  sstatus :: u64
  sepc :: u64
  scause :: u64
  stval :: u64
  sip :: u64
  sscratch :: u64

text \<open>
  What the linker and the host decide: the addresses of the symbols the code names, the
  bytes of the read-only data (string literals), and the host's answer to a front-end
  call. A call is its number, its arguments and, where it passes a buffer of the kernel's
  stack, the bytes of that buffer (such a buffer has no address in the model; 0 stands in
  for it among the arguments). The host sees the calls made so far, the last one first,
  and the memory; it answers with a return value and the bytes it writes to the buffer.
\<close>

record hcall =
  hnum :: u64
  hargs :: "u64 list"
  hdata :: "u8 list"

record kenv =
  sym_etext :: u64
  sym_end :: u64
  sym_trap_sec_start :: u64
  sym_smode_trap_vector :: u64
  sym_smode_trap_handler :: u64
  sym_str_ramdisk0 :: u64
  sym_str_slash :: u64
  sym_ramdisk0_input :: u64
  sym_ramdisk0_output :: u64
  sym_rfs_sync :: u64
  sym_rfs_get_root :: u64
  sym_rfs_unmount :: u64
  sym_rfs_cleanup :: u64
  sym_rfs_node_dirops :: u64
  sym_rfs_node_fileops :: u64
  sym_arg_buf :: u64
  rodata :: "u64 \<Rightarrow> u8 option"
  host :: "hcall list \<Rightarrow> (u64 \<Rightarrow> u64) \<Rightarrow> u64 \<times> u8 list"

record kstate =
  mem :: "u64 \<Rightarrow> u64"
  free_mem_start_addr :: u64
  free_mem_end_addr :: u64
  g_free_mem_list :: u64
  g_mem_size :: u64
  procs :: "process list"
  current :: "nat option"
  ready_queue_head :: "nat option"
  g_ufree_page :: u64
  g_ticks :: u64
  g_kernel_pagetable :: u64
  csr :: csrs
  spike_files :: "spike_file list"
  spike_fds :: "nat option list"
  host_log :: "hcall list"
  vdev_list :: "u64 list"
  RAMDISK0_BASE_ADDR :: u64
  uregs :: "u64 list"
  kenv :: kenv

type_synonym 'a K = "(kstate, 'a) km"

text \<open>
  The values the C initialisers give the global variables, before any code has run:
  zero, but for \<open>g_ufree_page\<close> and the file table. The memory holds what the machine
  starts with; its size is what the device tree said.
\<close>

definition zero_process :: process where
  "zero_process = \<lparr>kstack = 0, pagetable = 0, trapframe = 0, mapped_info = 0,
     total_mapped_region = 0, pid = 0, status = FREE, parent = None, queue_next = None,
     tick_count = 0, total_tick_count = 0, total_mem_count = 0, pfiles = 0\<rparr>"

definition MAX_FILES :: nat where [simp]: "MAX_FILES = 128"
definition MAX_FDS :: nat where [simp]: "MAX_FDS = 128"
definition MAX_DEV :: nat where [simp]: "MAX_DEV = 10"

definition initial_kstate :: "kenv \<Rightarrow> u64 \<Rightarrow> (u64 \<Rightarrow> u64) \<Rightarrow> kstate" where
  "initial_kstate E msize m = \<lparr>mem = m, free_mem_start_addr = 0, free_mem_end_addr = 0,
     g_free_mem_list = 0, g_mem_size = msize, procs = replicate NPROC zero_process,
     current = None, ready_queue_head = None, g_ufree_page = USER_FREE_ADDRESS_START,
     g_ticks = 0, g_kernel_pagetable = 0,
     csr = \<lparr>stvec = 0, satp = 0, sstatus = 0, sepc = 0, scause = 0, stval = 0, sip = 0, sscratch = 0\<rparr>,
     spike_files = replicate MAX_FILES \<lparr>kfd = - 1, refcnt = 0\<rparr>,
     spike_fds = replicate MAX_FDS None, host_log = [],
     vdev_list = replicate MAX_DEV 0, RAMDISK0_BASE_ADDR = 0, uregs = [], kenv = E\<rparr>"

section \<open>Bit fields of a word\<close>

definition get_bits :: "nat \<Rightarrow> nat \<Rightarrow> u64 \<Rightarrow> u64" where
  "get_bits k n w = take_bit n (drop_bit k w)"

definition put_bits :: "nat \<Rightarrow> nat \<Rightarrow> u64 \<Rightarrow> u64 \<Rightarrow> u64" where
  "put_bits k n v w = (w AND NOT (push_bit k (mask n))) OR push_bit k (take_bit n v)"

lemma bit_put_bits:
  "bit (put_bits k n v w) i \<longleftrightarrow>
     i < 64 \<and> (if k \<le> i \<and> i < k + n then bit v (i - k) else bit w i)"
  by (auto simp: put_bits_def bit_simps)

lemma bit_get_bits: "bit (get_bits k n w) i \<longleftrightarrow> i < n \<and> bit w (k + i)"
  by (auto simp: get_bits_def bit_simps)

lemma get_put_bits_same: "k + n \<le> 64 \<Longrightarrow> get_bits k n (put_bits k n v w) = take_bit n v"
  by (rule bit_word_eqI) (auto simp: bit_get_bits bit_put_bits bit_simps)

lemma get_put_bits_other:
  "k + n \<le> j \<or> j + l \<le> k \<Longrightarrow> get_bits j l (put_bits k n v w) = get_bits j l w"
  by (rule bit_word_eqI) (auto simp: bit_get_bits bit_put_bits dest: bit_imp_le_length)

section \<open>Physical memory\<close>

definition aligned :: "nat \<Rightarrow> u64 \<Rightarrow> bool" where
  "aligned n a \<longleftrightarrow> unat a mod n = 0"

definition mem_ok :: "kstate \<Rightarrow> u64 \<Rightarrow> bool" where
  "mem_ok s a \<longleftrightarrow> free_mem_start_addr s \<le> a \<and> a < free_mem_end_addr s \<and> a < PHYS_TOP"

definition dword_of :: "u64 \<Rightarrow> u64" where
  "dword_of a = a - a mod 8"

definition bit_off :: "u64 \<Rightarrow> nat" where
  "bit_off a = 8 * (unat a mod 8)"

text \<open>
  An address outside the memory pages are allocated from lies in the image of the kernel or
  in no memory at all.
\<close>

definition bad_access :: "kstate \<Rightarrow> u64 \<Rightarrow> 's kexit" where
  "bad_access s a = (if KERN_BASE \<le> a \<and> a < free_mem_start_addr s then In_image a else Wild a)"

definition access :: "nat \<Rightarrow> u64 \<Rightarrow> unit K" where
  "access n a = kbind (kget (\<lambda>s. (mem_ok s a, bad_access s a))) (\<lambda>(ok, e).
     kthen (kguard (aligned n a) (Misaligned a)) (kguard ok e))"

definition load64 :: "u64 \<Rightarrow> u64 K" where
  "load64 a = kthen (access 8 a) (kget (\<lambda>s. mem s a))"

definition store64 :: "u64 \<Rightarrow> u64 \<Rightarrow> unit K" where
  "store64 a v = kthen (access 8 a) (kmod (\<lambda>s. s\<lparr>mem := (mem s)(a := v)\<rparr>))"

definition get_at :: "nat \<Rightarrow> (u64 \<Rightarrow> u64) \<Rightarrow> u64 \<Rightarrow> u64" where
  "get_at n m a = get_bits (bit_off a) n (m (dword_of a))"

definition put_at :: "nat \<Rightarrow> u64 \<Rightarrow> u64 \<Rightarrow> (u64 \<Rightarrow> u64) \<Rightarrow> (u64 \<Rightarrow> u64)" where
  "put_at n a v m = m(dword_of a := put_bits (bit_off a) n v (m (dword_of a)))"

definition load32 :: "u64 \<Rightarrow> u32 K" where
  "load32 a = kthen (access 4 a) (kget (\<lambda>s. ucast (get_at 32 (mem s) a)))"

definition store32 :: "u64 \<Rightarrow> u32 \<Rightarrow> unit K" where
  "store32 a v = kthen (access 4 a) (kmod (\<lambda>s. s\<lparr>mem := put_at 32 a (ucast v) (mem s)\<rparr>))"

text \<open>A byte may also come from the read-only data of the kernel image.\<close>

definition load8 :: "u64 \<Rightarrow> u8 K" where
  "load8 a = kbind (kget (\<lambda>s. if \<not> mem_ok s a \<and> a < PHYS_TOP then rodata (kenv s) a else None)) (\<lambda>r. case r of
     Some b \<Rightarrow> kret b
   | None \<Rightarrow> kthen (access 1 a) (kget (\<lambda>s. ucast (get_at 8 (mem s) a))))"

definition store8 :: "u64 \<Rightarrow> u8 \<Rightarrow> unit K" where
  "store8 a v = kthen (access 1 a) (kmod (\<lambda>s. s\<lparr>mem := put_at 8 a (ucast v) (mem s)\<rparr>))"

subsection \<open>Executing memory accesses\<close>

named_theorems mem_eqs "results of memory accesses"

lemma aligned_1 [simp]: "aligned (Suc 0) a"
  by (simp add: aligned_def)

lemma bad_access_cases:
  "(\<And>a. E (Wild a)) \<Longrightarrow> (\<And>a. E (In_image a)) \<Longrightarrow> E (bad_access s a)"
  by (simp add: bad_access_def)

lemma bad_access_exits [simp]: "run_over (bad_access s a)" "exit_keeps I (bad_access s a)"
  by (simp_all add: bad_access_def)

lemma access_eq [mem_eqs]:
  "access n a s = (if \<not> aligned n a then Inl (Misaligned a)
     else if \<not> mem_ok s a then Inl (bad_access s a) else Inr ((), s))"
  by (simp add: access_def kdefs)

lemma load64_eq [mem_eqs]:
  "load64 a s = (if \<not> aligned 8 a then Inl (Misaligned a)
     else if \<not> mem_ok s a then Inl (bad_access s a) else Inr (mem s a, s))"
  by (simp add: load64_def kdefs access_eq)

lemma store64_eq [mem_eqs]:
  "store64 a v s = (if \<not> aligned 8 a then Inl (Misaligned a)
     else if \<not> mem_ok s a then Inl (bad_access s a) else Inr ((), s\<lparr>mem := (mem s)(a := v)\<rparr>))"
  by (simp add: store64_def kdefs access_eq)

lemma load32_eq [mem_eqs]:
  "load32 a s = (if \<not> aligned 4 a then Inl (Misaligned a)
     else if \<not> mem_ok s a then Inl (bad_access s a) else Inr (ucast (get_at 32 (mem s) a), s))"
  by (simp add: load32_def kdefs access_eq)

lemma store32_eq [mem_eqs]:
  "store32 a v s = (if \<not> aligned 4 a then Inl (Misaligned a)
     else if \<not> mem_ok s a then Inl (bad_access s a)
     else Inr ((), s\<lparr>mem := put_at 32 a (ucast v) (mem s)\<rparr>))"
  by (simp add: store32_def kdefs access_eq)

lemma load8_eq [mem_eqs]:
  "load8 a s = (if mem_ok s a then Inr (ucast (get_at 8 (mem s) a), s)
     else if a < PHYS_TOP then (case rodata (kenv s) a of Some b \<Rightarrow> Inr (b, s) | None \<Rightarrow> Inl (bad_access s a))
     else Inl (bad_access s a))"
  by (auto simp: load8_def kdefs access_eq split: option.splits)

lemma store8_eq [mem_eqs]:
  "store8 a v s = (if \<not> mem_ok s a then Inl (bad_access s a)
     else Inr ((), s\<lparr>mem := put_at 8 a (ucast v) (mem s)\<rparr>))"
  by (simp add: store8_def kdefs access_eq)

lemma mem_ok_updates [simp]:
  "mem_ok (s\<lparr>mem := m\<rparr>) = mem_ok s"
  "mem_ok (s\<lparr>procs := ps\<rparr>) = mem_ok s"
  "mem_ok (s\<lparr>current := c\<rparr>) = mem_ok s"
  "mem_ok (s\<lparr>ready_queue_head := h\<rparr>) = mem_ok s"
  "mem_ok (s\<lparr>g_free_mem_list := x\<rparr>) = mem_ok s"
  "mem_ok (s\<lparr>g_ufree_page := x\<rparr>) = mem_ok s"
  "mem_ok (s\<lparr>g_ticks := x\<rparr>) = mem_ok s"
  "mem_ok (s\<lparr>csr := r\<rparr>) = mem_ok s"
  "mem_ok (s\<lparr>spike_files := fs\<rparr>) = mem_ok s"
  "mem_ok (s\<lparr>spike_fds := fds\<rparr>) = mem_ok s"
  "mem_ok (s\<lparr>host_log := lg\<rparr>) = mem_ok s"
  "mem_ok (s\<lparr>vdev_list := vl\<rparr>) = mem_ok s"
  "mem_ok (s\<lparr>RAMDISK0_BASE_ADDR := x\<rparr>) = mem_ok s"
  "mem_ok (s\<lparr>uregs := rs\<rparr>) = mem_ok s"
  by (simp_all add: mem_ok_def fun_eq_iff)

lemma mem_ok_bound: "mem_ok s a \<Longrightarrow> unat a < 0x88000000"
  by (simp add: mem_ok_def word_less_nat_alt)

text \<open>
  A linker map and a silent host, for the examples.
\<close>

definition sample_env :: kenv where
  "sample_env = \<lparr>sym_etext = 0x80008000, sym_end = 0x8001c000, sym_trap_sec_start = 0x80006000,
     sym_smode_trap_vector = 0x80006000, sym_smode_trap_handler = 0x80001000,
     sym_str_ramdisk0 = 0x80007000, sym_str_slash = 0x80007010,
     sym_ramdisk0_input = 0x80002000, sym_ramdisk0_output = 0x80002100,
     sym_rfs_sync = 0x80002200, sym_rfs_get_root = 0x80002300, sym_rfs_unmount = 0x80002400,
     sym_rfs_cleanup = 0x80002500, sym_rfs_node_dirops = 0x80007100, sym_rfs_node_fileops = 0x80007140,
     sym_arg_buf = 0x80018000, rodata = (\<lambda>_. None), host = (\<lambda>log m. (0, []))\<rparr>"

subsection \<open>Byte and half-word cells\<close>

lemma unat_mod8: "unat ((a::u64) mod 8) = unat a mod 8"
  by (simp add: unat_mod)

lemma unat_dword_of: "unat (dword_of a) = unat a - unat a mod 8"
proof -
  have "a mod 8 \<le> a"
    by (simp add: word_le_nat_alt unat_mod)
  then have "unat (a - a mod 8) = unat a - unat (a mod 8)"
    by (rule unat_sub)
  then show ?thesis by (simp add: dword_of_def unat_mod)
qed

lemma aligned_dword_of [simp]: "aligned 8 (dword_of a)"
  by (simp add: aligned_def unat_dword_of minus_mod_eq_mult_div)

lemma dword_of_aligned: "aligned 8 a \<Longrightarrow> dword_of a = a"
  by (simp add: word_unat_eq_iff unat_dword_of aligned_def)

lemma cell_eq_iff:
  "a = b \<longleftrightarrow> dword_of a = dword_of b \<and> bit_off a = bit_off b"
proof -
  have "unat a = unat b" if "unat a - unat a mod 8 = unat b - unat b mod 8"
    and "unat a mod 8 = unat b mod 8"
    using that by (metis le_add_diff_inverse2 mod_less_eq_dividend)
  then show ?thesis
    by (auto simp: word_unat_eq_iff unat_dword_of bit_off_def)
qed

lemma bit_off_aligned4: "aligned 4 a \<Longrightarrow> bit_off a = 0 \<or> bit_off a = 32"
proof -
  assume "aligned 4 a"
  then have "unat a mod 8 mod 4 = 0"
    by (simp add: aligned_def mod_mod_cancel)
  moreover have "unat a mod 8 < 8" by simp
  moreover have "y = 0 \<or> y = 4" if "y mod 4 = 0" and "y < 8" for y :: nat
    using that by arith
  ultimately show ?thesis by (auto simp: bit_off_def)
qed

lemma bit_off_8_apart:
  assumes "bit_off a \<noteq> bit_off b"
  shows "bit_off a + 8 \<le> bit_off b \<or> bit_off b + 8 \<le> bit_off a"
proof -
  have "8 * x + 8 \<le> 8 * y \<or> 8 * y + 8 \<le> 8 * x" if "x \<noteq> y" for x y :: nat
    using that by arith
  with assms show ?thesis by (simp add: bit_off_def)
qed

lemma get_put_at_same:
  assumes "n = 8 \<or> n = 32 \<and> aligned 4 a"
  shows "get_at n (put_at n a v m) a = take_bit n v"
proof -
  have "bit_off a + n \<le> 64"
    using assms bit_off_aligned4 [of a] by (auto simp: bit_off_def)
  then show ?thesis
    by (simp add: get_at_def put_at_def get_put_bits_same)
qed

lemma get_put_at_other:
  assumes "n = 8 \<or> n = 32 \<and> aligned 4 a \<and> aligned 4 b" and "a \<noteq> b"
  shows "get_at n (put_at n a v m) b = get_at n m b"
proof (cases "dword_of a = dword_of b")
  case True
  with assms(2) have "bit_off a \<noteq> bit_off b" using cell_eq_iff [of a b] by blast
  with assms(1) have "bit_off a + n \<le> bit_off b \<or> bit_off b + n \<le> bit_off a"
    using bit_off_aligned4 [of a] bit_off_aligned4 [of b] bit_off_8_apart [of a b]
    by auto
  with True show ?thesis
    by (simp add: get_at_def put_at_def get_put_bits_other)
next
  case False
  then show ?thesis by (simp add: get_at_def put_at_def)
qed

lemma get_put_at8 [simp]:
  "get_at 8 (put_at 8 a v m) b = (if a = b then take_bit 8 v else get_at 8 m b)"
  by (simp add: get_put_at_same get_put_at_other)

lemma get_put_at32:
  "aligned 4 a \<Longrightarrow> aligned 4 b \<Longrightarrow>
   get_at 32 (put_at 32 a v m) b = (if a = b then take_bit 32 v else get_at 32 m b)"
  by (simp add: get_put_at_same get_put_at_other)

lemma ucast_take_bit8 [simp]: "ucast (take_bit 8 (ucast (v::u8) :: u64)) = v"
  by (rule bit_word_eqI) (simp add: bit_simps)

lemma ucast_take_bit32 [simp]: "ucast (take_bit 32 (ucast (v::u32) :: u64)) = v"
  by (rule bit_word_eqI) (simp add: bit_simps)

end
