(* ===== verification/PKE_Pmm.thy ===== *)
theory PKE_Pmm
  imports PKE_State
begin

text \<open>
  The physical page allocator, \<^verbatim>\<open>kernel/pmm.c\<close>. The free pages form a linked list whose
  nodes are the pages themselves: the first eight bytes of a free page point to the next
  one. \<open>free_pages s xs\<close> says that the list the memory holds is \<open>xs\<close>; every operation
  is specified by its effect on \<open>xs\<close>. The locale \<open>page_allocator\<close> states what the rest
  of the kernel relies on.
\<close>

section \<open>The operations\<close>

definition bump_mem_count :: "i32 \<Rightarrow> kstate \<Rightarrow> kstate" where
  "bump_mem_count d s = (case current s of
     None \<Rightarrow> s
   | Some i \<Rightarrow> s\<lparr>procs := (procs s)[i := (procs s ! i)
       \<lparr>total_mem_count := total_mem_count (procs s ! i) + d\<rparr>]\<rparr>)"

definition free_page :: "u64 \<Rightarrow> unit K" where
  "free_page pa =
     kbind (kget (\<lambda>s. pa mod PGSIZE \<noteq> 0 \<or> pa < free_mem_start_addr s \<or> pa \<ge> free_mem_end_addr s))
       (\<lambda>bad. kthen (kguard (\<not> bad) (Panic ''free_page''))
     (kbind (kget g_free_mem_list) (\<lambda>next. kthen (store64 pa next)
     (kthen (kmod (\<lambda>s. s\<lparr>g_free_mem_list := pa\<rparr>))
     (kmod (bump_mem_count (- 1)))))))"

definition alloc_page :: "u64 K" where
  "alloc_page =
     kbind (kget g_free_mem_list) (\<lambda>n.
     kthen (if n \<noteq> 0
            then kbind (load64 n) (\<lambda>next. kmod (\<lambda>s. s\<lparr>g_free_mem_list := next\<rparr>))
            else kret ())
     (kthen (kmod (bump_mem_count 1)) (kret n)))"

text \<open>
  The loop of \<^verbatim>\<open>create_freepage_list\<close> stops because each iteration frees a page below
  \<open>PHYS_TOP\<close>, and panics or faults otherwise.
\<close>

lemma free_page_bound: "free_page pa s = Inr (x, t) \<Longrightarrow> unat pa < 0x88000000"
  by (auto simp: free_page_def kdefs mem_eqs split: if_splits dest: mem_ok_bound)

lemma next_page_less:
  "unat p < 0x88000000 \<Longrightarrow> unat (p + 4096 :: u64) = unat p + 4096"
  by (simp add: unat_word_ariths)

function create_freepage_loop :: "u64 \<Rightarrow> u64 \<Rightarrow> unit K" where
  "create_freepage_loop p end s =
     (if p + PGSIZE < end
      then kthen (free_page p) (create_freepage_loop (p + PGSIZE) end) s
      else Inr ((), s))"
  by pat_completeness auto
termination
  by (relation "measure (\<lambda>(p, end, s). 0x88001000 - unat p)")
     (auto dest!: free_page_bound simp: next_page_less)

declare create_freepage_loop.simps [simp del]

definition create_freepage_list :: "u64 \<Rightarrow> u64 \<Rightarrow> unit K" where
  "create_freepage_list start end =
     kthen (kmod (\<lambda>s. s\<lparr>g_free_mem_list := 0\<rparr>))
       (create_freepage_loop (ROUNDUP start PGSIZE) end)"

definition pmm_init :: "unit K" where
  "pmm_init =
     kbind (kget (\<lambda>s. sym_end (kenv s))) (\<lambda>g_kernel_end.
     (let g_kernel_start = KERN_BASE;
          pke_kernel_size = g_kernel_end - g_kernel_start in
      kthen (kmod (\<lambda>s. s\<lparr>free_mem_start_addr := ROUNDUP g_kernel_end PGSIZE\<rparr>))
     (kthen (kmod (\<lambda>s. s\<lparr>g_mem_size := MIN_u64 PKE_MAX_ALLOWABLE_RAM (g_mem_size s)\<rparr>))
     (kbind (kget g_mem_size) (\<lambda>msize.
      kthen (kguard (\<not> msize < pke_kernel_size)
        (Panic ''Error when recomputing physical memory size (g_mem_size).''))
     (kthen (kmod (\<lambda>s. s\<lparr>free_mem_end_addr := msize + DRAM_BASE\<rparr>))
     (kbind (kget (\<lambda>s. (free_mem_start_addr s, free_mem_end_addr s))) (\<lambda>(start, end).
        create_freepage_list start end))))))))"

section \<open>The free list\<close>

definition ptr :: "u64 \<Rightarrow> u64 option" where
  "ptr p = (if p = 0 then None else Some p)"

abbreviation pages_from :: "(u64 \<Rightarrow> u64) \<Rightarrow> u64 \<Rightarrow> u64 list \<Rightarrow> bool" where
  "pages_from m p xs \<equiv> chain (\<lambda>x. ptr (m x)) (ptr p) xs"

lemma ptr_simps [simp]: "ptr p = None \<longleftrightarrow> p = 0" "ptr p = Some x \<longleftrightarrow> p = x \<and> x \<noteq> 0"
  by (auto simp: ptr_def)

definition page_ok :: "kstate \<Rightarrow> u64 \<Rightarrow> bool" where
  "page_ok s p \<longleftrightarrow> aligned 4096 p \<and> p \<noteq> 0 \<and> free_mem_start_addr s \<le> p \<and>
     unat p + 4096 \<le> unat (free_mem_end_addr s) \<and> unat (free_mem_end_addr s) \<le> 0x88000000"

definition free_pages :: "kstate \<Rightarrow> u64 list \<Rightarrow> bool" where
  "free_pages s xs \<longleftrightarrow> pages_from (mem s) (g_free_mem_list s) xs \<and> (\<forall>x \<in> set xs. page_ok s x)"

lemma pages_from_update: "x \<notin> set xs \<Longrightarrow> pages_from (m(x := v)) p xs = pages_from m p xs"
  by (rule chain_cong) auto

lemma free_pages_distinct: "free_pages s xs \<Longrightarrow> distinct xs"
  by (auto simp: free_pages_def intro: chain_distinct)

lemma page_ok_aligned8: "page_ok s p \<Longrightarrow> aligned 8 p"
  using mod_mod_cancel [of 8 4096 "unat p"] by (simp add: page_ok_def aligned_def)

lemma page_ok_mem_ok: "page_ok s p \<Longrightarrow> mem_ok s p"
  by (auto simp: page_ok_def mem_ok_def word_less_nat_alt word_le_nat_alt)

lemma page_ok_cong:
  "free_mem_start_addr t = free_mem_start_addr s \<Longrightarrow> free_mem_end_addr t = free_mem_end_addr s \<Longrightarrow>
   page_ok t = page_ok s"
  by (simp add: page_ok_def fun_eq_iff)

lemma page_ok_updates [simp]:
  "page_ok (s\<lparr>mem := m\<rparr>) = page_ok s"
  "page_ok (s\<lparr>procs := ps\<rparr>) = page_ok s"
  "page_ok (s\<lparr>current := c\<rparr>) = page_ok s"
  "page_ok (s\<lparr>ready_queue_head := h\<rparr>) = page_ok s"
  "page_ok (s\<lparr>g_free_mem_list := x\<rparr>) = page_ok s"
  "page_ok (s\<lparr>g_ufree_page := x\<rparr>) = page_ok s"
  "page_ok (s\<lparr>g_ticks := x\<rparr>) = page_ok s"
  "page_ok (s\<lparr>csr := r\<rparr>) = page_ok s"
  "page_ok (s\<lparr>spike_files := fs\<rparr>) = page_ok s"
  "page_ok (s\<lparr>spike_fds := fds\<rparr>) = page_ok s"
  "page_ok (s\<lparr>host_log := lg\<rparr>) = page_ok s"
  "page_ok (s\<lparr>vdev_list := vl\<rparr>) = page_ok s"
  "page_ok (s\<lparr>RAMDISK0_BASE_ADDR := y\<rparr>) = page_ok s"
  "page_ok (s\<lparr>uregs := rs\<rparr>) = page_ok s"
  by (simp_all add: page_ok_def fun_eq_iff)

lemma page_ok_mod: "page_ok s p \<Longrightarrow> p mod 4096 = 0"
  by (simp add: page_ok_def aligned_def word_unat_eq_iff unat_mod)

lemma page_off:
  assumes "page_ok s p" and "unat k < 4096"
  shows "unat (p + k) = unat p + unat k"
  using assms by (simp add: page_ok_def unat_word_ariths)

lemma page_off_mem_ok:
  assumes "page_ok s p" and "unat k < 4096"
  shows "mem_ok s (p + k)"
  using assms page_off [OF assms]
  by (simp add: page_ok_def mem_ok_def word_less_nat_alt word_le_nat_alt)

lemma page_off_aligned:
  assumes "page_ok s p" and "unat k < 4096" and "unat k mod n = 0" and "n dvd 4096"
  shows "aligned n (p + k)"
proof -
  have "n dvd unat p"
    using assms(1,4) by (auto simp: page_ok_def aligned_def intro: dvd_trans)
  then show ?thesis
    using assms(3) page_off [OF assms(1,2)] by (auto simp: aligned_def)
qed

lemma store64_page:
  assumes "page_ok s p" and "unat k < 4096" and "unat k mod 8 = 0"
  shows "store64 (p + k) v s = Inr ((), s\<lparr>mem := (mem s)(p + k := v)\<rparr>)"
  using assms by (simp add: store64_eq page_off_mem_ok page_off_aligned)

lemma load64_page:
  assumes "page_ok s p" and "unat k < 4096" and "unat k mod 8 = 0"
  shows "load64 (p + k) s = Inr (mem s (p + k), s)"
  using assms by (simp add: load64_eq page_off_mem_ok page_off_aligned)

lemma bump_mem_count_simps [simp]:
  "mem (bump_mem_count d s) = mem s"
  "g_free_mem_list (bump_mem_count d s) = g_free_mem_list s"
  "free_mem_start_addr (bump_mem_count d s) = free_mem_start_addr s"
  "free_mem_end_addr (bump_mem_count d s) = free_mem_end_addr s"
  "current (bump_mem_count d s) = current s"
  "length (procs (bump_mem_count d s)) = length (procs s)"
  "ready_queue_head (bump_mem_count d s) = ready_queue_head s"
  "kenv (bump_mem_count d s) = kenv s"
  by (simp_all add: bump_mem_count_def split: option.splits)

lemma bump_mem_count_undo:
  assumes "current t = current s" and "procs t = procs (bump_mem_count 1 s)"
  shows "procs (bump_mem_count (- 1) t) = procs s"
proof (cases "current s")
  case (Some i)
  with assms show ?thesis
    by (cases "i < length (procs s)")
       (auto simp: bump_mem_count_def list_update_beyond not_less)
qed (use assms in \<open>simp add: bump_mem_count_def\<close>)

section \<open>What each operation does to the free list\<close>

lemma alloc_page_Cons:
  assumes "free_pages s (x # xs)"
  shows "alloc_page s = Inr (x, bump_mem_count 1 (s\<lparr>g_free_mem_list := mem s x\<rparr>))"
  using assms
  by (auto simp: alloc_page_def kdefs mem_eqs free_pages_def page_ok_mem_ok page_ok_aligned8)

lemma alloc_page_Nil:
  assumes "free_pages s []"
  shows "alloc_page s = Inr (0, bump_mem_count 1 s)"
  using assms by (auto simp: alloc_page_def kdefs free_pages_def)

lemma free_pages_alloc:
  assumes "free_pages s (x # xs)"
  shows "free_pages (bump_mem_count 1 (s\<lparr>g_free_mem_list := mem s x\<rparr>)) xs"
  using assms by (simp add: free_pages_def page_ok_def)

lemma free_page_eq:
  assumes "page_ok s p"
  shows "free_page p s = Inr ((), bump_mem_count (- 1)
    (s\<lparr>mem := (mem s)(p := g_free_mem_list s), g_free_mem_list := p\<rparr>))"
  using assms page_ok_mod [OF assms] page_ok_mem_ok [OF assms] page_ok_aligned8 [OF assms]
  by (auto simp: free_page_def kdefs mem_eqs mem_ok_def not_le)

lemma free_pages_free:
  assumes "free_pages s xs" and "page_ok s p" and "p \<notin> set xs"
  shows "free_pages (bump_mem_count (- 1)
    (s\<lparr>mem := (mem s)(p := g_free_mem_list s), g_free_mem_list := p\<rparr>)) (p # xs)"
  using assms
  by (auto simp: free_pages_def page_ok_def pages_from_update fun_upd_same simp del: fun_upd_apply)

section \<open>The interface of the allocator\<close>

text \<open>
  Clients see a stack of free pages. Allocation pops it and leaves the memory alone;
  with no page left it returns the null pointer. Freeing pushes, and writes to the freed
  page only.
\<close>

locale page_allocator =
  fixes alloc :: "('s, u64) km"
    and release :: "u64 \<Rightarrow> ('s, unit) km"
    and stack :: "'s \<Rightarrow> u64 list \<Rightarrow> bool"
    and ok :: "'s \<Rightarrow> u64 \<Rightarrow> bool"
    and ram :: "'s \<Rightarrow> u64 \<Rightarrow> u64"
  assumes alloc_some: "stack s (x # xs) \<Longrightarrow>
      runs_to alloc s (\<lambda>r t. r = x \<and> stack t xs \<and> ram t = ram s \<and> ok t = ok s)"
    and alloc_none: "stack s [] \<Longrightarrow>
      runs_to alloc s (\<lambda>r t. r = 0 \<and> stack t [] \<and> ram t = ram s \<and> ok t = ok s)"
    and release_page: "stack s xs \<Longrightarrow> ok s p \<Longrightarrow> p \<notin> set xs \<Longrightarrow>
      runs_to (release p) s (\<lambda>_ t. stack t (p # xs) \<and> ok t = ok s \<and>
        (\<forall>a. a \<noteq> p \<longrightarrow> ram t a = ram s a))"
    and stack_distinct: "stack s xs \<Longrightarrow> distinct xs"
    and stack_ok: "stack s xs \<Longrightarrow> x \<in> set xs \<Longrightarrow> ok s x \<and> x \<noteq> 0"
begin

lemma alloc_times:
  "stack s xs \<Longrightarrow> n \<le> length xs \<Longrightarrow>
   runs_to (ktimes n alloc) s
     (\<lambda>ps t. ps = take n xs \<and> stack t (drop n xs) \<and> ram t = ram s \<and> ok t = ok s)"
proof (induction n arbitrary: s xs)
  case 0
  then show ?case by (simp add: runs_to_kret)
next
  case (Suc n)
  then obtain x ys where xs: "xs = x # ys" and n: "n \<le> length ys"
    by (cases xs) auto
  show ?case
    unfolding ktimes.simps
  proof (rule runs_to_kbind [OF alloc_some])
    show "stack s (x # ys)" using Suc.prems xs by simp
  next
    fix r t assume r: "r = x \<and> stack t ys \<and> ram t = ram s \<and> ok t = ok s"
    show "runs_to (kbind (ktimes n alloc) (\<lambda>ps. kret (r # ps))) t
      (\<lambda>ps t. ps = take (Suc n) xs \<and> stack t (drop (Suc n) xs) \<and> ram t = ram s \<and> ok t = ok s)"
      by (rule runs_to_kbind [OF Suc.IH [of t ys]]) (use r n xs in auto)
  qed
qed

lemma release_alloc:
  assumes "stack s xs" and "ok s p" and "p \<notin> set xs"
  shows "runs_to (kthen (release p) alloc) s (\<lambda>r t. r = p \<and> stack t xs)"
  by (rule runs_to_kthen [OF release_page [OF assms]]) (auto intro: runs_to_weaken [OF alloc_some])

lemma alloc_release:
  assumes "stack s (x # xs)"
  shows "runs_to (kbind alloc release) s
    (\<lambda>_ t. stack t (x # xs) \<and> (\<forall>a. a \<noteq> x \<longrightarrow> ram t a = ram s a))"
proof (rule runs_to_kbind [OF alloc_some [OF assms]])
  fix r t assume t: "r = x \<and> stack t xs \<and> ram t = ram s \<and> ok t = ok s"
  then have r: "stack t xs" "ok t r" "r \<notin> set xs"
    using stack_ok [OF assms] stack_distinct [OF assms] by auto
  show "runs_to (release r) t
      (\<lambda>_ t. stack t (x # xs) \<and> (\<forall>a. a \<noteq> x \<longrightarrow> ram t a = ram s a))"
    by (rule runs_to_weaken [OF release_page [OF r]]) (use t in auto)
qed

end

interpretation pmm: page_allocator alloc_page free_page free_pages page_ok mem
proof
  show "runs_to alloc_page s (\<lambda>r t. r = x \<and> free_pages t xs \<and> mem t = mem s \<and> page_ok t = page_ok s)"
    if "free_pages s (x # xs)" for s x xs
    using that by (auto simp: runs_to_iff alloc_page_Cons free_pages_alloc intro: page_ok_cong)
  show "runs_to alloc_page s (\<lambda>r t. r = 0 \<and> free_pages t [] \<and> mem t = mem s \<and> page_ok t = page_ok s)"
    if "free_pages s []" for s
    using that by (auto simp: runs_to_iff alloc_page_Nil free_pages_def intro: page_ok_cong)
  show "runs_to (free_page p) s (\<lambda>_ t. free_pages t (p # xs) \<and> page_ok t = page_ok s \<and>
      (\<forall>a. a \<noteq> p \<longrightarrow> mem t a = mem s a))"
    if "free_pages s xs" and "page_ok s p" and "p \<notin> set xs" for s xs p
    using that by (auto simp: runs_to_iff free_page_eq free_pages_free intro: page_ok_cong)
  show "distinct xs" if "free_pages s xs" for s xs
    using that by (rule free_pages_distinct)
  show "page_ok s x \<and> x \<noteq> 0" if "free_pages s xs" and "x \<in> set xs" for s xs x
    using that by (auto simp: free_pages_def page_ok_def)
qed

section \<open>Building the list\<close>

definition page_range :: "u64 \<Rightarrow> nat \<Rightarrow> u64 list" where
  "page_range p n = map (\<lambda>k. p + of_nat (4096 * k)) [0..<n]"

lemma page_range_Suc: "page_range p (Suc n) = p # page_range (p + 4096) n"
proof -
  have "[0..<Suc n] = 0 # map Suc [0..<n]"
    by (simp add: upt_conv_Cons map_Suc_upt)
  then show ?thesis by (simp add: page_range_def algebra_simps)
qed

lemma page_range_0 [simp]: "page_range p 0 = []"
  by (simp add: page_range_def)

lemma length_page_range [simp]: "length (page_range p n) = n"
  by (simp add: page_range_def)

lemma aligned_next: "aligned 4096 p \<Longrightarrow> unat p < 0x88000000 \<Longrightarrow> aligned 4096 (p + 4096)"
  by (simp add: aligned_def next_page_less)

lemma create_freepage_loop_spec:
  assumes "free_pages s xs" and "\<forall>x \<in> set xs. x < p" and "aligned 4096 p" and "p \<noteq> 0"
    and "free_mem_start_addr s \<le> p" and "free_mem_end_addr s = e" and "unat e \<le> 0x88000000"
    and "unat p \<le> 0x88001000" and "n = (unat e - unat p - 1) div 4096"
  shows "runs_to (create_freepage_loop p e) s (\<lambda>_ t. free_pages t (rev (page_range p n) @ xs) \<and>
    free_mem_start_addr t = free_mem_start_addr s \<and> free_mem_end_addr t = e \<and> kenv t = kenv s)"
  using assms
proof (induction n arbitrary: s xs p)
  case 0
  then have "\<not> p + 4096 < e"
    by (auto simp: word_less_nat_alt unat_word_ariths)
  with 0 show ?case
    by (simp add: runs_to_iff create_freepage_loop.simps [of p e s])
next
  case (Suc n)
  then have lt: "unat p + 4096 < unat e" by linarith
  then have less: "p + 4096 < e" and np: "unat (p + 4096) = unat p + 4096"
    using Suc.prems(7) by (auto simp: word_less_nat_alt next_page_less)
  let ?t = "bump_mem_count (- 1) (s\<lparr>mem := (mem s)(p := g_free_mem_list s), g_free_mem_list := p\<rparr>)"
  have ok: "page_ok s p"
    using Suc.prems lt by (simp add: page_ok_def)
  have "free_pages ?t (p # xs)"
    using Suc.prems(1,2) ok by (intro free_pages_free) auto
  moreover have "\<forall>x \<in> set (p # xs). x < p + 4096"
    using Suc.prems(2) np by (auto simp: word_less_nat_alt)
  moreover have "p + 4096 \<noteq> 0" and "free_mem_start_addr ?t \<le> p + 4096"
    using np Suc.prems(5) by (auto simp: word_le_nat_alt)
  moreover have "aligned 4096 (p + 4096)"
    using Suc.prems(3,7) lt by (simp add: aligned_next)
  moreover have "n = (unat e - unat (p + 4096) - 1) div 4096"
    using Suc.prems(9) lt np by linarith
  ultimately have "runs_to (create_freepage_loop (p + 4096) e) ?t
      (\<lambda>_ t. free_pages t (rev (page_range (p + 4096) n) @ p # xs) \<and>
         free_mem_start_addr t = free_mem_start_addr s \<and> free_mem_end_addr t = e \<and> kenv t = kenv s)"
    using Suc.IH [of ?t "p # xs" "p + 4096"] Suc.prems(6,7) lt np by simp
  then show ?case
    using less ok
    by (simp add: runs_to_iff create_freepage_loop.simps [of p e s] kthen_eq free_page_eq
        page_range_Suc)
qed

text \<open>
  \<open>usable_pages k m\<close> is the number of pages \<^verbatim>\<open>pmm_init\<close> hands out when the kernel ends at
  \<open>k\<close> and the machine has \<open>m\<close> bytes: the loop's test \<^verbatim>\<open>p + PGSIZE < end\<close> leaves the
  last page of memory out.
\<close>

definition usable_pages :: "u64 \<Rightarrow> u64 \<Rightarrow> nat" where
  "usable_pages k m = (unat (MIN_u64 PKE_MAX_ALLOWABLE_RAM m + DRAM_BASE) - unat (ROUNDUP k PGSIZE) - 1) div 4096"

lemma pmm_init_builds:
  assumes k: "KERN_BASE < sym_end (kenv s)" "sym_end (kenv s) < PHYS_TOP"
    and m: "sym_end (kenv s) - KERN_BASE \<le> MIN_u64 PKE_MAX_ALLOWABLE_RAM (g_mem_size s)"
  shows "runs_to pmm_init s (\<lambda>_ t. kenv t = kenv s \<and>
    free_mem_start_addr t = ROUNDUP (sym_end (kenv s)) PGSIZE \<and>
    free_mem_end_addr t = MIN_u64 PKE_MAX_ALLOWABLE_RAM (g_mem_size s) + DRAM_BASE \<and>
    free_pages t (rev (page_range (ROUNDUP (sym_end (kenv s)) PGSIZE)
      (usable_pages (sym_end (kenv s)) (g_mem_size s)))))"
proof -
  let ?k = "sym_end (kenv s)" and ?size = "MIN_u64 PKE_MAX_ALLOWABLE_RAM (g_mem_size s)"
  let ?p = "ROUNDUP ?k PGSIZE" and ?e = "?size + DRAM_BASE"
  let ?u = "s\<lparr>free_mem_start_addr := ?p, g_mem_size := ?size, free_mem_end_addr := ?e,
    g_free_mem_list := 0\<rparr>"
  have "unat ?size \<le> 0x8000000"
    by (auto simp: MIN_u64_def word_less_nat_alt)
  then have e: "unat ?e \<le> 0x88000000"
    by (simp add: unat_word_ariths)
  have ku: "0x80000000 < unat ?k" "unat ?k < 0x88000000"
    using k by (simp_all add: word_less_nat_alt)
  then have p: "unat ?p = ((unat ?k - 1) div 4096 + 1) * 4096"
    by (simp add: unat_ROUNDUP)
  have round: "ROUNDUP ?p PGSIZE = ?p"
    using ku p unat_ROUNDUP [of ?p] by (simp add: word_unat_eq_iff)
  have "runs_to (create_freepage_loop ?p ?e) ?u (\<lambda>_ t.
      free_pages t (rev (page_range ?p (usable_pages ?k (g_mem_size s))) @ []) \<and>
      free_mem_start_addr t = free_mem_start_addr ?u \<and> free_mem_end_addr t = ?e \<and> kenv t = kenv ?u)"
  proof (rule create_freepage_loop_spec)
    show "free_pages ?u []" by (simp add: free_pages_def)
    show "aligned 4096 ?p" by (simp only: aligned_def p) simp
    show "?p \<noteq> 0" using p by (auto simp: word_unat_eq_iff)
    show "unat ?p \<le> 0x88001000"
      using ku div_times_less_eq_dividend [of "unat ?k - 1" 4096]
      unfolding p add_mult_distrib by linarith
    show "unat ?e \<le> 0x88000000" by (rule e)
    show "usable_pages ?k (g_mem_size s) = (unat ?e - unat ?p - 1) div 4096"
      by (simp add: usable_pages_def)
  qed simp_all
  then show ?thesis
    using m round
    by (auto simp: runs_to_iff pmm_init_def create_freepage_list_def kdefs Let_def not_less)
qed

section \<open>Properties\<close>

text \<open>
  The pages \<^verbatim>\<open>pmm_init\<close> hands out: of the page-aligned addresses of managed memory, all but
  the page that ends where managed memory ends.
\<close>

lemma unat_page_range:
  assumes "unat p + 4096 * n \<le> 0x88001000" and "k < n"
  shows "unat (p + of_nat (4096 * k) :: u64) = unat p + 4096 * k"
proof -
  have "unat (of_nat (4096 * k) :: u64) = 4096 * k"
    using assms by (simp add: unat_of_nat del: of_nat_mult)
  with assms show ?thesis by (simp add: unat_word_ariths del: of_nat_mult)
qed

lemma page_range_iff:
  assumes p: "aligned 4096 p" and n: "n = (e - unat p - 1) div 4096" and e: "e \<le> 0x88000000"
    and q: "unat p \<le> 0x88000000"
  shows "x \<in> set (page_range p n) \<longleftrightarrow> aligned 4096 x \<and> p \<le> x \<and> unat x + 4096 < e"
proof
  have nle: "4096 * n \<le> e - unat p - 1" unfolding n by simp
  then have b: "unat p + 4096 * n \<le> 0x88001000" using e q by linarith
  { assume "x \<in> set (page_range p n)"
    then obtain k where k: "k < n" "x = p + of_nat (4096 * k)" by (auto simp: page_range_def)
    then have u: "unat x = unat p + 4096 * k" using unat_page_range [OF b k(1)] by simp
    moreover have "4096 * Suc k \<le> 4096 * n" using k(1) by (intro mult_le_mono2) simp
    ultimately have "unat x + 4096 < e" using nle k(1) by linarith
    with u p show "aligned 4096 x \<and> p \<le> x \<and> unat x + 4096 < e"
      by (simp add: aligned_def word_le_nat_alt) }
  assume x: "aligned 4096 x \<and> p \<le> x \<and> unat x + 4096 < e"
  from p x obtain a c where ac: "unat p = 4096 * a" "unat x = 4096 * c" by (auto simp: aligned_def dvd_def mod_eq_0_iff_dvd)
  define k where "k = c - a"
  have le: "unat p \<le> unat x" using x by (simp add: word_le_nat_alt)
  then have ux: "unat x = unat p + 4096 * k" unfolding k_def ac by simp
  from x have "unat x + 4096 < e" by blast
  then have "Suc k * 4096 \<le> e - unat p - 1" unfolding ux by simp
  then have kn: "k < n" unfolding n using less_eq_div_iff_mult_less_eq [of 4096 "Suc k"] by simp
  then have "x = p + of_nat (4096 * k)"
    using unat_page_range [OF b kn] ux by (simp add: word_unat_eq_iff del: of_nat_mult)
  with kn show "x \<in> set (page_range p n)" by (auto simp: page_range_def)
qed

text \<open>
  C13: booted on a kernel image that lies inside managed memory, \<^verbatim>\<open>pmm_init\<close> returns, and
  the free list it leaves in memory holds the pages from the end of the kernel image
  upwards, the highest first, each once. These are all the pages of the managed range
  but its last: the page that ends exactly where the range ends, which \<^verbatim>\<open>free_page\<close> would
  accept, is left out by the test \<^verbatim>\<open>p + PGSIZE < end\<close>. The range ends at \<open>DRAM_BASE\<close> plus the
  smaller of the machine's memory and 128 MB.
\<close>

theorem pmm_init_free_list:
  assumes "KERN_BASE < sym_end (kenv s)" and "sym_end (kenv s) < PHYS_TOP"
    and "sym_end (kenv s) - KERN_BASE \<le> MIN_u64 PKE_MAX_ALLOWABLE_RAM (g_mem_size s)"
  shows "\<exists>t xs. pmm_init s = Inr ((), t) \<and>
    free_mem_start_addr t = ROUNDUP (sym_end (kenv s)) PGSIZE \<and>
    free_mem_end_addr t = MIN_u64 PKE_MAX_ALLOWABLE_RAM (g_mem_size s) + DRAM_BASE \<and>
    free_pages t xs \<and> distinct xs \<and> xs = rev (page_range (ROUNDUP (sym_end (kenv s)) PGSIZE)
      (usable_pages (sym_end (kenv s)) (g_mem_size s))) \<and>
    set xs = {p. page_ok t p \<and> p + PGSIZE \<noteq> free_mem_end_addr t}"
proof -
  let ?k = "sym_end (kenv s)" and ?e = "MIN_u64 PKE_MAX_ALLOWABLE_RAM (g_mem_size s) + DRAM_BASE"
  let ?p = "ROUNDUP ?k PGSIZE" and ?n = "usable_pages (sym_end (kenv s)) (g_mem_size s)"
  obtain t where t: "pmm_init s = Inr ((), t)" "free_mem_start_addr t = ?p" "free_mem_end_addr t = ?e"
      "free_pages t (rev (page_range ?p ?n))"
    using pmm_init_builds [OF assms] by (auto simp: runs_to_iff)
  have "unat (MIN_u64 PKE_MAX_ALLOWABLE_RAM (g_mem_size s)) \<le> 0x8000000"
    by (auto simp: MIN_u64_def word_less_nat_alt)
  then have e: "unat ?e \<le> 0x88000000" by (simp add: unat_word_ariths)
  have "0x80000000 < unat ?k" "unat ?k < 0x88000000" using assms(1,2) by (simp_all add: word_less_nat_alt)
  then have p: "aligned 4096 ?p" "0 < unat ?p" "unat ?p \<le> 0x88000000"
    using unat_ROUNDUP [of ?k] div_le_mono [of "unat ?k - 1" "0x87ffffff" 4096] by (simp_all add: aligned_def)
  have "x \<in> set (page_range ?p ?n) \<longleftrightarrow> page_ok t x \<and> x + PGSIZE \<noteq> free_mem_end_addr t" for x
  proof -
    have "unat (x + PGSIZE) = unat x + 4096" if "unat x + 4096 \<le> unat ?e"
      using that e by (simp add: unat_word_ariths)
    then have "page_ok t x \<and> x + PGSIZE \<noteq> ?e \<longleftrightarrow> aligned 4096 x \<and> ?p \<le> x \<and> unat x + 4096 < unat ?e"
      using e p(2) unfolding page_ok_def t(2,3) word_unat_eq_iff word_le_nat_alt by auto
    then show ?thesis
      unfolding t(3) using page_range_iff [OF p(1) _ e p(3), of ?n x] by (simp add: usable_pages_def)
  qed
  then have "set (rev (page_range ?p ?n)) = {p. page_ok t p \<and> p + PGSIZE \<noteq> free_mem_end_addr t}"
    by (simp only: set_rev) blast
  with t free_pages_distinct [OF t(4)] show ?thesis by blast
qed

theorem pmm_init_free_list_witness:
  "\<exists>t. pmm_init (initial_kstate sample_env 0x20000 (\<lambda>_. 0)) = Inr ((), t) \<and>
    free_pages t [0x8001e000, 0x8001d000, 0x8001c000] \<and>
    set [0x8001e000, 0x8001d000, 0x8001c000] = {p. page_ok t p \<and> p + PGSIZE \<noteq> 0x80020000}"
proof -
  let ?s = "initial_kstate sample_env 0x20000 (\<lambda>_. 0)"
  have r: "ROUNDUP 0x8001c000 PGSIZE = 0x8001c000"
    by (simp add: ROUNDUP_def)
  then have n: "usable_pages 0x8001c000 0x20000 = 3"
    by (simp add: usable_pages_def MIN_u64_def)
  have s: "sym_end (kenv ?s) = 0x8001c000" "g_mem_size ?s = 0x20000"
    by (simp_all add: initial_kstate_def sample_env_def)
  have m: "MIN_u64 PKE_MAX_ALLOWABLE_RAM 0x20000 = 0x20000" by (simp add: MIN_u64_def)
  have l: "rev (page_range 0x8001c000 3) = [0x8001e000, 0x8001d000, 0x8001c000]"
    by (simp add: page_range_def upt_rec)
  obtain t where "pmm_init ?s = Inr ((), t)" "free_mem_end_addr t = 0x20000 + DRAM_BASE"
      "free_pages t (rev (page_range 0x8001c000 3))"
      "set (rev (page_range 0x8001c000 3)) = {p. page_ok t p \<and> p + PGSIZE \<noteq> free_mem_end_addr t}"
    using pmm_init_free_list [of ?s] unfolding s r n m by auto
  then show ?thesis unfolding l by (intro exI [of _ t]) simp
qed

text \<open>
  C34: a page that is allocated and freed again goes back to where it was: the free list
  is the same, the accounting of the current process is the same, and no memory outside
  that page has changed.
\<close>

theorem alloc_then_free_restores:
  assumes "free_pages s (x # xs)"
  shows "\<exists>t. kbind alloc_page free_page s = Inr ((), t) \<and> free_pages t (x # xs) \<and>
    procs t = procs s \<and> (\<forall>a. a \<noteq> x \<longrightarrow> mem t a = mem s a)"
proof -
  let ?u = "bump_mem_count 1 (s\<lparr>g_free_mem_list := mem s x\<rparr>)"
  obtain t where t: "kbind alloc_page free_page s = Inr ((), t)" "free_pages t (x # xs)"
      "\<forall>a. a \<noteq> x \<longrightarrow> mem t a = mem s a"
    using pmm.alloc_release [OF assms] by (auto simp: runs_to_iff)
  have "page_ok ?u x"
    using assms by (simp add: free_pages_def page_ok_def)
  with t(1) assms have "t = bump_mem_count (- 1)
      (?u\<lparr>mem := (mem ?u)(x := g_free_mem_list ?u), g_free_mem_list := x\<rparr>)"
    by (simp add: kbind_eq alloc_page_Cons free_page_eq)
  then have "procs t = procs s"
    using bump_mem_count_undo [of "?u\<lparr>mem := _, g_free_mem_list := x\<rparr>"
        "s\<lparr>g_free_mem_list := mem s x\<rparr>"] by simp
  with t show ?thesis by blast
qed

theorem alloc_then_free_restores_witness:
  "\<exists>s t. pmm_init (initial_kstate sample_env 0x20000 (\<lambda>_. 0)) = Inr ((), s) \<and>
    kbind alloc_page free_page s = Inr ((), t) \<and> free_pages t [0x8001e000, 0x8001d000, 0x8001c000]"
proof -
  have r: "ROUNDUP 0x8001c000 PGSIZE = 0x8001c000" by (simp add: ROUNDUP_def)
  then have n: "usable_pages 0x8001c000 0x20000 = 3" by (simp add: usable_pages_def MIN_u64_def)
  obtain s where s: "pmm_init (initial_kstate sample_env 0x20000 (\<lambda>_. 0)) = Inr ((), s)"
      "free_pages s [0x8001e000, 0x8001d000, 0x8001c000]"
    using pmm_init_builds [of "initial_kstate sample_env 0x20000 (\<lambda>_. 0)"] r n
    by (auto simp: runs_to_iff initial_kstate_def sample_env_def MIN_u64_def page_range_def upt_rec)
  with alloc_then_free_restores [OF s(2)] show ?thesis by blast
qed

end
