(* ===== verification/PKE_Sched.thy ===== *)
theory PKE_Sched
  imports PKE_Pmm
begin

text \<open>
  The scheduler, \<^verbatim>\<open>kernel/sched.c\<close>, and the switch to user mode it ends in
  (\<^verbatim>\<open>switch_to\<close> of \<^verbatim>\<open>kernel/process.c\<close> and \<^verbatim>\<open>return_to_user\<close> of
  \<^verbatim>\<open>kernel/strap_vector.S\<close>). The ready queue is threaded through the \<open>queue_next\<close>
  fields of \<open>procs\<close>; \<open>ready_queue s q\<close> says that it holds \<open>q\<close>. The locale
  \<open>fifo_scheduler\<close> states the contract of the queue, and from the contract alone follows
  that yielding processes run round robin.
\<close>

section \<open>Switching to user mode\<close>

text \<open>Byte offsets of the trapframe's fields.\<close>

definition TF_SP :: u64 where [simp]: "TF_SP = 8"
definition TF_A0 :: u64 where [simp]: "TF_A0 = 72"
definition TF_A1 :: u64 where [simp]: "TF_A1 = 80"
definition TF_KERNEL_SP :: u64 where [simp]: "TF_KERNEL_SP = 248"
definition TF_KERNEL_TRAP :: u64 where [simp]: "TF_KERNEL_TRAP = 256"
definition TF_EPC :: u64 where [simp]: "TF_EPC = 264"
definition TF_KERNEL_SATP :: u64 where [simp]: "TF_KERNEL_SATP = 272"

definition SSTATUS_SPP :: u64 where "SSTATUS_SPP = push_bit 8 1"
definition SSTATUS_SPIE :: u64 where "SSTATUS_SPIE = push_bit 5 1"

text \<open>
  The register file of the user program is the list of the 31 registers in the order of
  \<^verbatim>\<open>struct riscv_regs\<close>. \<^verbatim>\<open>return_to_user\<close> loads it from the trapframe, and the program goes
  on with what was loaded.
\<close>

type_synonym regs = "u64 list"

definition TF_REG :: "nat \<Rightarrow> u64" where "TF_REG k = 8 * of_nat k"

fun load_words :: "u64 list \<Rightarrow> u64 list K" where
  "load_words [] = kret []"
| "load_words (a # as) = kbind (load64 a) (\<lambda>v. kbind (load_words as) (\<lambda>vs. kret (v # vs)))"

definition restore_all_registers :: "u64 \<Rightarrow> regs K" where
  "restore_all_registers t6 = load_words (map (\<lambda>k. t6 + TF_REG k) [0..<31])"

definition return_to_user :: "u64 \<Rightarrow> u64 \<Rightarrow> 'a K" where
  "return_to_user tf user_satp =
     kthen (kmod (\<lambda>s. s\<lparr>csr := (csr s)\<lparr>satp := user_satp, sscratch := tf\<rparr>\<rparr>))
    (kbind (restore_all_registers tf) (\<lambda>rs.
     kthen (kmod (\<lambda>s. s\<lparr>uregs := rs\<rparr>))
       (\<lambda>s. Inl (To_user s))))"

definition switch_to :: "nat option \<Rightarrow> 'a K" where
  "switch_to proc = (case proc of
     None \<Rightarrow> kexits (Assert_fail ''proc'')
   | Some i \<Rightarrow>
       kthen (kmod (\<lambda>s. s\<lparr>current := proc\<rparr>))
      (kthen (kmod (\<lambda>s. s\<lparr>csr := (csr s)\<lparr>stvec := sym_smode_trap_vector (kenv s)\<rparr>\<rparr>))
      (kbind (kget (\<lambda>s. procs s ! i)) (\<lambda>p.
       kthen (store64 (trapframe p + TF_KERNEL_SP) (kstack p))
      (kbind (kget (\<lambda>s. satp (csr s))) (\<lambda>ksatp.
       kthen (store64 (trapframe p + TF_KERNEL_SATP) ksatp)
      (kbind (kget (\<lambda>s. sym_smode_trap_handler (kenv s))) (\<lambda>handler.
       kthen (store64 (trapframe p + TF_KERNEL_TRAP) handler)
      (kthen (kmod (\<lambda>s. s\<lparr>csr := (csr s)\<lparr>sstatus :=
          (sstatus (csr s) AND NOT SSTATUS_SPP) OR SSTATUS_SPIE\<rparr>\<rparr>))
      (kbind (load64 (trapframe p + TF_EPC)) (\<lambda>epc.
       kthen (kmod (\<lambda>s. s\<lparr>csr := (csr s)\<lparr>sepc := epc\<rparr>\<rparr>))
         (return_to_user (trapframe p) (MAKE_SATP (pagetable p))))))))))))))"

section \<open>The ready queue\<close>

text \<open>
  \<open>queue_scan ps proc p\<close> is the loop of \<^verbatim>\<open>insert_to_ready_queue\<close>, started at \<open>p\<close>: the
  last element of the queue, or \<open>None\<close> where the loop meets \<open>proc\<close>. On a cyclic queue
  the loop has no result.
\<close>

partial_function (option) queue_scan ::
  "process list \<Rightarrow> nat \<Rightarrow> nat \<Rightarrow> nat option option" where
  "queue_scan ps proc p = (case queue_next (ps ! p) of
      Some q \<Rightarrow> if p = proc then Some None else queue_scan ps proc q
    | None \<Rightarrow> if p = proc then Some None else Some (Some p))"

definition upd_proc :: "nat \<Rightarrow> (process \<Rightarrow> process) \<Rightarrow> kstate \<Rightarrow> kstate" where
  "upd_proc i f s = s\<lparr>procs := (procs s)[i := f (procs s ! i)]\<rparr>"

definition insert_to_ready_queue :: "nat \<Rightarrow> unit K" where
  "insert_to_ready_queue proc =
     kbind (kget ready_queue_head) (\<lambda>head. case head of
       None \<Rightarrow>
         kthen (kmod (upd_proc proc (\<lambda>p. p\<lparr>status := READY, queue_next := None\<rparr>)))
           (kmod (\<lambda>s. s\<lparr>ready_queue_head := Some proc\<rparr>))
     | Some h \<Rightarrow>
         kbind (kget (\<lambda>s. queue_scan (procs s) proc h)) (\<lambda>r. case r of
           None \<Rightarrow> kexits Spins
         | Some None \<Rightarrow> kret ()
         | Some (Some p) \<Rightarrow>
             kthen (kmod (upd_proc p (\<lambda>x. x\<lparr>queue_next := Some proc\<rparr>)))
               (kmod (upd_proc proc (\<lambda>x. x\<lparr>status := READY, queue_next := None\<rparr>)))))"

text \<open>
  \<^verbatim>\<open>schedule\<close> means to mark the process it picks as running, but the statement
  \<^verbatim>\<open>current->status == RUNNING;\<close> compares instead of assigning: there is nothing to
  translate.
\<close>

definition schedule :: "'a K" where
  "schedule =
     kbind (kget ready_queue_head) (\<lambda>head. case head of
       None \<Rightarrow>
         kbind (kget (\<lambda>s. \<forall>i < NPROC. status (procs s ! i) = FREE \<or> status (procs s ! i) = ZOMBIE))
           (\<lambda>should_shutdown.
             if should_shutdown then kexits (Shutdown 0)
             else kexits (Panic ''Not handled: we should let system wait for unfinished processes.''))
     | Some i \<Rightarrow>
         kthen (kmod (\<lambda>s. s\<lparr>current := Some i\<rparr>))
        (kbind (kget (\<lambda>s. status (procs s ! i))) (\<lambda>st.
         kthen (kguard (st = READY) (Assert_fail ''current->status == READY''))
        (kthen (kmod (\<lambda>s. s\<lparr>ready_queue_head := queue_next (procs s ! i)\<rparr>))
           (switch_to (Some i))))))"

definition ready_queue :: "kstate \<Rightarrow> nat list \<Rightarrow> bool" where
  "ready_queue s q \<longleftrightarrow> chain (\<lambda>i. queue_next (procs s ! i)) (ready_queue_head s) q \<and>
     (\<forall>i \<in> set q. i < length (procs s))"

lemma ready_queue_distinct: "ready_queue s q \<Longrightarrow> distinct q"
  by (auto simp: ready_queue_def intro: chain_distinct)

lemma queue_scan_chain:
  assumes "chain (\<lambda>i. queue_next (ps ! i)) (Some h) (h # q)"
  shows "queue_scan ps proc h = Some (if proc \<in> set (h # q) then None else Some (last (h # q)))"
  using assms
proof (induction q arbitrary: h)
  case Nil
  then show ?case by (simp add: queue_scan.simps [of ps proc h])
next
  case (Cons x q)
  then have "queue_next (ps ! h) = Some x" and "h \<noteq> x"
    using chain_notin [of "\<lambda>i. queue_next (ps ! i)" h "x # q"] by auto
  with Cons show ?case
    by (simp add: queue_scan.simps [of ps proc h])
qed

lemma insert_queued:
  assumes "ready_queue s q" and "i \<in> set q"
  shows "insert_to_ready_queue i s = Inr ((), s)"
proof (cases q)
  case (Cons h q')
  with assms have "queue_scan (procs s) i h = Some None" and "ready_queue_head s = Some h"
    using queue_scan_chain [of "procs s" h q' i] by (auto simp: ready_queue_def)
  then show ?thesis by (simp add: insert_to_ready_queue_def kdefs)
qed (use assms in simp)

lemma insert_new:
  assumes "ready_queue s q" and "i \<notin> set q" and "i < length (procs s)"
  shows "\<exists>t. insert_to_ready_queue i s = Inr ((), t) \<and> ready_queue t (q @ [i]) \<and>
    length (procs t) = length (procs s) \<and> current t = current s \<and> mem t = mem s \<and>
    (\<forall>j. status (procs t ! j) = (if j = i then READY else status (procs s ! j))) \<and>
    (\<forall>j. (procs t ! j)\<lparr>status := READY, queue_next := None\<rparr> =
         (procs s ! j)\<lparr>status := READY, queue_next := None\<rparr>) \<and>
    t\<lparr>procs := procs s, ready_queue_head := ready_queue_head s\<rparr> = s"
proof (cases q rule: rev_cases)
  case Nil
  with assms show ?thesis
    by (auto simp: insert_to_ready_queue_def kdefs ready_queue_def upd_proc_def nth_list_update)
next
  case (snoc q' l)
  then have "q \<noteq> []" by simp
  then obtain h q'' where hq: "q = h # q''" by (auto simp: neq_Nil_conv)
  with snoc have l: "last (h # q'') = l" by (metis last_snoc)
  from assms hq have "chain (\<lambda>i. queue_next (procs s ! i)) (Some h) (h # q'')"
      and "ready_queue_head s = Some h"
    by (auto simp: ready_queue_def)
  with assms(2) hq l have "queue_scan (procs s) i h = Some (Some l)" "ready_queue_head s = Some h"
    using queue_scan_chain [of "procs s" h q'' i] by (auto simp del: chain.simps last.simps)
  moreover have "i \<noteq> l" and l: "l < length (procs s)" "l \<notin> set q'"
    using assms snoc ready_queue_distinct [OF assms(1)] by (auto simp: ready_queue_def)
  moreover have "chain (\<lambda>j. queue_next ((procs s)[l := (procs s ! l)\<lparr>queue_next := Some i\<rparr>,
      i := (procs s ! i)\<lparr>status := READY, queue_next := None\<rparr>] ! j)) (ready_queue_head s) (q' @ [l, i])"
    using assms snoc calculation
    by (intro chain_snoc [where nxt = "\<lambda>j. queue_next (procs s ! j)"])
       (auto simp: ready_queue_def nth_list_update)
  ultimately show ?thesis
    using assms snoc
    by (auto simp: insert_to_ready_queue_def kdefs ready_queue_def upd_proc_def nth_list_update)
qed

lemma load_words_eq:
  "\<forall>a \<in> set as. aligned 8 a \<and> mem_ok s a \<Longrightarrow> load_words as s = Inr (map (mem s) as, s)"
  by (induction as) (simp_all add: kdefs mem_eqs)

lemma load_words_wp:
  "(\<And>a. E (Wild a)) \<Longrightarrow> (\<And>a. E (In_image a)) \<Longrightarrow> (\<And>a. E (Misaligned a)) \<Longrightarrow> wp (load_words as) (\<lambda>_ t. t = s) E s"
  by (induction as) (auto simp: wp_eqs wp_def kdefs mem_eqs split: sum.splits intro: bad_access_cases [of E])

lemma return_to_user_wp:
  assumes "\<And>rs. E (To_user (s\<lparr>csr := (csr s)\<lparr>satp := user_satp, sscratch := tf\<rparr>, uregs := rs\<rparr>))"
    and "\<And>a. E (Wild a)" and "\<And>a. E (In_image a)" and "\<And>a. E (Misaligned a)"
  shows "wp (return_to_user tf user_satp) Q E s"
  unfolding return_to_user_def restore_all_registers_def wp_kthen wp_kbind wp_kmod
  by (rule wp_weaken [OF load_words_wp]) (auto simp: wp_def kdefs assms)

lemma wp_load64:
  "Q (mem s a) s \<Longrightarrow> (\<And>a. E (Wild a)) \<Longrightarrow> (\<And>a. E (In_image a)) \<Longrightarrow> (\<And>a. E (Misaligned a)) \<Longrightarrow> wp (load64 a) Q E s"
  by (simp add: wp_def mem_eqs bad_access_cases [of E])

lemma wp_store64:
  "Q () (s\<lparr>mem := (mem s)(a := v)\<rparr>) \<Longrightarrow> (\<And>a. E (Wild a)) \<Longrightarrow> (\<And>a. E (In_image a)) \<Longrightarrow> (\<And>a. E (Misaligned a)) \<Longrightarrow>
    wp (store64 a v) Q E s"
  by (simp add: wp_def mem_eqs bad_access_cases [of E])

lemma unat_TF_REG: "k < 31 \<Longrightarrow> unat (TF_REG k) = 8 * k"
  by (simp add: TF_REG_def unat_word_ariths unat_of_nat)

lemma TF_REG_neq: "k < 31 \<Longrightarrow> 248 \<le> unat w \<Longrightarrow> TF_REG k \<noteq> w"
  using unat_TF_REG [of k] by auto

lemma TF_REG_eq_iff: "j < 31 \<Longrightarrow> k < 31 \<Longrightarrow> TF_REG j = TF_REG k \<longleftrightarrow> j = k"
  by (metis unat_TF_REG nat_mult_eq_cancel1 zero_less_numeral)

lemma restore_eq:
  assumes "page_ok s tf"
  shows "restore_all_registers tf s = Inr (map (\<lambda>k. mem s (tf + TF_REG k)) [0..<31], s)"
proof -
  have "aligned 8 (tf + TF_REG k) \<and> mem_ok s (tf + TF_REG k)" if "k < 31" for k
    using assms that by (auto intro!: page_off_mem_ok page_off_aligned simp: unat_TF_REG)
  then show ?thesis
    unfolding restore_all_registers_def by (subst load_words_eq) (auto simp del: upt_rec_numeral simp: comp_def)
qed

lemma switch_to_eq:
  assumes "page_ok s (trapframe (procs s ! i))"
  shows "switch_to (Some i) s = Inl (To_user (s\<lparr>
     current := Some i,
     mem := (mem s)(trapframe (procs s ! i) + 248 := kstack (procs s ! i),
       trapframe (procs s ! i) + 272 := satp (csr s),
       trapframe (procs s ! i) + 256 := sym_smode_trap_handler (kenv s)),
     csr := (csr s)\<lparr>stvec := sym_smode_trap_vector (kenv s),
       sstatus := (sstatus (csr s) AND NOT SSTATUS_SPP) OR SSTATUS_SPIE,
       sepc := mem s (trapframe (procs s ! i) + 264),
       satp := MAKE_SATP (pagetable (procs s ! i)),
       sscratch := trapframe (procs s ! i)\<rparr>,
     uregs := map (\<lambda>k. mem s (trapframe (procs s ! i) + TF_REG k)) [0..<31]\<rparr>))"
proof -
  let ?tf = "trapframe (procs s ! i)"
  have ok: "mem_ok s (?tf + k)" "aligned 8 (?tf + k)" if "unat k < 4096" "unat k mod 8 = 0" for k
    using assms that by (auto intro: page_off_mem_ok page_off_aligned)
  have "map (\<lambda>k. ((mem s)(?tf + 248 := a, ?tf + 272 := b, ?tf + 256 := c)) (?tf + TF_REG k)) [0..<31] =
      map (\<lambda>k. mem s (?tf + TF_REG k)) [0..<31]" for a b c
    by (rule map_cong [OF refl]) (simp add: TF_REG_neq)
  then show ?thesis
    using assms by (simp add: switch_to_def return_to_user_def kdefs mem_eqs ok restore_eq del: upt_rec_numeral)
qed

lemma schedule_Cons:
  assumes "ready_queue s (i # q)" and "status (procs s ! i) = READY"
    and "page_ok s (trapframe (procs s ! i))"
  shows "\<exists>t. schedule s = Inl (To_user t) \<and> ready_queue t q \<and> current t = Some i \<and>
    procs t = procs s \<and> page_ok t = page_ok s"
proof -
  have "page_ok (s\<lparr>current := Some i, ready_queue_head := queue_next (procs s ! i)\<rparr>)
      (trapframe (procs (s\<lparr>current := Some i, ready_queue_head := queue_next (procs s ! i)\<rparr>) ! i))"
    using assms by simp
  note sw = switch_to_eq [OF this]
  have "ready_queue_head s = Some i"
    using assms(1) by (simp add: ready_queue_def)
  then show ?thesis
    using assms(1,2) by (simp add: schedule_def kdefs sw ready_queue_def)
qed

section \<open>The contract of the queue\<close>

text \<open>
  A dispatcher that serves first come first served: entering adds at the end, unless
  the process is queued already; dispatching takes the first one and leaves the kernel
  with it running. \<open>rounds n\<close> is \<open>n\<close> turns in which the running process gives up the
  processor and the next one runs.
\<close>

definition user_turn :: "('s, 'a) km \<Rightarrow> 's \<Rightarrow> 's option" where
  "user_turn m s = (case m s of Inl (To_user t) \<Rightarrow> Some t | _ \<Rightarrow> None)"

fun rounds :: "('s, 'a) km \<Rightarrow> nat \<Rightarrow> 's \<Rightarrow> 's option" where
  "rounds m 0 s = Some s"
| "rounds m (Suc n) s = (case user_turn m s of None \<Rightarrow> None | Some t \<Rightarrow> rounds m n t)"

locale fifo_scheduler =
  fixes enter :: "'p \<Rightarrow> ('s, unit) km"
    and dispatch :: "('s, 'a) km"
    and queue :: "'s \<Rightarrow> 'p list \<Rightarrow> bool"
    and running :: "'s \<Rightarrow> 'p option"
    and runnable :: "'s \<Rightarrow> 'p \<Rightarrow> bool"
  assumes enter_new: "queue s q \<Longrightarrow> p \<notin> set q \<Longrightarrow> runnable s p \<Longrightarrow>
      runs_to (enter p) s (\<lambda>_ t. queue t (q @ [p]) \<and> running t = running s \<and> runnable t = runnable s)"
    and enter_again: "queue s q \<Longrightarrow> p \<in> set q \<Longrightarrow> runs_to (enter p) s (\<lambda>_ t. t = s)"
    and dispatch_first: "queue s (p # q) \<Longrightarrow> runnable s p \<Longrightarrow>
      \<exists>t. dispatch s = Inl (To_user t) \<and> queue t q \<and> running t = Some p \<and> runnable t = runnable s"
    and queue_distinct: "queue s q \<Longrightarrow> distinct q"
begin

lemma yield_rotates:
  assumes "queue s q" and "running s = Some c" and "c \<notin> set q" and "\<forall>p \<in> set (c # q). runnable s p"
  shows "\<exists>t p q'. kthen (enter c) dispatch s = Inl (To_user t) \<and> queue t q' \<and> running t = Some p \<and>
    p # q' = rotate1 (c # q) \<and> runnable t = runnable s"
proof -
  obtain u where u: "enter c s = Inr ((), u)" "queue u (q @ [c])" "runnable u = runnable s"
    using enter_new [OF assms(1,3)] assms(4) by (auto simp: runs_to_iff)
  obtain p q' where pq: "q @ [c] = p # q'"
    by (cases "q @ [c]") auto
  then have "p \<in> set (c # q)" by (metis list.set_intros(1) rotate1.simps(2) set_rotate1)
  with u assms(4) obtain t where "dispatch u = Inl (To_user t)" "queue t q'" "running t = Some p"
      "runnable t = runnable u"
    using dispatch_first [of u p q'] pq by auto
  with u pq show ?thesis by (auto simp: kthen_eq)
qed

lemma round_robin:
  assumes "queue s q" and "running s = Some c" and "c \<notin> set q" and "\<forall>p \<in> set (c # q). runnable s p"
    and step: "\<And>s c. running s = Some c \<Longrightarrow> m s = kthen (enter c) dispatch s"
  shows "\<exists>t p q'. rounds m n s = Some t \<and> queue t q' \<and> running t = Some p \<and>
    p # q' = rotate n (c # q)"
  using assms(1-4)
proof (induction n arbitrary: s c q)
  case 0
  then show ?case by auto
next
  case (Suc n)
  obtain u p q' where u: "kthen (enter c) dispatch s = Inl (To_user u)" "queue u q'"
      "running u = Some p" "p # q' = rotate1 (c # q)" "runnable u = runnable s"
    using yield_rotates [OF Suc.prems] by blast
  have "p \<notin> set q'"
    using u(4) queue_distinct [OF Suc.prems(1)] Suc.prems(3)
    by (metis distinct.simps(2) distinct1_rotate)
  moreover have "\<forall>x \<in> set (p # q'). runnable u x"
    using u(4,5) Suc.prems(4) by (simp only: set_rotate1)
  ultimately obtain t y q'' where "rounds m n u = Some t" "queue t q''" "running t = Some y"
      "y # q'' = rotate n (p # q')"
    using Suc.IH [OF u(2,3)] by blast
  moreover have "rotate (Suc n) (c # q) = rotate n (p # q')"
    using u(4) by (simp only: rotate_Suc rotate1_rotate_swap)
  ultimately show ?case
    using u(1) step [OF Suc.prems(2)] by (auto simp: user_turn_def)
qed

end

definition queued :: "kstate \<Rightarrow> nat list \<Rightarrow> bool" where
  "queued s q \<longleftrightarrow> ready_queue s q \<and> (\<forall>i \<in> set q. status (procs s ! i) = READY)"

definition runnable :: "kstate \<Rightarrow> nat \<Rightarrow> bool" where
  "runnable s i \<longleftrightarrow> i < length (procs s) \<and> page_ok s (trapframe (procs s ! i))"

interpretation rq: fifo_scheduler insert_to_ready_queue schedule queued current runnable
proof
  show "runs_to (insert_to_ready_queue i) s
      (\<lambda>_ t. queued t (q @ [i]) \<and> current t = current s \<and> runnable t = runnable s)"
    if "queued s q" and "i \<notin> set q" and "runnable s i" for s q i
  proof -
    from that obtain t where t: "insert_to_ready_queue i s = Inr ((), t)" "ready_queue t (q @ [i])"
        "length (procs t) = length (procs s)" "current t = current s"
        "\<forall>j. status (procs t ! j) = (if j = i then READY else status (procs s ! j))"
        "\<forall>j. (procs t ! j)\<lparr>status := READY, queue_next := None\<rparr> =
           (procs s ! j)\<lparr>status := READY, queue_next := None\<rparr>"
        "t\<lparr>procs := procs s, ready_queue_head := ready_queue_head s\<rparr> = s"
      using insert_new [of s q i] by (auto simp: queued_def runnable_def)
    have "trapframe (procs t ! j) = trapframe (procs s ! j)" for j
      using t(6) by (metis process.select_convs(3) process.surjective process.update_convs(7,9))
    moreover have "page_ok t = page_ok s"
      using arg_cong [where f = page_ok, OF t(7)] by simp
    ultimately show ?thesis
      using t that by (auto simp: runs_to_iff queued_def runnable_def)
  qed
  show "runs_to (insert_to_ready_queue i) s (\<lambda>_ t. t = s)"
    if "queued s q" and "i \<in> set q" for s q i
    using that by (auto simp: runs_to_iff queued_def insert_queued)
  show "\<exists>t. schedule s = Inl (To_user t) \<and> queued t q \<and> current t = Some i \<and> runnable t = runnable s"
    if "queued s (i # q)" and "runnable s i" for s i q
    using that schedule_Cons [of s i q] by (auto simp: queued_def runnable_def fun_eq_iff)
  show "distinct q" if "queued s q" for s q
    using that by (auto simp: queued_def intro: ready_queue_distinct)
qed

section \<open>No process is lost\<close>

text \<open>
  A process is live when its slot is in use and it has not exited. The scheduler's
  invariant: the queue is well formed and holds ready processes, the current process is
  not in it, and every live process is in the queue or current. \<open>covered\<close> is what holds
  when \<^verbatim>\<open>schedule\<close> is called: every live process is in the queue.
\<close>

definition live :: "process \<Rightarrow> bool" where
  "live p \<longleftrightarrow> status p \<noteq> FREE \<and> status p \<noteq> ZOMBIE"

definition sched_inv :: "kstate \<Rightarrow> bool" where
  "sched_inv s \<longleftrightarrow> length (procs s) = NPROC \<and> (\<exists>q. queued s q \<and>
     (\<forall>c. current s = Some c \<longrightarrow> c < NPROC \<and> c \<notin> set q) \<and>
     (\<forall>i < NPROC. live (procs s ! i) \<longrightarrow> i \<in> set q \<or> current s = Some i))"

definition covered :: "kstate \<Rightarrow> bool" where
  "covered s \<longleftrightarrow> length (procs s) = NPROC \<and> (\<exists>q. queued s q \<and>
     (\<forall>i < NPROC. live (procs s ! i) \<longrightarrow> i \<in> set q))"

text \<open>
  How a kernel path that ends in \<^verbatim>\<open>schedule\<close> may end: in user mode with the invariant,
  in a shutdown with code 0, or in a trapped memory access. Not in a panic, a failed
  assertion or an endless loop.
\<close>

fun sched_exit :: "kstate kexit \<Rightarrow> bool" where
  "sched_exit (To_user t) \<longleftrightarrow> sched_inv t \<and> current t \<noteq> None"
| "sched_exit (Shutdown c) \<longleftrightarrow> c = 0"
| "sched_exit (Wild a) \<longleftrightarrow> True"
| "sched_exit (In_image a) \<longleftrightarrow> True"
| "sched_exit (Misaligned a) \<longleftrightarrow> True"
| "sched_exit _ \<longleftrightarrow> False"

lemma switch_to_exit:
  assumes "length (procs s) = NPROC" and "queued s q" and "c < NPROC" and "c \<notin> set q"
    and "\<forall>i < NPROC. live (procs s ! i) \<longrightarrow> i \<in> set q \<or> i = c"
  shows "wp (switch_to (Some c)) (\<lambda>_ _. False) sched_exit s"
  using assms unfolding switch_to_def option.case
  by (auto simp: wp_kthen wp_kbind wp_kmod wp_kget intro!: wp_store64 wp_load64 return_to_user_wp)
     (auto simp: sched_inv_def queued_def ready_queue_def)

lemma schedule_covered:
  assumes "covered s"
  shows "wp schedule (\<lambda>_ _. False) sched_exit s"
proof -
  from assms obtain q where q: "length (procs s) = NPROC" "queued s q"
      "\<forall>i < NPROC. live (procs s ! i) \<longrightarrow> i \<in> set q"
    by (auto simp: covered_def)
  show ?thesis
  proof (cases q)
    case Nil
    with q show ?thesis
      by (auto simp: schedule_def wp_eqs queued_def ready_queue_def live_def)
  next
    case (Cons i q')
    let ?u = "s\<lparr>current := Some i, ready_queue_head := queue_next (procs s ! i)\<rparr>"
    have "wp (switch_to (Some i)) (\<lambda>_ _. False) sched_exit ?u"
      using q Cons rq.queue_distinct [OF q(2)]
      by (intro switch_to_exit [of ?u q' i]) (auto simp: queued_def ready_queue_def)
    with q Cons show ?thesis
      by (auto simp: schedule_def wp_eqs queued_def ready_queue_def)
  qed
qed

section \<open>Properties\<close>

text \<open>Two ready processes, the first running and the second queued, for the examples.\<close>

definition two_procs :: kstate where
  "two_procs = (initial_kstate sample_env 0x24000 (\<lambda>_. 0))\<lparr>free_mem_start_addr := 0x8001c000,
     free_mem_end_addr := 0x80024000, current := Some 0, ready_queue_head := Some 1,
     procs := (replicate NPROC zero_process)[0 := zero_process\<lparr>status := READY, trapframe := 0x8001c000\<rparr>,
       1 := zero_process\<lparr>status := READY, trapframe := 0x8001d000, pid := 1\<rparr>]\<rparr>"

lemma two_procs_queued: "queued two_procs [1]"
  by (simp add: queued_def ready_queue_def two_procs_def zero_process_def)

lemma two_procs_runnable: "i < 2 \<Longrightarrow> runnable two_procs i"
  by (auto simp: runnable_def two_procs_def page_ok_def aligned_def less_2_cases_iff zero_process_def)

text \<open>
  \<^verbatim>\<open>insert_to_ready_queue\<close> returns on every well-formed queue. A process that is not
  queued becomes ready and goes to the end; for one that is queued already nothing
  happens, so no process is ever queued twice.
\<close>

theorem insert_is_fifo:
  assumes "queued s q" and "runnable s i"
  shows "\<exists>t. insert_to_ready_queue i s = Inr ((), t) \<and> queued t (if i \<in> set q then q else q @ [i]) \<and>
    current t = current s \<and> distinct (if i \<in> set q then q else q @ [i])"
proof (cases "i \<in> set q")
  case True
  then show ?thesis
    using rq.enter_again [OF assms(1) True] rq.queue_distinct [OF assms(1)] assms(1)
    by (auto simp: runs_to_iff)
next
  case False
  then show ?thesis
    using rq.enter_new [OF assms(1) False assms(2)] rq.queue_distinct [OF assms(1)]
    by (auto simp: runs_to_iff)
qed

theorem insert_is_fifo_witness:
  "\<exists>t. insert_to_ready_queue 0 two_procs = Inr ((), t) \<and> queued t [1, 0]"
  using insert_is_fifo [OF two_procs_queued two_procs_runnable [of 0]] by auto



end
