(* ===== verification/PKE_String.thy ===== *)
theory PKE_String
  imports PKE_State
begin

text \<open>
  The memory and string routines of \<^verbatim>\<open>util/string.c\<close>, as programs on the physical
  memory. The routines that walk to a terminator have no bound of their own: they stop
  because the memory does, an access beyond it being an exit. \<open>byte m a\<close> is the byte
  the memory \<open>m\<close> holds at \<open>a\<close>, and \<open>cstr s a xs\<close> says that a readable C string
  \<open>xs\<close> starts at \<open>a\<close>.
\<close>

section \<open>Bytes of the memory\<close>

definition byte :: "(u64 \<Rightarrow> u64) \<Rightarrow> u64 \<Rightarrow> u8" where
  "byte m a = ucast (get_at 8 m a)"

lemma byte_put_at [simp]: "byte (put_at 8 a (ucast b) m) x = (if a = x then b else byte m x)"
  by (simp add: byte_def)

lemma load8_byte: "mem_ok s a \<Longrightarrow> load8 a s = Inr (byte (mem s) a, s)"
  by (simp add: load8_eq byte_def)

lemma load8_bound: "load8 a s = Inr (b, t) \<Longrightarrow> unat a < 0x88000000"
  by (auto simp: load8_eq word_less_nat_alt split: if_splits option.splits dest: mem_ok_bound)

lemma store8_bound: "store8 a v s = Inr (x, t) \<Longrightarrow> unat a < 0x88000000"
  by (auto simp: store8_eq split: if_splits dest: mem_ok_bound)

lemma store64_bound: "store64 a v s = Inr (x, t) \<Longrightarrow> unat a < 0x88000000"
  by (auto simp: store64_eq split: if_splits dest: mem_ok_bound)

lemma unat_step:
  "unat p < 0x88000000 \<Longrightarrow> unat (p + 1 :: u64) = unat p + 1"
  "unat p < 0x88000000 \<Longrightarrow> unat (p + 8 :: u64) = unat p + 8"
  by (simp_all add: unat_word_ariths)

section \<open>The routines\<close>

function memcpy_words :: "u64 \<Rightarrow> u64 \<Rightarrow> u64 \<Rightarrow> (u64 \<times> u64) K" where
  "memcpy_words d src lim s =
     (if d < lim
      then kbind (load64 src) (\<lambda>v. kthen (store64 d v) (memcpy_words (d + 8) (src + 8) lim)) s
      else Inr ((d, src), s))"
  by pat_completeness auto
termination
  by (relation "measure (\<lambda>(d, src, lim, s). 0x88000008 - unat d)")
     (auto dest!: store64_bound simp: unat_step)

function memcpy_bytes :: "u64 \<Rightarrow> u64 \<Rightarrow> u64 \<Rightarrow> unit K" where
  "memcpy_bytes d src lim s =
     (if d < lim
      then kbind (load8 src) (\<lambda>v. kthen (store8 d v) (memcpy_bytes (d + 1) (src + 1) lim)) s
      else Inr ((), s))"
  by pat_completeness auto
termination
  by (relation "measure (\<lambda>(d, src, lim, s). 0x88000008 - unat d)")
     (auto dest!: store8_bound simp: unat_step)

definition memcpy :: "u64 \<Rightarrow> u64 \<Rightarrow> u64 \<Rightarrow> u64 K" where
  "memcpy dest src len =
     kbind (if (dest OR src) AND 7 = 0
            then memcpy_words dest src (dest + len - 7)
            else kret (dest, src)) (\<lambda>(d, s).
     kthen (memcpy_bytes d s (dest + len)) (kret dest))"

function memset_words :: "u64 \<Rightarrow> u64 \<Rightarrow> u64 \<Rightarrow> unit K" where
  "memset_words d lim word s =
     (if d < lim then kthen (store64 d word) (memset_words (d + 8) lim word) s
      else Inr ((), s))"
  by pat_completeness auto
termination
  by (relation "measure (\<lambda>(d, lim, word, s). 0x88000008 - unat d)")
     (auto dest!: store64_bound simp: unat_step)

function memset_bytes :: "u64 \<Rightarrow> u64 \<Rightarrow> u8 \<Rightarrow> unit K" where
  "memset_bytes d lim b s =
     (if d < lim then kthen (store8 d b) (memset_bytes (d + 1) lim b) s
      else Inr ((), s))"
  by pat_completeness auto
termination
  by (relation "measure (\<lambda>(d, lim, b, s). 0x88000008 - unat d)")
     (auto dest!: store8_bound simp: unat_step)

definition byte_word :: "u32 \<Rightarrow> u64" where
  "byte_word b =
     (let w0 = ucast (b AND 0xFF); w1 = w0 OR push_bit 8 w0; w2 = w1 OR push_bit 16 w1
      in w2 OR push_bit 16 (push_bit 16 w2))"

definition memset :: "u64 \<Rightarrow> u32 \<Rightarrow> u64 \<Rightarrow> u64 K" where
  "memset dest b len =
     kthen (if (dest OR len) AND 7 = 0
            then memset_words dest (dest + len) (byte_word b)
            else memset_bytes dest (dest + len) (ucast b))
       (kret dest)"

function strlen_loop :: "u64 \<Rightarrow> u64 K" where
  "strlen_loop p s =
     kbind (load8 p) (\<lambda>c. if c \<noteq> 0 then strlen_loop (p + 1) else kret p) s"
  by pat_completeness auto
termination
  by (relation "measure (\<lambda>(p, s). 0x88000008 - unat p)") (auto dest!: load8_bound simp: unat_step)

definition strlen :: "u64 \<Rightarrow> u64 K" where
  "strlen a = kbind (strlen_loop a) (\<lambda>p. kret (p - a))"

function strcmp :: "u64 \<Rightarrow> u64 \<Rightarrow> int K" where
  "strcmp s1 s2 s =
     kbind (load8 s1) (\<lambda>c1. kbind (load8 s2) (\<lambda>c2.
       if c1 \<noteq> 0 \<and> c1 = c2 then strcmp (s1 + 1) (s2 + 1) else kret (uint c1 - uint c2))) s"
  by pat_completeness auto
termination
  by (relation "measure (\<lambda>(s1, s2, s). 0x88000008 - unat s1)") (auto dest!: load8_bound simp: unat_step)

function strcpy_loop :: "u64 \<Rightarrow> u64 \<Rightarrow> unit K" where
  "strcpy_loop d src s =
     kbind (load8 src) (\<lambda>c. kthen (store8 d c)
       (if c \<noteq> 0 then strcpy_loop (d + 1) (src + 1) else kret ())) s"
  by pat_completeness auto
termination
  by (relation "measure (\<lambda>(d, src, s). 0x88000008 - unat d)") (auto dest!: store8_bound simp: unat_step)

definition strcpy :: "u64 \<Rightarrow> u64 \<Rightarrow> u64 K" where
  "strcpy dest src = kthen (strcpy_loop dest src) (kret dest)"

function strchr :: "u64 \<Rightarrow> u8 \<Rightarrow> u64 K" where
  "strchr a c s =
     kbind (load8 a) (\<lambda>x. if x = 0 then kret 0 else if x = c then kret a else strchr (a + 1) c) s"
  by pat_completeness auto
termination
  by (relation "measure (\<lambda>(a, c, s). 0x88000008 - unat a)") (auto dest!: load8_bound simp: unat_step)

definition strcat :: "u64 \<Rightarrow> u64 \<Rightarrow> u64 K" where
  "strcat dst src = kbind (strlen dst) (\<lambda>n. kthen (strcpy (dst + n) src) (kret dst))"

function skip_spaces :: "u64 \<Rightarrow> u64 K" where
  "skip_spaces a s = kbind (load8 a) (\<lambda>c. if c = 32 then skip_spaces (a + 1) else kret a) s"
  by pat_completeness auto
termination
  by (relation "measure (\<lambda>(a, s). 0x88000008 - unat a)") (auto dest!: load8_bound simp: unat_step)

function atol_digits :: "u64 \<Rightarrow> u64 \<Rightarrow> u64 K" where
  "atol_digits a res s =
     kbind (load8 a) (\<lambda>c. if c \<noteq> 0 then atol_digits (a + 1) (res * 10 + (ucast c - 48)) else kret res) s"
  by pat_completeness auto
termination
  by (relation "measure (\<lambda>(a, res, s). 0x88000008 - unat a)") (auto dest!: load8_bound simp: unat_step)

definition atol :: "u64 \<Rightarrow> u64 K" where
  "atol str =
     kbind (skip_spaces str) (\<lambda>a. kbind (load8 a) (\<lambda>c.
       (let sgn = (c = 45); a' = (if c = 45 \<or> c = 43 then a + 1 else a) in
        kbind (atol_digits a' 0) (\<lambda>res. kret (if sgn then - res else res)))))"

fun memmove_down :: "u64 \<Rightarrow> u64 \<Rightarrow> nat \<Rightarrow> unit K" where
  "memmove_down d src 0 = kret ()"
| "memmove_down d src (Suc n) =
     kbind (load8 (src - 1)) (\<lambda>v. kthen (store8 (d - 1) v) (memmove_down (d - 1) (src - 1) n))"

fun memmove_up :: "u64 \<Rightarrow> u64 \<Rightarrow> nat \<Rightarrow> unit K" where
  "memmove_up d src 0 = kret ()"
| "memmove_up d src (Suc n) =
     kbind (load8 src) (\<lambda>v. kthen (store8 d v) (memmove_up (d + 1) (src + 1) n))"

definition memmove :: "u64 \<Rightarrow> u64 \<Rightarrow> u64 \<Rightarrow> u64 K" where
  "memmove dst src n =
     kthen (if src < dst \<and> src + n > dst
            then memmove_down (dst + n) (src + n) (unat n)
            else memmove_up dst src (unat n))
       (kret dst)"

fun safestrcpy_loop :: "u64 \<Rightarrow> u64 \<Rightarrow> nat \<Rightarrow> u64 K" where
  "safestrcpy_loop d t 0 = kret d"
| "safestrcpy_loop d t (Suc n) =
     kbind (load8 t) (\<lambda>c. kthen (store8 d c)
       (if c \<noteq> 0 then safestrcpy_loop (d + 1) (t + 1) n else kret (d + 1)))"

definition safestrcpy :: "u64 \<Rightarrow> u64 \<Rightarrow> int \<Rightarrow> u64 K" where
  "safestrcpy d t n =
     (if n \<le> 0 then kret d
      else kbind (safestrcpy_loop d t (nat (n - 1))) (\<lambda>e. kthen (store8 e 0) (kret d)))"

declare memcpy_words.simps [simp del] memcpy_bytes.simps [simp del] memset_words.simps [simp del]
  memset_bytes.simps [simp del] strlen_loop.simps [simp del] strcmp.simps [simp del]
  strcpy_loop.simps [simp del] strchr.simps [simp del] skip_spaces.simps [simp del]
  atol_digits.simps [simp del]

section \<open>Whole words: clearing and copying aligned blocks\<close>

definition range_ok :: "kstate \<Rightarrow> u64 \<Rightarrow> nat \<Rightarrow> bool" where
  "range_ok s a n \<longleftrightarrow> free_mem_start_addr s \<le> a \<and> unat a + n \<le> unat (free_mem_end_addr s) \<and>
     unat (free_mem_end_addr s) \<le> 0x88000000"

definition in_block :: "u64 \<Rightarrow> nat \<Rightarrow> u64 \<Rightarrow> bool" where
  "in_block d n a \<longleftrightarrow> unat (a - d) < n \<and> unat (a - d) mod 8 = 0"

definition fill :: "u64 \<Rightarrow> nat \<Rightarrow> u64 \<Rightarrow> (u64 \<Rightarrow> u64) \<Rightarrow> (u64 \<Rightarrow> u64)" where
  "fill d n w m = (\<lambda>a. if in_block d n a then w else m a)"

definition copy_block :: "u64 \<Rightarrow> u64 \<Rightarrow> nat \<Rightarrow> (u64 \<Rightarrow> u64) \<Rightarrow> (u64 \<Rightarrow> u64)" where
  "copy_block d src n m = (\<lambda>a. if in_block d n a then m (src + (a - d)) else m a)"

lemma range_ok_mem_ok: "range_ok s a n \<Longrightarrow> 0 < n \<Longrightarrow> mem_ok s a"
  by (auto simp: range_ok_def mem_ok_def word_less_nat_alt word_le_nat_alt)

lemma range_ok_bound: "range_ok s a n \<Longrightarrow> unat a + n \<le> 0x88000000"
  by (simp add: range_ok_def)

lemma range_ok_mem_update [simp]: "range_ok (s\<lparr>mem := m\<rparr>) = range_ok s"
  by (simp add: range_ok_def fun_eq_iff)

lemma range_ok_step:
  assumes "range_ok s a (k + n)"
  shows "range_ok s (a + of_nat k) n"
proof -
  have "unat (a + of_nat k) = unat a + k"
    using range_ok_bound [OF assms] by (simp add: unat_word_ariths unat_of_nat)
  then show ?thesis
    using assms by (simp add: range_ok_def word_le_nat_alt)
qed

lemma and_7_iff: "(a :: u64) AND 7 = 0 \<longleftrightarrow> aligned 8 a"
proof -
  have "a AND 7 = take_bit 3 a"
    by (simp add: take_bit_eq_mask mask_eq_exp_minus_1)
  moreover have "unat (take_bit 3 a) = unat a mod 8"
    by (simp add: unsigned_take_bit_eq) (simp add: take_bit_eq_mod)
  ultimately show ?thesis
    by (simp add: aligned_def word_unat_eq_iff)
qed

lemma or_and_7_iff: "((a :: u64) OR b) AND 7 = 0 \<longleftrightarrow> aligned 8 a \<and> aligned 8 b"
  by (simp add: bit.conj_disj_distrib2 or_eq_0_iff and_7_iff)

lemma aligned_step: "aligned 8 a \<Longrightarrow> unat a < 0x88000000 \<Longrightarrow> aligned 8 (a + 8)"
  by (simp add: aligned_def unat_step)

lemma in_block_0 [simp]: "\<not> in_block d 0 a"
  by (simp add: in_block_def)

lemma in_block_Suc:
  assumes "n < 0x88000000"
  shows "in_block d (n + 8) a \<longleftrightarrow> a = d \<or> in_block (d + 8) n a"
proof -
  have eq: "unat (a - (d + 8)) = unat ((a - d) - 8)"
    by (simp add: algebra_simps)
  show ?thesis
  proof (cases "unat (a - d) < 8")
    case True
    then have "unat (a - (d + 8)) = unat (a - d) + 0x10000000000000000 - 8"
      by (simp only: eq) (simp add: unat_sub_if')
    then have "\<not> in_block (d + 8) n a"
      using assms by (simp add: in_block_def)
    moreover have "in_block d (n + 8) a \<longleftrightarrow> unat (a - d) = 0"
      using True by (auto simp: in_block_def)
    ultimately show ?thesis
      by (simp add: unat_eq_0)
  next
    case False
    then have "unat (a - (d + 8)) = unat (a - d) - 8"
      by (simp only: eq) (simp add: unat_sub_if')
    moreover have "unat (a - d) mod 8 = (unat (a - d) - 8) mod 8"
      using False by (simp add: le_mod_geq)
    ultimately show ?thesis
      using False by (auto simp: in_block_def)
  qed
qed

lemma memset_words_fill:
  assumes "range_ok s d (8 * k)" and "aligned 8 d"
  shows "memset_words d (d + of_nat (8 * k)) w s = Inr ((), s\<lparr>mem := fill d (8 * k) w (mem s)\<rparr>)"
  using assms
proof (induction k arbitrary: d s)
  case 0
  then show ?case by (simp add: memset_words.simps [of d] fill_def)
next
  case (Suc k)
  have b: "unat d + 8 * k + 8 \<le> 0x88000000"
    using range_ok_bound [OF Suc.prems(1)] by simp
  let ?t = "s\<lparr>mem := (mem s)(d := w)\<rparr>"
  have "unat (d + of_nat (8 * Suc k)) = unat d + 8 * Suc k"
    using b by (simp add: unat_word_ariths unat_of_nat)
  then have less: "d < d + of_nat (8 * Suc k)"
    by (simp add: word_less_nat_alt)
  have "store64 d w s = Inr ((), ?t)"
    using Suc.prems by (simp add: store64_eq range_ok_mem_ok)
  moreover have "memset_words (d + 8) (d + of_nat (8 * Suc k)) w ?t
      = Inr ((), ?t\<lparr>mem := fill (d + 8) (8 * k) w (mem ?t)\<rparr>)"
    using Suc.IH [of ?t "d + 8"] range_ok_step [of s d 8 "8 * k"] Suc.prems b
    by (simp add: aligned_step algebra_simps fun_upd_def)
  moreover have "fill (d + 8) (8 * k) w ((mem s)(d := w)) = fill d (8 * Suc k) w (mem s)"
    using in_block_Suc [of "8 * k" d] b by (auto simp: fill_def fun_eq_iff algebra_simps)
  ultimately show ?case
    using less by (simp add: memset_words.simps [of d] kthen_eq)
qed

lemma memset_zero:
  assumes "range_ok s d n" and "aligned 8 d" and "n mod 8 = 0"
  shows "memset d 0 (of_nat n) s = Inr (d, s\<lparr>mem := fill d n 0 (mem s)\<rparr>)"
proof -
  have "unat (of_nat n :: u64) = n"
    using range_ok_bound [OF assms(1)] by (simp add: unat_of_nat)
  then have al: "aligned 8 (of_nat n)"
    using assms(3) by (simp add: aligned_def)
  have n: "8 * (n div 8) = n"
    using assms(3) by auto
  then show ?thesis
    using memset_words_fill [of s d "n div 8" 0] assms al
    by (simp add: memset_def or_and_7_iff kdefs byte_word_def)
qed

lemma in_block_shift: "in_block d n a \<Longrightarrow> in_block src n (src + (a - d))"
  by (simp add: in_block_def)

lemma memcpy_words_copy:
  assumes "range_ok s d (8 * k)" and "range_ok s src (8 * k)"
    and "aligned 8 d" and "aligned 8 src" and "d \<noteq> 0"
    and "\<And>a. in_block d (8 * k) a \<Longrightarrow> \<not> in_block src (8 * k) a"
  shows "memcpy_words d src (d + of_nat (8 * k) - 7) s =
    Inr ((d + of_nat (8 * k), src + of_nat (8 * k)), s\<lparr>mem := copy_block d src (8 * k) (mem s)\<rparr>)"
  using assms
proof (induction k arbitrary: d src s)
  case 0
  have "0 < unat d" using 0(5) by (simp add: unat_gt_0)
  with 0(3) have "7 \<le> unat d" by (auto simp: aligned_def)
  then have "unat (d - 7) = unat d - 7" by (simp add: unat_sub word_le_nat_alt)
  with \<open>7 \<le> unat d\<close> have "\<not> d < d - 7" by (simp add: word_less_nat_alt)
  then show ?case
    by (simp add: memcpy_words.simps [of d] copy_block_def)
next
  case (Suc k)
  have b: "unat d + 8 * k + 8 \<le> 0x88000000"
    using range_ok_bound [OF Suc.prems(1)] by simp
  have b': "unat src + 8 * k + 8 \<le> 0x88000000"
    using range_ok_bound [OF Suc.prems(2)] by simp
  let ?t = "s\<lparr>mem := (mem s)(d := mem s src)\<rparr>"
  have "unat (d + of_nat (8 * Suc k) - 7) = unat d + 8 * Suc k - 7"
    using b by (simp add: unat_sub unat_word_ariths unat_of_nat word_le_nat_alt)
  then have less: "d < d + of_nat (8 * Suc k) - 7"
    by (simp add: word_less_nat_alt)
  have acc: "load64 src s = Inr (mem s src, s)" "store64 d (mem s src) s = Inr ((), ?t)"
    using Suc.prems(1-4) by (simp_all add: store64_eq load64_eq range_ok_mem_ok)
  have blk: "in_block d (8 * Suc k) a \<longleftrightarrow> a = d \<or> in_block (d + 8) (8 * k) a"
    "in_block src (8 * Suc k) a \<longleftrightarrow> a = src \<or> in_block (src + 8) (8 * k) a" for a
    using in_block_Suc [of "8 * k"] b by (simp_all add: algebra_simps)
  have "d + 8 \<noteq> 0"
    using b unat_step(2) [of d] by (auto simp: unat_eq_0 [symmetric])
  then have IH: "memcpy_words (d + 8) (src + 8) (d + of_nat (8 * Suc k) - 7) ?t
      = Inr ((d + of_nat (8 * Suc k), src + of_nat (8 * Suc k)),
             ?t\<lparr>mem := copy_block (d + 8) (src + 8) (8 * k) (mem ?t)\<rparr>)"
    using Suc.IH [of ?t "d + 8" "src + 8"] range_ok_step [of s d 8 "8 * k"]
      range_ok_step [of s src 8 "8 * k"] Suc.prems b b' blk
    by (simp add: aligned_step algebra_simps fun_upd_def)
  have "in_block d (8 * Suc k) d"
    by (simp add: in_block_def)
  then have "src + (a - d) \<noteq> d" if "in_block d (8 * Suc k) a" for a
    using Suc.prems(6) in_block_shift [OF that, of src] by metis
  then have "copy_block (d + 8) (src + 8) (8 * k) ((mem s)(d := mem s src)) = copy_block d src (8 * Suc k) (mem s)"
    unfolding copy_block_def fun_eq_iff blk(1) by (auto simp: algebra_simps)
  with IH show ?case
    using less acc by (simp add: memcpy_words.simps [of d] kbind_eq kthen_eq)
qed

lemma memcpy_copy:
  assumes "range_ok s d n" and "range_ok s src n" and "aligned 8 d" and "aligned 8 src"
    and "d \<noteq> 0" and "n mod 8 = 0" and "\<And>a. in_block d n a \<Longrightarrow> \<not> in_block src n a"
  shows "memcpy d src (of_nat n) s = Inr (d, s\<lparr>mem := copy_block d src n (mem s)\<rparr>)"
proof -
  have n: "8 * (n div 8) = n"
    using assms(6) by auto
  then show ?thesis
    using memcpy_words_copy [of s d "n div 8" src] assms
    by (simp add: memcpy_def or_and_7_iff kdefs memcpy_bytes.simps)
qed

section \<open>Strings\<close>

fun cstr :: "kstate \<Rightarrow> u64 \<Rightarrow> u8 list \<Rightarrow> bool" where
  "cstr s a [] \<longleftrightarrow> mem_ok s a \<and> byte (mem s) a = 0"
| "cstr s a (x # xs) \<longleftrightarrow> mem_ok s a \<and> byte (mem s) a = x \<and> x \<noteq> 0 \<and> cstr s (a + 1) xs"

lemma strlen_loop_cstr: "cstr s a xs \<Longrightarrow> strlen_loop a s = Inr (a + of_nat (length xs), s)"
proof (induction xs arbitrary: a)
  case Nil
  then show ?case by (simp add: strlen_loop.simps [of a s] kdefs load8_byte)
next
  case (Cons x xs)
  then show ?case by (simp add: strlen_loop.simps [of a s] kdefs load8_byte add.assoc)
qed

lemma uint_pos: "0 < uint (x :: u8) \<longleftrightarrow> x \<noteq> 0"
  using uint_0_iff [of x] by (simp add: less_le)

lemma strcmp_cstr:
  "cstr s a xs \<Longrightarrow> cstr s b ys \<Longrightarrow> \<exists>r. strcmp a b s = Inr (r, s) \<and> (r = 0 \<longleftrightarrow> xs = ys) \<and>
     (r < 0 \<longleftrightarrow> (xs, ys) \<in> lexord {(u, v). u < v})"
proof (induction xs arbitrary: a b ys)
  case Nil
  then show ?case
    by (cases ys) (auto simp: strcmp.simps [of a b s] kdefs load8_byte uint_0_iff uint_pos)
next
  case (Cons x xs)
  show ?case
  proof (cases ys)
    case Nil
    with Cons.prems show ?thesis
      by (auto simp: strcmp.simps [of a b s] kdefs load8_byte uint_0_iff uint_ge_0 not_less)
  next
    case (Cons y ys')
    show ?thesis
    proof (cases "x = y")
      case True
      with Cons.prems Cons Cons.IH [of "a + 1" "b + 1" ys'] show ?thesis
        by (auto simp: strcmp.simps [of a b s] kdefs load8_byte)
    next
      case False
      with Cons.prems Cons show ?thesis
        by (auto simp: strcmp.simps [of a b s] kdefs load8_byte word_less_def dest: word_uint_eqI)
    qed
  qed
qed

section \<open>Copying overlapping blocks of bytes\<close>

text \<open>
  \<open>bytes_moved m d src n m'\<close>: the \<open>n\<close> bytes at \<open>d\<close> in \<open>m'\<close> are those at \<open>src\<close> in \<open>m\<close>,
  and every other byte is the same.
\<close>

definition bytes_moved :: "(u64 \<Rightarrow> u64) \<Rightarrow> u64 \<Rightarrow> u64 \<Rightarrow> nat \<Rightarrow> (u64 \<Rightarrow> u64) \<Rightarrow> bool" where
  "bytes_moved m d src n m' \<longleftrightarrow>
     (\<forall>a. byte m' a = (if unat (a - d) < n then byte m (src + (a - d)) else byte m a))"

lemma range_ok_at: "range_ok s a n \<Longrightarrow> k < n \<Longrightarrow> mem_ok s (a + of_nat k)"
proof -
  assume r: "range_ok s a n" and k: "k < n"
  then have "unat (a + of_nat k) = unat a + k"
    using range_ok_bound [OF r] by (simp add: unat_word_ariths unat_of_nat)
  then show ?thesis
    using r k by (simp add: range_ok_def mem_ok_def word_le_nat_alt word_less_nat_alt)
qed

lemma unat_diff_Suc:
  assumes "n < 0x88000000"
  shows "unat (a - d :: u64) < Suc n \<longleftrightarrow> a = d \<or> unat (a - (d + 1)) < n"
proof (cases "a = d")
  case False
  then have "a - d \<noteq> 0" by simp
  then have "unat (a - d - 1) = unat (a - d) - 1" and "0 < unat (a - d)"
    by (simp_all add: unat_sub word_le_nat_alt unat_gt_0 Suc_le_eq)
  then show ?thesis using False by (auto simp: diff_diff_eq)
qed simp

lemma bytes_moved_Suc:
  assumes n: "n < 0x88000000"
    and m: "bytes_moved (put_at 8 d (ucast (byte m src)) m) (d + 1) (src + 1) n m'"
    and apart: "\<And>k. 0 < k \<Longrightarrow> k < Suc n \<Longrightarrow> src + of_nat k \<noteq> d"
  shows "bytes_moved m d src (Suc n) m'"
  unfolding bytes_moved_def
proof
  fix a
  let ?m = "put_at 8 d (ucast (byte m src)) m"
  have no: "src + (a - d) \<noteq> d" if "a \<noteq> d" "unat (a - (d + 1)) < n"
  proof -
    have "0 < unat (a - d)" "unat (a - d) < Suc n"
      using that n unat_diff_Suc [of n a d] by (auto simp: unat_gt_0)
    then show ?thesis using apart [of "unat (a - d)"] by simp
  qed
  have "byte m' a = (if unat (a - (d + 1)) < n then byte ?m (src + (a - d)) else byte ?m a)"
    using m by (simp add: bytes_moved_def)
  then show "byte m' a = (if unat (a - d) < Suc n then byte m (src + (a - d)) else byte m a)"
    using no n unat_diff_Suc [of n a d] by (cases "a = d") auto
qed

lemma memmove_up_bytes:
  assumes "range_ok s d n" and "range_ok s src n" and "n \<le> 0x88000000"
    and "\<And>k. 0 < k \<Longrightarrow> k < n \<Longrightarrow> src + of_nat k \<noteq> d"
  shows "\<exists>m. memmove_up d src n s = Inr ((), s\<lparr>mem := m\<rparr>) \<and> bytes_moved (mem s) d src n m"
  using assms
proof (induction n arbitrary: s d src)
  case 0
  then show ?case by (auto simp: kdefs bytes_moved_def intro!: exI [of _ "mem s"])
next
  case (Suc n)
  let ?s = "s\<lparr>mem := put_at 8 d (ucast (byte (mem s) src)) (mem s)\<rparr>"
  have ok: "mem_ok s d" "mem_ok s src"
    using Suc.prems(1,2) by (auto intro: range_ok_mem_ok)
  have step: "range_ok ?s (d + 1) n" "range_ok ?s (src + 1) n"
    using range_ok_step [of s d 1 n] range_ok_step [of s src 1 n] Suc.prems(1,2) by simp_all
  have "src + 1 + of_nat k \<noteq> d + 1" if "0 < k" "k < n" for k
    using Suc.prems(4) [of k] that by (simp add: algebra_simps)
  then obtain m where m: "memmove_up (d + 1) (src + 1) n ?s = Inr ((), ?s\<lparr>mem := m\<rparr>)"
      "bytes_moved (mem ?s) (d + 1) (src + 1) n m"
    using Suc.IH [OF step] Suc.prems(3) by auto
  have "bytes_moved (mem s) d src (Suc n) m"
    using m(2) Suc.prems(3,4) by (intro bytes_moved_Suc) simp_all
  then show ?case using m(1) ok by (auto simp: kdefs load8_byte store8_eq)
qed

lemma unat_less_Suc_last:
  assumes "n < 0x88000000"
  shows "unat (a - d :: u64) < Suc n \<longleftrightarrow> a = d + of_nat n \<or> unat (a - d) < n"
proof -
  have "unat (a - d) = n \<longleftrightarrow> a - d = of_nat n"
    using assms by (simp add: word_unat_eq_iff unat_of_nat)
  then show ?thesis by (auto simp: less_Suc_eq algebra_simps)
qed

lemma memmove_down_bytes:
  assumes "range_ok s d n" and "range_ok s src n" and "n \<le> 0x88000000"
    and "\<And>k. 0 < k \<Longrightarrow> k < n \<Longrightarrow> d + of_nat k \<noteq> src"
  shows "\<exists>m. memmove_down (d + of_nat n) (src + of_nat n) n s = Inr ((), s\<lparr>mem := m\<rparr>) \<and>
    bytes_moved (mem s) d src n m"
  using assms
proof (induction n arbitrary: s)
  case 0
  then show ?case by (auto simp: kdefs bytes_moved_def intro!: exI [of _ "mem s"])
next
  case (Suc n)
  let ?d = "d + of_nat n" and ?r = "src + of_nat n"
  let ?s = "s\<lparr>mem := put_at 8 ?d (ucast (byte (mem s) ?r)) (mem s)\<rparr>"
  have ok: "mem_ok s ?d" "mem_ok s ?r"
    using Suc.prems(1,2) by (auto intro: range_ok_at)
  have "range_ok ?s d n" "range_ok ?s src n"
    using Suc.prems(1,2) by (simp_all add: range_ok_def)
  then obtain m where m: "memmove_down ?d ?r n ?s = Inr ((), ?s\<lparr>mem := m\<rparr>)"
      "bytes_moved (mem ?s) d src n m"
    using Suc.IH [of ?s] Suc.prems(3,4) by auto
  have no: "src + (a - d) \<noteq> ?d" if lt: "unat (a - d) < n" for a
  proof
    assume "src + (a - d) = ?d"
    then have "src = ?d - (a - d)" by (metis add_diff_cancel_right')
    then have "src = d + (of_nat n - (a - d))" by (simp only: add_diff_eq)
    moreover have "of_nat (n - unat (a - d)) = (of_nat n - (a - d) :: u64)"
      using lt by (simp only: of_nat_diff less_imp_le) simp
    ultimately show False
      using Suc.prems(4) [of "n - unat (a - d)"] lt by (simp add: less_Suc_eq_le)
  qed
  have "bytes_moved (mem s) d src (Suc n) m"
    unfolding bytes_moved_def
  proof
    fix a
    have "byte m a = (if unat (a - d) < n then byte (mem ?s) (src + (a - d)) else byte (mem ?s) a)"
      using m(2) by (simp add: bytes_moved_def)
    then show "byte m a = (if unat (a - d) < Suc n then byte (mem s) (src + (a - d)) else byte (mem s) a)"
      using no [of a] Suc.prems(3) unat_less_Suc_last [of n a d] by (cases "a = ?d") auto
  qed
  then show ?case using m(1) ok by (auto simp: kdefs load8_byte store8_eq)
qed

section \<open>Properties\<close>

text \<open>
  C36: \<^verbatim>\<open>memmove\<close> moves a block correctly however source and destination overlap: the
  destination holds the bytes the source held before, and no other byte changes.
\<close>

theorem memmove_moves:
  assumes "range_ok s d (unat n)" and "range_ok s src (unat n)"
  shows "\<exists>m. memmove d src n s = Inr (d, s\<lparr>mem := m\<rparr>) \<and> bytes_moved (mem s) d src (unat n) m"
proof -
  have b: "unat d + unat n \<le> 0x88000000" "unat src + unat n \<le> 0x88000000"
    using assms by (auto dest: range_ok_bound)
  then have add: "unat (d + of_nat k) = unat d + k" "unat (src + of_nat k) = unat src + k"
    if "k \<le> unat n" for k
    using that by (simp_all add: unat_word_ariths unat_of_nat)
  show ?thesis
  proof (cases "src < d \<and> src + n > d")
    case True
    have "d + of_nat k \<noteq> src" if "k < unat n" for k
      using True add(1) [of k] that by (auto simp: word_less_nat_alt)
    then show ?thesis
      using memmove_down_bytes [OF assms] b True by (auto simp: memmove_def kdefs)
  next
    case False
    have "src + of_nat k \<noteq> d" if "0 < k" "k < unat n" for k
    proof
      assume "src + of_nat k = d"
      then have "unat d = unat src + k" using add(2) [of k] that by auto
      with that False add(2) [of "unat n"] show False by (auto simp: word_less_nat_alt)
    qed
    then show ?thesis
      using memmove_up_bytes [OF assms] b False by (auto simp: memmove_def kdefs)
  qed
qed

text \<open>A page of memory for the examples, holding the string \<^verbatim>\<open>"cat"\<close> at its start.\<close>

definition text_state :: kstate where
  "text_state = (initial_kstate sample_env 0x20000 ((\<lambda>_. 0)(0x8001c000 := 0x746163)))
     \<lparr>free_mem_start_addr := 0x8001c000, free_mem_end_addr := 0x8001d000\<rparr>"

lemma text_byte:
  "byte (mem text_state) 0x8001c000 = 0x63" "byte (mem text_state) 0x8001c001 = 0x61"
  "byte (mem text_state) 0x8001c002 = 0x74" "byte (mem text_state) 0x8001c003 = 0"
  by (simp_all add: text_state_def initial_kstate_def byte_def get_at_def get_bits_def bit_off_def
      dword_of_def take_bit_eq_mask drop_bit_eq_div mask_eq_exp_minus_1)

lemma text_ok: "0x8001c000 \<le> a \<Longrightarrow> a < 0x8001d000 \<Longrightarrow> mem_ok text_state a"
  by (auto simp: mem_ok_def text_state_def intro: less_trans)

theorem memmove_moves_witness:
  "\<exists>m. memmove 0x8001c001 0x8001c000 3 text_state = Inr (0x8001c001, text_state\<lparr>mem := m\<rparr>) \<and>
     byte m 0x8001c001 = 0x63 \<and> byte m 0x8001c002 = 0x61 \<and> byte m 0x8001c003 = 0x74"
proof -
  have "range_ok text_state 0x8001c001 3" "range_ok text_state 0x8001c000 3"
    by (simp_all add: range_ok_def text_state_def)
  from memmove_moves [of text_state "0x8001c001" 3 "0x8001c000"] this obtain m where
      "memmove 0x8001c001 0x8001c000 3 text_state = Inr (0x8001c001, text_state\<lparr>mem := m\<rparr>)"
      "bytes_moved (mem text_state) 0x8001c001 0x8001c000 3 m"
    by auto
  then show ?thesis by (intro exI [of _ m]) (simp add: bytes_moved_def text_byte)
qed

text \<open>
  C37: on readable C strings \<^verbatim>\<open>strcmp\<close> returns, leaves the state alone, and decides: zero
  for equal strings, negative exactly when the first is lexicographically smaller in
  unsigned bytes.
\<close>

theorem strcmp_decides:
  assumes "cstr s a xs" and "cstr s b ys"
  shows "\<exists>r. strcmp a b s = Inr (r, s) \<and> (r = 0 \<longleftrightarrow> xs = ys) \<and>
    (r < 0 \<longleftrightarrow> (xs, ys) \<in> lexord {(u, v). u < v})"
  using assms by (rule strcmp_cstr)

theorem strcmp_decides_witness: "\<exists>r. strcmp 0x8001c000 0x8001c001 text_state = Inr (r, text_state) \<and> r > 0"
proof -
  have "cstr text_state 0x8001c000 [0x63, 0x61, 0x74]" "cstr text_state 0x8001c001 [0x61, 0x74]"
    by (simp_all add: text_byte text_ok)
  from strcmp_decides [OF this] obtain r where "strcmp 0x8001c000 0x8001c001 text_state = Inr (r, text_state)"
      "r = 0 \<longleftrightarrow> [0x63, 0x61, 0x74] = [0x61, 0x74 :: u8]"
      "r < 0 \<longleftrightarrow> ([0x63, 0x61, 0x74], [0x61, 0x74 :: u8]) \<in> lexord {(u, v). u < v}"
    by blast
  then show ?thesis by auto
qed

lemma cstr_put:
  "(\<And>k. k \<le> length xs \<Longrightarrow> a + of_nat k \<noteq> d) \<Longrightarrow>
   cstr (s\<lparr>mem := put_at 8 d (ucast (v :: u8)) (mem s)\<rparr>) a xs = cstr s a xs"
proof (induction xs arbitrary: a)
  case Nil
  then show ?case using Nil [of 0] by simp
next
  case (Cons x xs)
  have "a + 1 + of_nat k \<noteq> d" if "k \<le> length xs" for k
    using Cons.prems [of "Suc k"] that by (simp add: algebra_simps)
  with Cons show ?case using Cons.prems [of 0] by simp
qed

lemma cstr_bytes:
  "cstr s a xs \<longleftrightarrow> (\<forall>k \<le> length xs. mem_ok s (a + of_nat k) \<and>
     byte (mem s) (a + of_nat k) = (xs @ [0]) ! k) \<and> 0 \<notin> set xs"
proof (induction xs arbitrary: a)
  case (Cons x xs)
  have "(\<forall>k \<le> length (x # xs). P k) \<longleftrightarrow> P 0 \<and> (\<forall>k \<le> length xs. P (Suc k))" for P
    using less_Suc_eq_0_disj less_Suc_eq_le by auto
  then show ?case using Cons by (auto simp: algebra_simps)
qed simp

lemma cstr_moved:
  assumes c: "cstr s src xs" and r: "range_ok s d (Suc (length xs))"
    and m: "bytes_moved (mem s) d src (Suc (length xs)) m"
  shows "cstr (s\<lparr>mem := m\<rparr>) d xs"
proof -
  have "unat (of_nat k :: u64) = k" if "k \<le> length xs" for k
    using that range_ok_bound [OF r] by (simp add: unat_of_nat)
  then have "byte m (d + of_nat k) = byte (mem s) (src + of_nat k)" if "k \<le> length xs" for k
    using that m by (simp add: bytes_moved_def)
  then show ?thesis
    using c r by (auto simp: cstr_bytes intro: range_ok_at)
qed

lemma strcpy_loop_cstr:
  assumes "cstr s src xs" and "range_ok s d (Suc (length xs))"
    and "\<And>k. 0 < k \<Longrightarrow> k \<le> length xs \<Longrightarrow> src + of_nat k \<noteq> d"
  shows "\<exists>m. strcpy_loop d src s = Inr ((), s\<lparr>mem := m\<rparr>) \<and> bytes_moved (mem s) d src (Suc (length xs)) m"
  using assms
proof (induction xs arbitrary: s d src)
  case Nil
  let ?m = "put_at 8 d (ucast (byte (mem s) src)) (mem s)"
  have "strcpy_loop d src s = Inr ((), s\<lparr>mem := ?m\<rparr>)"
    using Nil range_ok_mem_ok [of s d 1]
    by (auto simp: strcpy_loop.simps [of d src s] kdefs load8_byte store8_eq)
  moreover have "bytes_moved (mem s) d src (Suc 0) ?m"
    by (rule bytes_moved_Suc) (simp_all add: bytes_moved_def)
  ultimately show ?case by auto
next
  case (Cons x xs)
  let ?s = "s\<lparr>mem := put_at 8 d (ucast (byte (mem s) src)) (mem s)\<rparr>"
  have ok: "mem_ok s d" "mem_ok s src" "byte (mem s) src \<noteq> 0"
    using Cons.prems(1,2) by (auto intro: range_ok_mem_ok)
  have nx: "src + 1 + of_nat k \<noteq> d" if "k \<le> length xs" for k
    using Cons.prems(3) [of "Suc k"] that by (simp add: algebra_simps)
  have "cstr ?s (src + 1) xs"
    using Cons.prems(1) nx cstr_put [of xs "src + 1" d _ s] by simp
  moreover have "range_ok ?s (d + 1) (Suc (length xs))"
    using range_ok_step [of s d 1 "Suc (length xs)"] Cons.prems(2) by simp
  moreover have "src + 1 + of_nat k \<noteq> d + 1" if "0 < k" "k \<le> length xs" for k
    using Cons.prems(3) [of k] that by (simp add: algebra_simps)
  ultimately obtain m where m: "strcpy_loop (d + 1) (src + 1) ?s = Inr ((), ?s\<lparr>mem := m\<rparr>)"
      "bytes_moved (mem ?s) (d + 1) (src + 1) (Suc (length xs)) m"
    using Cons.IH [of ?s "src + 1" "d + 1"] by auto
  have "bytes_moved (mem s) d src (Suc (length (x # xs))) m"
    using m(2) Cons.prems(3) range_ok_bound [OF Cons.prems(2)]
    by (intro bytes_moved_Suc) simp_all
  then show ?case
    using m(1) ok by (auto simp: strcpy_loop.simps [of d src s] kdefs load8_byte store8_eq)
qed

text \<open>
  \<^verbatim>\<open>strcpy\<close> of a readable C string into a block with room for it, and that does not
  begin inside the string, copies the string and its terminator and writes nothing else;
  the copy is again a C string, with the length \<^verbatim>\<open>strlen\<close> computes.
\<close>

theorem strcpy_copies:
  assumes "cstr s src xs" and "range_ok s d (Suc (length xs))"
    and "\<And>k. 0 < k \<Longrightarrow> k \<le> length xs \<Longrightarrow> src + of_nat k \<noteq> d"
  shows "\<exists>m. strcpy d src s = Inr (d, s\<lparr>mem := m\<rparr>) \<and> bytes_moved (mem s) d src (Suc (length xs)) m \<and>
    cstr (s\<lparr>mem := m\<rparr>) d xs \<and> strlen d (s\<lparr>mem := m\<rparr>) = Inr (of_nat (length xs), s\<lparr>mem := m\<rparr>)"
proof -
  obtain m where m: "strcpy_loop d src s = Inr ((), s\<lparr>mem := m\<rparr>)"
      and mv: "bytes_moved (mem s) d src (Suc (length xs)) m"
    using strcpy_loop_cstr [OF assms] by blast
  have "cstr (s\<lparr>mem := m\<rparr>) d xs"
    by (rule cstr_moved [OF assms(1,2) mv])
  then show ?thesis
    using m mv strlen_loop_cstr [of "s\<lparr>mem := m\<rparr>" d xs] by (auto simp: strcpy_def strlen_def kdefs)
qed

theorem strcpy_copies_witness:
  "\<exists>m. strcpy 0x8001c100 0x8001c000 text_state = Inr (0x8001c100, text_state\<lparr>mem := m\<rparr>) \<and>
    strlen 0x8001c100 (text_state\<lparr>mem := m\<rparr>) = Inr (3, text_state\<lparr>mem := m\<rparr>)"
proof -
  have c: "cstr text_state 0x8001c000 [0x63, 0x61, 0x74]" by (simp add: text_byte text_ok)
  have r: "range_ok text_state 0x8001c100 (Suc (length [0x63, 0x61, 0x74 :: u8]))" by (simp add: range_ok_def text_state_def)
  have "0x8001c000 + of_nat k \<noteq> (0x8001c100 :: u64)" if "k \<le> length [0x63, 0x61, 0x74 :: u8]" for k
    using that by (simp add: le_Suc_eq) auto
  with strcpy_copies [OF c r] show ?thesis by fastforce
qed

end
