(* ===== verification/PKE_Vmm.thy ===== *)
theory PKE_Vmm
  imports PKE_Pmm PKE_String
begin

text \<open>
  Virtual memory, \<^verbatim>\<open>kernel/vmm.c\<close>: three-level Sv39 page tables kept in the physical
  memory. \<open>vmap m root\<close> is the mapping a page table implements, a partial function from
  virtual addresses to page table entries; the lemmas say that walking, mapping and
  unmapping refine lookup, update and removal of that function. The tree is kept apart
  from the free list and its nodes apart from each other (\<open>tables_ok\<close>).
\<close>

section \<open>The operations\<close>

definition PROT_NONE :: u32 where [simp]: "PROT_NONE = 0"
definition PROT_READ :: u32 where [simp]: "PROT_READ = 1"
definition PROT_WRITE :: u32 where [simp]: "PROT_WRITE = 2"
definition PROT_EXEC :: u32 where [simp]: "PROT_EXEC = 4"

definition prot_to_type :: "u32 \<Rightarrow> u32 \<Rightarrow> u64" where
  "prot_to_type prot user =
     (let perm = 0;
          perm = (if prot AND PROT_READ \<noteq> 0 then perm OR (PTE_R OR PTE_A) else perm);
          perm = (if prot AND PROT_WRITE \<noteq> 0 then perm OR (PTE_W OR PTE_D) else perm);
          perm = (if prot AND PROT_EXEC \<noteq> 0 then perm OR (PTE_X OR PTE_A) else perm);
          perm = (if perm = 0 then PTE_R else perm);
          perm = (if user \<noteq> 0 then perm OR PTE_U else perm)
      in perm)"

definition pte_valid :: "u64 \<Rightarrow> bool" where
  "pte_valid pte \<longleftrightarrow> pte AND PTE_V \<noteq> 0"

text \<open>
  One iteration of the loop of \<^verbatim>\<open>page_walk\<close>: the table of the next level, or \<open>None\<close>
  where the function returns the null pointer.
\<close>

definition walk_level :: "bool \<Rightarrow> u64 \<Rightarrow> u64 \<Rightarrow> nat \<Rightarrow> u64 option K" where
  "walk_level alloc va pt level =
     (let pte = pt + 8 * PX level va in
      kbind (load64 pte) (\<lambda>v.
        if pte_valid v then kret (Some (PTE2PA v))
        else if alloc then
          kbind alloc_page (\<lambda>pt'.
            if pt' \<noteq> 0
            then kthen (memset pt' 0 PGSIZE)
                (kthen (store64 pte (PA2PTE pt' OR PTE_V)) (kret (Some pt')))
            else kret None)
        else kret None))"

definition page_walk :: "u64 \<Rightarrow> u64 \<Rightarrow> bool \<Rightarrow> u64 K" where
  "page_walk page_dir va alloc =
     kthen (kguard (\<not> va \<ge> MAXVA) (Panic ''page_walk''))
    (kbind (walk_level alloc va page_dir 2) (\<lambda>r. case r of
       None \<Rightarrow> kret 0
     | Some pt \<Rightarrow> kbind (walk_level alloc va pt 1) (\<lambda>r. case r of
         None \<Rightarrow> kret 0
       | Some pt \<Rightarrow> kret (pt + 8 * PX 0 va))))"

lemma page_walk_bound: "page_walk pd va al s = Inr (x, t) \<Longrightarrow> unat va < 0x4000000000"
  by (auto simp: page_walk_def kdefs MAXVA_def word_le_nat_alt split: if_splits)

lemma next_va_less: "unat va < 0x4000000000 \<Longrightarrow> unat (va + 4096 :: u64) = unat va + 4096"
  by (simp add: unat_word_ariths)

function map_pages_loop :: "u64 \<Rightarrow> u64 \<Rightarrow> u64 \<Rightarrow> u64 \<Rightarrow> u64 \<Rightarrow> int K" where
  "map_pages_loop page_dir first lst pa perm s =
     (if first \<le> lst then
        kbind (page_walk page_dir first True) (\<lambda>pte.
          if pte = 0 then kret (- 1)
          else kbind (load64 pte) (\<lambda>v.
            if pte_valid v then kexits (Panic ''map_pages fails on mapping va'')
            else kthen (store64 pte (PA2PTE pa OR perm OR PTE_V))
              (map_pages_loop page_dir (first + PGSIZE) lst (pa + PGSIZE) perm))) s
      else Inr (0, s))"
  by pat_completeness auto
termination
  by (relation "measure (\<lambda>(pd, first, lst, pa, perm, s). 0x4000001000 - unat first)")
     (auto dest!: page_walk_bound simp: next_va_less)

declare map_pages_loop.simps [simp del]

definition map_pages :: "u64 \<Rightarrow> u64 \<Rightarrow> u64 \<Rightarrow> u64 \<Rightarrow> u64 \<Rightarrow> int K" where
  "map_pages page_dir va sz pa perm =
     map_pages_loop page_dir (ROUNDDOWN va PGSIZE) (ROUNDDOWN (va + sz - 1) PGSIZE) pa perm"

definition lookup_pa :: "u64 \<Rightarrow> u64 \<Rightarrow> u64 K" where
  "lookup_pa pt va =
     (if va \<ge> MAXVA then kret 0
      else kbind (page_walk pt va False) (\<lambda>pte.
        if pte = 0 then kret 0
        else kbind (load64 pte) (\<lambda>v.
          if \<not> pte_valid v \<or> v AND PTE_R = 0 \<and> v AND PTE_W = 0 then kret 0
          else kret (PTE2PA v))))"

definition kern_vm_map :: "u64 \<Rightarrow> u64 \<Rightarrow> u64 \<Rightarrow> u64 \<Rightarrow> u64 \<Rightarrow> unit K" where
  "kern_vm_map page_dir va pa sz perm =
     kbind (map_pages page_dir va sz pa perm) (\<lambda>r. kguard (r = 0) (Panic ''kern_vm_map''))"

definition kern_vm_init :: "unit K" where
  "kern_vm_init =
     kbind alloc_page (\<lambda>t_page_dir.
     kthen (memset t_page_dir 0 PGSIZE)
    (kbind (kget (\<lambda>s. sym_etext (kenv s))) (\<lambda>etext.
     kthen (kern_vm_map t_page_dir KERN_BASE DRAM_BASE (etext - KERN_BASE)
              (prot_to_type (PROT_READ OR PROT_EXEC) 0))
    (kbind (lookup_pa t_page_dir KERN_BASE) (\<lambda>_.
     kthen (kern_vm_map t_page_dir etext etext (PHYS_TOP - etext)
              (prot_to_type (PROT_READ OR PROT_WRITE) 0))
    (kbind (lookup_pa t_page_dir etext) (\<lambda>_.
     kmod (\<lambda>s. s\<lparr>g_kernel_pagetable := t_page_dir\<rparr>))))))))"

definition user_va_to_pa :: "u64 \<Rightarrow> u64 \<Rightarrow> u64 K" where
  "user_va_to_pa page_dir va =
     kbind (lookup_pa page_dir va) (\<lambda>page_addr.
       if page_addr = 0 then kret 0
       else kret (page_addr + (va AND (push_bit PGSHIFT 1 - 1))))"

definition user_vm_map :: "u64 \<Rightarrow> u64 \<Rightarrow> u64 \<Rightarrow> u64 \<Rightarrow> u64 \<Rightarrow> unit K" where
  "user_vm_map page_dir va sz pa perm =
     kbind (map_pages page_dir va sz pa perm) (\<lambda>r. kguard (r = 0) (Panic ''fail to user_vm_map .''))"

function unmap_loop :: "u64 \<Rightarrow> u64 \<Rightarrow> u64 \<Rightarrow> bool \<Rightarrow> unit K" where
  "unmap_loop page_dir a lim free s =
     (if a < lim then
        kbind (page_walk page_dir a False) (\<lambda>pte.
          if pte = 0 then kexits (Panic ''uvmunmap: walk'')
          else kbind (load64 pte) (\<lambda>v.
            if \<not> pte_valid v then kexits (Panic ''uvmunmap: not mapped'')
            else if PTE_FLAGS v = PTE_V then kexits (Panic ''uvmunmap: not a leaf'')
            else kthen (if free then kbind (load64 pte) (\<lambda>v. free_page (PTE2PA v)) else kret ())
              (kthen (store64 pte 0) (unmap_loop page_dir (a + PGSIZE) lim free)))) s
      else Inr ((), s))"
  by pat_completeness auto
termination
  by (relation "measure (\<lambda>(pd, a, lim, free, s). 0x4000001000 - unat a)")
     (auto dest!: page_walk_bound simp: next_va_less)

declare unmap_loop.simps [simp del]

definition user_vm_unmap :: "u64 \<Rightarrow> u64 \<Rightarrow> u64 \<Rightarrow> bool \<Rightarrow> unit K" where
  "user_vm_unmap page_dir va sz free =
     kthen (kguard (va mod PGSIZE = 0) (Panic ''uvmunmap: not aligned''))
       (unmap_loop page_dir va (va + sz) free)"

section \<open>Addresses and entries\<close>

text \<open>
  \<open>vpn k va\<close> is the virtual page number of \<open>va\<close> without its \<open>k\<close> lowest 9-bit parts:
  \<open>vpn 0\<close> names the page, \<open>vpn 1\<close> the range one page table covers, \<open>vpn 2\<close> the range of
  one middle directory.
\<close>

definition vpn :: "nat \<Rightarrow> u64 \<Rightarrow> nat" where
  "vpn k va = unat va div 2 ^ (12 + 9 * k)"

lemma vpn_Suc: "vpn (Suc k) va = vpn k va div 512"
  by (simp add: vpn_def div_mult2_eq [symmetric] power_add)

lemma vpn_split: "vpn k va = vpn k va' \<longleftrightarrow>
    vpn (Suc k) va = vpn (Suc k) va' \<and> vpn k va mod 512 = vpn k va' mod 512"
  unfolding vpn_Suc by (metis div_mult_mod_eq)

lemma vpn_top: "unat va < 0x4000000000 \<Longrightarrow> vpn 3 va = 0"
  by (simp add: vpn_def)

lemma unat_PX: "unat (PX k va) = vpn k va mod 512"
proof -
  have "PX k va = take_bit 9 (drop_bit (12 + 9 * k) va)"
    by (simp add: PX_def PXSHIFT_def take_bit_eq_mask mask_eq_exp_minus_1)
  then show ?thesis
    by (simp add: unsigned_take_bit_eq unsigned_drop_bit_eq vpn_def)
       (simp add: take_bit_eq_mod drop_bit_eq_div mod_less [OF unat_u64_less])
qed

lemma PX_eq_iff: "PX k va = PX j vb \<longleftrightarrow> vpn k va mod 512 = vpn j vb mod 512"
  by (simp add: word_unat_eq_iff unat_PX)

definition slot :: "u64 \<Rightarrow> nat \<Rightarrow> u64 \<Rightarrow> u64" where
  "slot t k va = t + 8 * PX k va"

lemma unat_8_PX: "unat (8 * PX k va) = 8 * (vpn k va mod 512)"
  by (simp add: unat_word_ariths unat_PX)

lemma unat_slot: "page_ok s t \<Longrightarrow> unat (slot t k va) = unat t + 8 * (vpn k va mod 512)"
  by (simp add: slot_def page_off unat_8_PX)

definition page_of :: "u64 \<Rightarrow> u64" where
  "page_of a = ROUNDDOWN a 4096"

lemma unat_page_of: "unat (page_of a) = unat a div 4096 * 4096"
  by (simp add: page_of_def unat_ROUNDDOWN)

lemma page_of_off:
  assumes "page_ok s p" and "unat k < 4096"
  shows "page_of (p + k) = p"
proof -
  from assms(1) obtain n where "unat p = 4096 * n"
    by (auto simp: page_ok_def aligned_def mod_eq_0_iff_dvd)
  then show ?thesis
    using assms by (simp add: word_unat_eq_iff unat_page_of page_off)
qed

lemma page_of_page: "page_ok s p \<Longrightarrow> page_of p = p"
  using page_of_off [of s p 0] by simp

lemma page_of_slot: "page_ok s t \<Longrightarrow> page_of (slot t k va) = t"
  unfolding slot_def by (rule page_of_off) (simp_all add: unat_8_PX)

lemma slot_eq_iff:
  assumes "page_ok s t" and "page_ok s t'"
  shows "slot t k va = slot t' j vb \<longleftrightarrow> t = t' \<and> vpn k va mod 512 = vpn j vb mod 512"
proof
  assume eq: "slot t k va = slot t' j vb"
  then have "t = t'" using assms page_of_slot by metis
  with eq show "t = t' \<and> vpn k va mod 512 = vpn j vb mod 512"
    using unat_slot [OF assms(1), of k va] unat_slot [OF assms(2), of j vb] by simp
next
  assume "t = t' \<and> vpn k va mod 512 = vpn j vb mod 512"
  then show "slot t k va = slot t' j vb" by (simp add: slot_def PX_eq_iff [of k va j vb, THEN iffD2])
qed

lemma load64_slot: "page_ok s t \<Longrightarrow> load64 (slot t k va) s = Inr (mem s (slot t k va), s)"
  unfolding slot_def by (rule load64_page) (simp_all add: unat_8_PX)

lemma store64_slot:
  "page_ok s t \<Longrightarrow> store64 (slot t k va) v s = Inr ((), s\<lparr>mem := (mem s)(slot t k va := v)\<rparr>)"
  unfolding slot_def by (rule store64_page) (simp_all add: unat_8_PX)

lemma slot_nonzero: "page_ok s t \<Longrightarrow> slot t k va \<noteq> 0"
  using unat_slot [of s t k va] by (auto simp: page_ok_def word_unat_eq_iff)

lemma page_of_in_block: "page_ok s x \<Longrightarrow> in_block x 4096 a \<Longrightarrow> page_of a = x"
  using page_of_off [of s x "a - x"] by (simp add: in_block_def)

lemma in_block_slot: "page_ok s x \<Longrightarrow> in_block x 4096 (slot x k va)"
  by (simp add: in_block_def slot_def unat_8_PX)

lemma pte_valid_0 [simp]: "\<not> pte_valid 0"
  by (simp add: pte_valid_def)

lemma pte_valid_iff: "pte_valid e \<longleftrightarrow> bit e 0"
  by (auto simp: pte_valid_def and_one_eq bit_0 odd_iff_mod_2_eq_one)

lemma pte_valid_make [simp]: "pte_valid (e OR 1)" "pte_valid (e OR f OR 1)"
  by (simp_all add: pte_valid_iff bit_simps)

lemma PTE2PA_PA2PTE:
  assumes "aligned 4096 p" and "drop_bit 10 f = 0"
  shows "PTE2PA (PA2PTE p OR f) = p"
proof -
  have p: "\<not> bit p n" if "n < 12" for n
  proof -
    have "take_bit 12 p = 0"
      using assms(1) by (simp add: aligned_def word_unat_eq_iff unsigned_take_bit_eq)
        (simp add: take_bit_eq_mod)
    then have "\<not> bit (take_bit 12 p) n" by simp
    then show ?thesis using that by (simp add: bit_simps)
  qed
  have f: "\<not> bit f n" if "n \<ge> 10" for n
  proof -
    have "\<not> bit (drop_bit 10 f) (n - 10)" using assms(2) by simp
    then show ?thesis using that by (simp add: bit_simps)
  qed
  show ?thesis
  proof (rule bit_word_eqI)
    fix n assume "n < LENGTH(64)"
    then show "bit (PTE2PA (PA2PTE p OR f)) n = bit p n"
      using p [of n] f [of "n - 2"]
      by (cases "n < 12") (auto simp: PTE2PA_def PA2PTE_def bit_simps)
  qed
qed

section \<open>The tree of tables\<close>

text \<open>
  \<open>table m root d va\<close> is the table at depth \<open>d\<close> on the path of \<open>va\<close>: the directory at
  depth 0, the page table proper at depth 2. \<open>vmap m root va\<close> is the leaf entry, where
  it is valid.
\<close>

definition child :: "(u64 \<Rightarrow> u64) \<Rightarrow> u64 \<Rightarrow> nat \<Rightarrow> u64 \<Rightarrow> u64 option" where
  "child m t k va = (let e = m (slot t k va) in if pte_valid e then Some (PTE2PA e) else None)"

fun table :: "(u64 \<Rightarrow> u64) \<Rightarrow> u64 \<Rightarrow> nat \<Rightarrow> u64 \<Rightarrow> u64 option" where
  "table m root 0 va = Some root"
| "table m root (Suc d) va = (case table m root d va of
     None \<Rightarrow> None | Some t \<Rightarrow> child m t (2 - d) va)"

definition vmap :: "(u64 \<Rightarrow> u64) \<Rightarrow> u64 \<Rightarrow> u64 \<Rightarrow> u64 option" where
  "vmap m root va = (case table m root 2 va of None \<Rightarrow> None | Some t \<Rightarrow>
     let e = m (slot t 0 va) in if pte_valid e then Some e else None)"

definition tree :: "(u64 \<Rightarrow> u64) \<Rightarrow> u64 \<Rightarrow> nat \<Rightarrow> u64 \<Rightarrow> u64 \<Rightarrow> bool" where
  "tree m root d va t \<longleftrightarrow> d \<le> 2 \<and> unat va < 0x4000000000 \<and> table m root d va = Some t"

text \<open>
  Well-formed page tables: every table is an allocatable page, and each one is reached at
  one depth and for one range of addresses only.
\<close>

definition tables_ok :: "(u64 \<Rightarrow> bool) \<Rightarrow> (u64 \<Rightarrow> u64) \<Rightarrow> u64 \<Rightarrow> bool" where
  "tables_ok ok m root \<longleftrightarrow>
     (\<forall>d va t. tree m root d va t \<longrightarrow> ok t) \<and>
     (\<forall>d d' va va' t. tree m root d va t \<longrightarrow> tree m root d' va' t \<longrightarrow>
        d = d' \<and> vpn (3 - d) va = vpn (3 - d) va')"

lemma tables_okD:
  assumes "tables_ok ok m root"
  shows "tree m root d va t \<Longrightarrow> ok t"
    and "tree m root d va t \<Longrightarrow> tree m root d' va' t \<Longrightarrow> d = d'"
    and "tree m root d va t \<Longrightarrow> tree m root d' va' t \<Longrightarrow> vpn (3 - d) va = vpn (3 - d) va'"
  using assms unfolding tables_ok_def by blast+

lemma table_cong:
  assumes "\<And>d' t. d' < d \<Longrightarrow> table m root d' va = Some t \<Longrightarrow>
    m' (slot t (2 - d') va) = m (slot t (2 - d') va)"
  shows "table m' root d va = table m root d va"
  using assms by (induction d) (auto simp: child_def split: option.splits)

lemma table_vpn:
  "d \<le> 3 \<Longrightarrow> vpn (3 - d) va = vpn (3 - d) va' \<Longrightarrow> table m root d va = table m root d va'"
proof (induction d)
  case (Suc d)
  then have k: "3 - d = Suc (2 - d)" by simp
  with Suc have "vpn (3 - d) va = vpn (3 - d) va'" and "PX (2 - d) va = PX (2 - d) va'"
    using vpn_split [of "2 - d" va va'] by (simp_all add: PX_eq_iff)
  with Suc show ?case by (simp add: child_def slot_def split: option.splits)
qed simp

lemma treeI: "table m root d va = Some t \<Longrightarrow> d \<le> 2 \<Longrightarrow> unat va < 0x4000000000 \<Longrightarrow> tree m root d va t"
  by (simp add: tree_def)

lemma tree_mono:
  assumes "tree m root d va t" and "d' \<le> d"
  shows "\<exists>t'. tree m root d' va t'"
  using assms by (induction d arbitrary: t) (auto simp: tree_def le_Suc_eq split: option.splits)

subsection \<open>Writing a leaf entry\<close>

lemma table_leaf_write:
  assumes "tables_ok (page_ok s) m root" and "tree m root 2 va t"
    and "d \<le> 2" and "unat vb < 0x4000000000"
  shows "table (m(slot t 0 va := v)) root d vb = table m root d vb"
proof (rule table_cong)
  fix d' t' assume "d' < d" and "table m root d' vb = Some t'"
  with assms have t': "tree m root d' vb t'" and "d' \<noteq> 2" by (auto intro: treeI)
  with assms have "t' \<noteq> t" by (metis tables_okD(2))
  with assms t' show "(m(slot t 0 va := v)) (slot t' (2 - d') vb) = m (slot t' (2 - d') vb)"
    using slot_eq_iff [of s t' t "2 - d'" vb 0 va] tables_okD(1) [OF assms(1)] by auto
qed

lemma tree_leaf_write:
  assumes "tables_ok (page_ok s) m root" and "tree m root 2 va t"
  shows "tree (m(slot t 0 va := v)) root = tree m root"
  using table_leaf_write [OF assms] by (auto simp: tree_def fun_eq_iff)

lemma vmap_leaf_write:
  assumes ok: "tables_ok (page_ok s) m root" and t: "tree m root 2 va t"
    and vb: "unat vb < 0x4000000000"
  shows "vmap (m(slot t 0 va := v)) root vb =
    (if vpn 0 vb = vpn 0 va then (if pte_valid v then Some v else None) else vmap m root vb)"
proof (cases "vpn 0 vb = vpn 0 va")
  case True
  then have "vpn 1 vb = vpn 1 va" and "PX 0 vb = PX 0 va"
    using vpn_split [of 0 vb va] by (simp_all add: PX_eq_iff)
  then have "table m root 2 vb = Some t" "slot t 0 vb = slot t 0 va"
    using table_vpn [of 2 vb va m root] t by (simp_all add: tree_def slot_def)
  with True show ?thesis
    using table_leaf_write [OF ok t _ vb, of 2] by (simp add: vmap_def)
next
  case False
  have "slot t' 0 vb \<noteq> slot t 0 va" if "table m root 2 vb = Some t'" for t'
  proof
    assume eq: "slot t' 0 vb = slot t 0 va"
    have t': "tree m root 2 vb t'" using that vb by (simp add: treeI)
    with eq t have "t = t'" "vpn 0 vb mod 512 = vpn 0 va mod 512"
      using slot_eq_iff [of s t' t 0 vb 0 va] tables_okD(1) [OF ok] by auto
    with t t' False show False
      using tables_okD(3) [OF ok t', of 2 va] vpn_split [of 0 vb va] by simp
  qed
  with False show ?thesis
    using table_leaf_write [OF ok t _ vb, of 2] by (auto simp: vmap_def split: option.splits)
qed

subsection \<open>Linking a new table\<close>

definition link :: "u64 \<Rightarrow> u64 \<Rightarrow> (u64 \<Rightarrow> u64) \<Rightarrow> (u64 \<Rightarrow> u64)" where
  "link x a m = (fill x 4096 0 m)(a := PA2PTE x OR PTE_V)"

lemma link_other:
  assumes "page_ok s x" and "page_of a \<noteq> x" and "a \<noteq> b"
  shows "link x b m a = m a"
  using assms page_of_in_block [of s x a] by (auto simp: link_def fill_def)

lemma link_new:
  assumes "page_ok s x" and "slot x k va \<noteq> b"
  shows "link x b m (slot x k va) = 0"
  using assms in_block_slot [of s x k va] by (simp add: link_def fill_def)

lemma child_link_here:
  assumes "page_ok s x"
  shows "child (link x (slot t k va) m) t k va = Some x"
  using assms PTE2PA_PA2PTE [of x 1] by (simp add: child_def link_def page_ok_def)

lemma child_link_new:
  assumes "page_ok s x" and "page_ok s t" and "x \<noteq> t"
  shows "child (link x (slot t k va) m) x j vb = None"
  using assms link_new [of s x j vb "slot t k va" m] slot_eq_iff [of s x t j vb k va]
  by (simp add: child_def)

lemma child_link_other:
  assumes "page_ok s x" and "page_ok s t" and "page_ok s t'" and "t' \<noteq> x"
    and "slot t' j vb \<noteq> slot t k va"
  shows "child (link x (slot t k va) m) t' j vb = child m t' j vb"
  using assms link_other [of s x "slot t' j vb" "slot t k va" m] page_of_slot [of s t' j vb]
  by (simp add: child_def)

lemma table_link:
  assumes ok: "tables_ok (page_ok s) m root" and t: "tree m root d va t" "d < 2"
    and x: "page_ok s x" "\<And>d va. \<not> tree m root d va x"
    and vb: "unat vb < 0x4000000000" and "e \<le> 2"
  shows "table (link x (slot t (2 - d) va) m) root e vb =
    (if d < e \<and> vpn (2 - d) vb = vpn (2 - d) va then (if e = Suc d then Some x else None)
     else table m root e vb)"
  using \<open>e \<le> 2\<close>
proof (induction e)
  case (Suc e)
  let ?m = "link x (slot t (2 - d) va) m"
  note okD = tables_okD [OF ok]
  have xt: "x \<noteq> t" using x(2) t by auto
  have kd: "3 - d = Suc (2 - d)" using t by simp
  have above: "d = e \<Longrightarrow> vpn (2 - d) vb = vpn (2 - d) va \<Longrightarrow> table m root e vb = Some t"
    using t table_vpn [of d vb va m root] vpn_split [of "2 - d" vb va] unfolding kd [symmetric]
    by (auto simp: tree_def)
  show ?case
  proof (cases "d < e \<and> vpn (2 - d) vb = vpn (2 - d) va")
    case True
    with Suc child_link_new [OF x(1) okD(1) [OF t(1)] xt] show ?thesis by simp
  next
    case False
    with Suc have IH: "table ?m root e vb = table m root e vb" by simp
    show ?thesis
    proof (cases "table m root e vb")
      case None
      with IH False above show ?thesis by (auto simp: less_Suc_eq)
    next
      case (Some t')
      with Suc vb have t': "tree m root e vb t'" by (simp add: treeI)
      then have "t' \<noteq> x" using x(2) by auto
      show ?thesis
      proof (cases "slot t' (2 - e) vb = slot t (2 - d) va")
        case True
        then have "t' = t" and idx: "vpn (2 - e) vb mod 512 = vpn (2 - d) va mod 512"
          using slot_eq_iff [OF okD(1) [OF t'] okD(1) [OF t(1)]] by auto
        with t t' have "e = d" "vpn (3 - d) vb = vpn (3 - d) va" using okD(2,3) by metis+
        with idx have "vpn (2 - d) vb = vpn (2 - d) va"
          using vpn_split [of "2 - d" vb va] by (simp add: kd)
        moreover from True \<open>t' = t\<close> \<open>e = d\<close> have "child ?m t (2 - d) vb = child ?m t (2 - d) va"
          by (simp add: child_def)
        ultimately show ?thesis
          using IH Some \<open>t' = t\<close> \<open>e = d\<close> child_link_here [OF x(1)] by simp
      next
        case diff: False
        then have "d = e \<longrightarrow> vpn (2 - d) vb \<noteq> vpn (2 - d) va"
          using above Some PX_eq_iff [of "2 - d" vb "2 - d" va] by (auto simp: slot_def)
        with IH Some False child_link_other [OF x(1) okD(1) [OF t(1)] okD(1) [OF t'] \<open>t' \<noteq> x\<close> diff]
        show ?thesis by (auto simp: less_Suc_eq)
      qed
    qed
  qed
qed simp

lemma tree_link:
  assumes "tables_ok (page_ok s) m root" and "tree m root d va t" "d < 2"
    and "child m t (2 - d) va = None"
    and "page_ok s x" "\<And>d va. \<not> tree m root d va x"
  shows "tree (link x (slot t (2 - d) va) m) root e vb u \<longleftrightarrow> tree m root e vb u \<or>
    e = Suc d \<and> unat vb < 0x4000000000 \<and> vpn (2 - d) vb = vpn (2 - d) va \<and> u = x"
proof (cases "e \<le> 2 \<and> unat vb < 0x4000000000")
  case True
  have "table m root e vb = None" if "d < e" and v: "vpn (2 - d) vb = vpn (2 - d) va"
  proof -
    have "table m root (Suc d) vb = None"
      using table_vpn [of "Suc d" vb va m root] v assms(2-4) by (simp add: tree_def)
    then have "\<not> tree m root e vb u" for u
      using tree_mono [of m root e vb u "Suc d"] that by (auto simp: tree_def)
    with True show ?thesis by (cases "table m root e vb") (auto simp: tree_def)
  qed
  with True assms(3) show ?thesis
    using table_link [OF assms(1-3,5,6), of vb e] by (auto simp: tree_def)
qed (use assms(3) in \<open>auto simp: tree_def\<close>)

lemma tables_ok_link:
  assumes "tables_ok (page_ok s) m root" and "tree m root d va t" "d < 2"
    and "child m t (2 - d) va = None"
    and "page_ok s x" "\<And>d va. \<not> tree m root d va x"
  shows "tables_ok (page_ok s) (link x (slot t (2 - d) va) m) root"
  unfolding tables_ok_def tree_link [OF assms]
  using assms tables_okD [OF assms(1)] by auto

lemma vmap_link:
  assumes "tables_ok (page_ok s) m root" and "tree m root d va t" "d < 2"
    and "child m t (2 - d) va = None"
    and "page_ok s x" "\<And>d va. \<not> tree m root d va x" and "unat vb < 0x4000000000"
  shows "vmap (link x (slot t (2 - d) va) m) root vb = vmap m root vb"
proof (cases "table m root 2 vb")
  case (Some t')
  with assms(7) have t': "tree m root 2 vb t'" by (simp add: treeI)
  note okD = tables_okD [OF assms(1)]
  from t' assms(7) have "table (link x (slot t (2 - d) va) m) root 2 vb = Some t'"
    using tree_link [OF assms(1-6), of 2 vb t'] by (auto simp: tree_def)
  moreover have "t' \<noteq> x" and "t' \<noteq> t"
    using t' assms(2,3,6) okD(2) [OF t', of d va] by auto
  ultimately show ?thesis
    using Some link_other [OF assms(5), of "slot t' 0 vb" "slot t (2 - d) va" m]
      page_of_slot [OF okD(1) [OF t'], of 0 vb] slot_eq_iff [OF okD(1) [OF t'] okD(1) [OF assms(2)]]
    by (simp add: vmap_def tree_def)
next
  case None
  have "link x (slot t (2 - d) va) m (slot x 0 vb) = 0"
    using assms tables_okD(1) [OF assms(1,2)] slot_eq_iff [of s x t 0 vb "2 - d" va]
    by (intro link_new [OF assms(5)]) auto
  then show ?thesis
    using None table_link [OF assms(1-3,5-7), of 2] by (auto simp: vmap_def)
qed

section \<open>Walking and growing a page table\<close>

text \<open>
  \<open>pt_ok s root xs\<close>: the free list is \<open>xs\<close>, the tables under \<open>root\<close> are well formed and
  none of them is free. \<open>mem_erase\<close> forgets what the page allocator works on: two states
  with the same erasure differ in memory, free list and page accounting only. \<open>grows\<close> is
  what walking with allocation may do: it adds tables, and writes to tables only.
\<close>

definition pt_ok :: "kstate \<Rightarrow> u64 \<Rightarrow> u64 list \<Rightarrow> bool" where
  "pt_ok s root xs \<longleftrightarrow> free_pages s xs \<and> tables_ok (page_ok s) (mem s) root \<and>
     (\<forall>d va t. tree (mem s) root d va t \<longrightarrow> t \<notin> set xs)"

definition mem_erase :: "kstate \<Rightarrow> kstate" where
  "mem_erase s = s\<lparr>mem := \<lambda>_. 0, g_free_mem_list := 0,
     procs := map (\<lambda>p. p\<lparr>total_mem_count := 0\<rparr>) (procs s)\<rparr>"

definition grows :: "u64 \<Rightarrow> kstate \<Rightarrow> kstate \<Rightarrow> bool" where
  "grows root s t \<longleftrightarrow> mem_erase t = mem_erase s \<and>
     (\<forall>d va u. tree (mem s) root d va u \<longrightarrow> tree (mem t) root d va u) \<and>
     (\<forall>a. (\<forall>d va. \<not> tree (mem t) root d va (page_of a)) \<longrightarrow> mem t a = mem s a)"

lemma grows_refl [simp]: "grows root s s"
  by (simp add: grows_def)

lemma grows_trans: "grows root s t \<Longrightarrow> grows root t u \<Longrightarrow> grows root s u"
  by (fastforce simp: grows_def)

text \<open>The tables of \<open>t\<close> are those of \<open>s\<close> and pages of \<open>ys\<close>.\<close>

definition tables_from :: "u64 \<Rightarrow> u64 list \<Rightarrow> kstate \<Rightarrow> kstate \<Rightarrow> bool" where
  "tables_from root ys s t \<longleftrightarrow> (\<forall>d va u. tree (mem t) root d va u \<longrightarrow>
     (\<exists>d va. tree (mem s) root d va u) \<or> u \<in> set ys)"

lemma tables_from_same: "tree (mem t) root = tree (mem s) root \<Longrightarrow> tables_from root ys s t"
  by (auto simp: tables_from_def)

lemma tables_from_trans:
  assumes "tables_from root (take n xs) s t" and "tables_from root (take k (drop n xs)) t u"
  shows "tables_from root (take (k + n) xs) s u"
proof -
  have "set (take (k + n) xs) = set (take n xs) \<union> set (take k (drop n xs))"
    by (simp only: add.commute [of k n] take_add set_append)
  with assms show ?thesis unfolding tables_from_def by blast
qed

lemma mem_erase_simps [simp]:
  "mem_erase (s\<lparr>mem := m\<rparr>) = mem_erase s"
  "mem_erase (s\<lparr>g_free_mem_list := x\<rparr>) = mem_erase s"
  "mem_erase (bump_mem_count d s) = mem_erase s"
proof -
  show "mem_erase (bump_mem_count d s) = mem_erase s"
  proof (cases "current s")
    case (Some i)
    then show ?thesis
      by (cases "i < length (procs s)")
         (simp_all add: mem_erase_def bump_mem_count_def map_update list_update_beyond
           list_update_same_conv nth_map)
  qed (simp add: mem_erase_def bump_mem_count_def)
qed (simp_all add: mem_erase_def)

lemma mem_eraseD:
  assumes "mem_erase t = mem_erase s"
  shows "page_ok t = page_ok s" "mem_ok t = mem_ok s" "range_ok t = range_ok s"
    "current t = current s" "ready_queue_head t = ready_queue_head s"
    "length (procs t) = length (procs s)" "kenv t = kenv s" "csr t = csr s"
proof -
  have "free_mem_start_addr (mem_erase t) = free_mem_start_addr (mem_erase s)"
    "free_mem_end_addr (mem_erase t) = free_mem_end_addr (mem_erase s)"
    "current (mem_erase t) = current (mem_erase s)"
    "ready_queue_head (mem_erase t) = ready_queue_head (mem_erase s)"
    "length (procs (mem_erase t)) = length (procs (mem_erase s))"
    "kenv (mem_erase t) = kenv (mem_erase s)" "csr (mem_erase t) = csr (mem_erase s)"
    using assms by simp_all
  then show "page_ok t = page_ok s" "mem_ok t = mem_ok s" "range_ok t = range_ok s"
    "current t = current s" "ready_queue_head t = ready_queue_head s"
    "length (procs t) = length (procs s)" "kenv t = kenv s" "csr t = csr s"
    by (simp_all add: mem_erase_def page_ok_def mem_ok_def range_ok_def fun_eq_iff)
qed

lemma page_ok_range: "page_ok s p \<Longrightarrow> range_ok s p 4096"
  by (simp add: page_ok_def range_ok_def)

lemma page_ok_bump [simp]: "page_ok (bump_mem_count d s) = page_ok s"
  by (simp add: page_ok_def fun_eq_iff)

lemma memset_page:
  "page_ok s p \<Longrightarrow> memset p 0 4096 s = Inr (p, s\<lparr>mem := fill p 4096 0 (mem s)\<rparr>)"
  using memset_zero [of s p 4096] by (simp add: page_ok_range page_ok_aligned8)

lemma free_pages_cong:
  assumes "free_pages s xs" and "page_ok t = page_ok s" and "g_free_mem_list t = g_free_mem_list s"
    and "\<And>x. x \<in> set xs \<Longrightarrow> mem t x = mem s x"
  shows "free_pages t xs"
  using assms chain_cong [of xs "\<lambda>x. ptr (mem t x)" "\<lambda>x. ptr (mem s x)"]
  by (simp add: free_pages_def)

lemma walk_level_valid:
  assumes "page_ok s t"
  shows "child (mem s) t k va = Some u \<Longrightarrow> walk_level al va t k s = Inr (Some u, s)"
    and "child (mem s) t k va = None \<Longrightarrow> walk_level False va t k s = Inr (None, s)"
  using load64_slot [OF assms, of k va]
  by (auto simp: walk_level_def kdefs slot_def child_def Let_def split: if_splits)

lemma walk_level_full:
  assumes "page_ok s t" and "child (mem s) t k va = None" and "free_pages s []"
  shows "walk_level True va t k s = Inr (None, bump_mem_count 1 s)"
  using load64_slot [OF assms(1), of k va] assms(2,3)
  by (auto simp: walk_level_def kdefs slot_def child_def Let_def alloc_page_Nil split: if_splits)

lemma walk_level_alloc:
  assumes "page_ok s t" and "child (mem s) t k va = None" and "free_pages s (x # xs)"
  shows "walk_level True va t k s = Inr (Some x,
    (bump_mem_count 1 (s\<lparr>g_free_mem_list := mem s x\<rparr>))\<lparr>mem := link x (slot t k va) (mem s)\<rparr>)"
proof -
  let ?u = "bump_mem_count 1 (s\<lparr>g_free_mem_list := mem s x\<rparr>)"
  have x: "page_ok s x" "x \<noteq> 0" using assms(3) by (auto simp: free_pages_def page_ok_def)
  have "page_ok ?u x" "page_ok (?u\<lparr>mem := fill x 4096 0 (mem s)\<rparr>) t"
    using x assms(1) by simp_all
  then show ?thesis
    using load64_slot [OF assms(1), of k va] assms(2,3) x
      store64_slot [of "?u\<lparr>mem := fill x 4096 0 (mem s)\<rparr>" t k va "PA2PTE x OR 1"]
      memset_page [of ?u x]
    by (auto simp: walk_level_def kdefs slot_def child_def Let_def alloc_page_Cons link_def
        split: if_splits)
qed

lemma pt_ok_alloc:
  assumes ok: "pt_ok s root (x # xs)" and t: "tree (mem s) root d va t" "d < 2"
    and none: "child (mem s) t (2 - d) va = None"
  defines "s' \<equiv> (bump_mem_count 1 (s\<lparr>g_free_mem_list := mem s x\<rparr>))
      \<lparr>mem := link x (slot t (2 - d) va) (mem s)\<rparr>"
  shows "pt_ok s' root xs" and "grows root s s'" and "tree (mem s') root (Suc d) va x"
    and "tables_from root [x] s s'"
    and "unat vb < 0x4000000000 \<Longrightarrow> vmap (mem s') root vb = vmap (mem s) root vb"
proof -
  have free: "free_pages s (x # xs)" and tab: "tables_ok (page_ok s) (mem s) root"
      and disj: "\<And>d va u. tree (mem s) root d va u \<Longrightarrow> u \<notin> set (x # xs)"
    using ok by (auto simp: pt_ok_def)
  have x: "page_ok s x" "\<And>d va. \<not> tree (mem s) root d va x"
    using free disj by (auto simp: free_pages_def)
  note link = tree_link [OF tab t none x] tables_ok_link [OF tab t none x]
  have m: "mem s' = link x (slot t (2 - d) va) (mem s)" and pok: "page_ok s' = page_ok s"
    by (simp_all add: s'_def)
  have same: "link x (slot t (2 - d) va) (mem s) a = mem s a" if "page_of a \<noteq> x" "page_of a \<noteq> t" for a
    using that link_other [OF x(1)] page_of_slot [OF tables_okD(1) [OF tab t(1)]] by metis
  have xs: "page_ok s y" "page_of y = y" "y \<noteq> x" "y \<noteq> t" if "y \<in> set xs" for y
    using that free disj [OF t(1)] free_pages_distinct [OF free]
    by (auto simp: free_pages_def intro: page_of_page)
  have "free_pages s' xs"
  proof (rule free_pages_cong [OF free_pages_alloc [OF free]])
    show "mem s' y = mem (bump_mem_count 1 (s\<lparr>g_free_mem_list := mem s x\<rparr>)) y" if "y \<in> set xs" for y
      using xs [OF that] same [of y] by (simp add: m)
  qed (simp_all add: s'_def)
  then show "pt_ok s' root xs"
    unfolding pt_ok_def m pok link(1) using link(2) disj free_pages_distinct [OF free] by auto
  show "tree (mem s') root (Suc d) va x"
    unfolding m link(1) using t by (simp add: tree_def)
  show "tables_from root [x] s s'"
    unfolding tables_from_def m link(1) by auto
  show "grows root s s'"
    unfolding grows_def
  proof (intro conjI allI impI)
    show "mem_erase s' = mem_erase s" by (simp add: s'_def)
    show "tree (mem s') root e vb u" if "tree (mem s) root e vb u" for e vb u
      using that unfolding m link(1) by simp
    show "mem s' a = mem s a" if "\<forall>e vb. \<not> tree (mem s') root e vb (page_of a)" for a
      using that t same [of a] \<open>tree (mem s') root (Suc d) va x\<close> unfolding m link(1) by blast
  qed
  show "vmap (mem s') root vb = vmap (mem s) root vb" if "unat vb < 0x4000000000"
    unfolding m by (rule vmap_link [OF tab t none x that])
qed

lemma page_walk_lookup:
  assumes tab: "tables_ok (page_ok s) (mem s) root" and va: "unat va < 0x4000000000"
  shows "page_walk root va False s =
    Inr (case table (mem s) root 2 va of None \<Rightarrow> 0 | Some t \<Rightarrow> slot t 0 va, s)"
proof -
  note ok = tables_okD(1) [OF tab]
  have r: "page_ok s root" using ok [of 0 va root] va by (simp add: tree_def)
  have g: "\<not> MAXVA \<le> va" using va by (simp add: MAXVA_def word_le_nat_alt)
  show ?thesis
  proof (cases "child (mem s) root 2 va")
    case None
    with walk_level_valid(2) [OF r None] g show ?thesis
      by (simp add: page_walk_def kdefs numeral_2_eq_2)
  next
    case (Some t)
    then have t: "page_ok s t" using ok [of 1 va t] va by (simp add: tree_def)
    show ?thesis
    proof (cases "child (mem s) t 1 va")
      case None
      with walk_level_valid(1) [OF r Some] walk_level_valid(2) [OF t None] g Some show ?thesis
        by (simp add: page_walk_def kdefs numeral_2_eq_2)
    next
      case u: (Some u)
      with walk_level_valid(1) [OF r Some] walk_level_valid(1) [OF t u] g Some show ?thesis
        by (simp add: page_walk_def kdefs numeral_2_eq_2 slot_def)
    qed
  qed
qed

lemma lookup_pa_eq:
  assumes tab: "tables_ok (page_ok s) (mem s) root" and va: "unat va < 0x4000000000"
  shows "lookup_pa root va s = Inr (case vmap (mem s) root va of None \<Rightarrow> 0
    | Some e \<Rightarrow> if e AND PTE_R = 0 \<and> e AND PTE_W = 0 then 0 else PTE2PA e, s)"
proof (cases "table (mem s) root 2 va")
  case None
  with page_walk_lookup [OF assms] va show ?thesis
    by (simp add: lookup_pa_def kdefs vmap_def MAXVA_def word_le_nat_alt)
next
  case (Some t)
  then have "page_ok s t" using tables_okD(1) [OF tab, of 2 va t] va by (simp add: tree_def)
  with Some page_walk_lookup [OF assms] va load64_slot [of s t 0 va] slot_nonzero [of s t 0 va]
  show ?thesis
    by (simp add: lookup_pa_def kdefs vmap_def MAXVA_def word_le_nat_alt Let_def)
qed

text \<open>What a walk that may allocate leaves behind.\<close>

definition walked :: "u64 \<Rightarrow> u64 list \<Rightarrow> kstate \<Rightarrow> nat \<Rightarrow> kstate \<Rightarrow> bool" where
  "walked root xs s n t \<longleftrightarrow> pt_ok t root (drop n xs) \<and> grows root s t \<and> tables_from root (take n xs) s t \<and>
     (\<forall>vb. unat vb < 0x4000000000 \<longrightarrow> vmap (mem t) root vb = vmap (mem s) root vb)"

lemma walk_level_grows:
  assumes ok: "pt_ok s root xs" and t: "tree (mem s) root d va t" "d < 2"
    and e: "e = Suc d" and k: "k = 2 - d"
  shows "runs_to (walk_level True va t k) s (\<lambda>r s'.
    \<exists>n \<le> of_bool (child (mem s) t k va = None). walked root xs s n s' \<and>
    (case r of None \<Rightarrow> xs = [] \<and> child (mem s) t k va = None
     | Some u \<Rightarrow> n \<le> length xs \<and> tree (mem s') root e va u))"
proof -
  have pok: "page_ok s t" using ok t(1) by (auto simp: pt_ok_def dest: tables_okD(1))
  have free: "free_pages s xs" using ok by (simp add: pt_ok_def)
  show ?thesis
  proof (cases "child (mem s) t k va")
    case (Some u)
    then have "tree (mem s) root e va u" using t by (simp add: tree_def e k)
    then show ?thesis
      using walk_level_valid(1) [OF pok Some] ok Some by (simp add: runs_to_iff walked_def tables_from_same)
  next
    case none: None
    show ?thesis
    proof (cases xs)
      case Nil
      with walk_level_full [OF pok none] free ok none show ?thesis
        by (auto simp: runs_to_iff walked_def pt_ok_def grows_def free_pages_def tables_from_same)
    next
      case (Cons x ys)
      with walk_level_alloc [OF pok none] free pt_ok_alloc [of s root x ys, OF _ t none [unfolded k]] ok
      show ?thesis by (simp add: runs_to_iff walked_def e none) (auto simp: k intro!: exI [of _ 1])
    qed
  qed
qed

text \<open>\<open>need m root va\<close> is the number of tables missing on the path of \<open>va\<close>.\<close>

definition need :: "(u64 \<Rightarrow> u64) \<Rightarrow> u64 \<Rightarrow> u64 \<Rightarrow> nat" where
  "need m root va = (if table m root 1 va = None then 2 else if table m root 2 va = None then 1 else 0)"

definition walk_post :: "u64 \<Rightarrow> u64 list \<Rightarrow> kstate \<Rightarrow> u64 \<Rightarrow> nat \<Rightarrow> u64 \<Rightarrow> kstate \<Rightarrow> bool" where
  "walk_post root xs s va c r s' \<longleftrightarrow> (\<exists>n \<le> c. walked root xs s n s' \<and>
     (if r = 0 then length xs < c
      else n \<le> length xs \<and> (\<exists>t. tree (mem s') root 2 va t \<and> r = slot t 0 va)))"

lemma page_walk_low:
  assumes n: "n \<le> length xs" and u: "walked root xs s n u" and t: "tree (mem u) root 1 va t"
    and c: "n + of_bool (child (mem u) t 1 va = None) \<le> c"
  shows "runs_to (kbind (walk_level True va t 1) (\<lambda>r. case r of None \<Rightarrow> kret 0
      | Some pt \<Rightarrow> kret (pt + 8 * PX 0 va))) u (walk_post root xs s va c)"
proof (rule runs_to_kbind)
  let ?Q = "\<lambda>r s'. \<exists>j \<le> of_bool (child (mem u) t 1 va = None). walked root (drop n xs) u j s' \<and>
      (case r of None \<Rightarrow> drop n xs = [] \<and> child (mem u) t 1 va = None
       | Some v \<Rightarrow> j \<le> length (drop n xs) \<and> tree (mem s') root 2 va v)"
  show "runs_to (walk_level True va t 1) u ?Q"
    using u t by (intro walk_level_grows [where d = 1]) (simp_all add: walked_def)
  fix r s' assume "?Q r s'"
  then obtain j where j: "j \<le> of_bool (child (mem u) t 1 va = None)" "walked root (drop n xs) u j s'"
      "case r of None \<Rightarrow> drop n xs = [] \<and> child (mem u) t 1 va = None
       | Some v \<Rightarrow> j \<le> length (drop n xs) \<and> tree (mem s') root 2 va v"
    by blast
  have w: "walked root xs s (j + n) s'"
    using u j(2) by (auto simp: walked_def intro: grows_trans tables_from_trans)
  show "runs_to (case r of None \<Rightarrow> kret 0 | Some pt \<Rightarrow> kret (pt + 8 * PX 0 va)) s' (walk_post root xs s va c)"
  proof (cases r)
    case None
    with w j n c show ?thesis
      by (auto simp: walk_post_def intro!: runs_to_kret exI [of _ "j + n"])
  next
    case (Some v)
    with j have v: "tree (mem s') root 2 va v" by simp
    have "tables_ok (page_ok s') (mem s') root" using w by (simp add: walked_def pt_ok_def)
    then have "slot v 0 va \<noteq> 0" using v slot_nonzero tables_okD(1) by blast
    with Some v w j n c show ?thesis
      by (auto simp: slot_def walk_post_def intro!: runs_to_kret exI [of _ "j + n"])
  qed
qed

lemma page_walk_grows:
  assumes ok: "pt_ok s root xs" and va: "unat va < 0x4000000000"
  shows "runs_to (page_walk root va True) s (walk_post root xs s va (need (mem s) root va))"
proof -
  let ?c = "need (mem s) root va"
  have g: "\<not> MAXVA \<le> va" using va by (simp add: MAXVA_def word_le_nat_alt)
  have root: "tree (mem s) root 0 va root" using va by (simp add: tree_def)
  have r: "page_ok s root" using ok root by (auto simp: pt_ok_def dest: tables_okD(1))
  have "runs_to (kbind (walk_level True va root 2) (\<lambda>r. case r of None \<Rightarrow> kret 0
     | Some pt \<Rightarrow> kbind (walk_level True va pt 1) (\<lambda>r. case r of
         None \<Rightarrow> kret 0 | Some pt \<Rightarrow> kret (pt + 8 * PX 0 va)))) s (walk_post root xs s va ?c)"
  proof (cases "child (mem s) root 2 va")
    case (Some t)
    then have "tree (mem s) root 1 va t" "of_bool (child (mem s) t 1 va = None) = ?c"
      using va by (simp_all add: tree_def need_def numeral_2_eq_2)
    moreover have "walked root xs s 0 s" using ok by (simp add: walked_def tables_from_same)
    ultimately show ?thesis
      using page_walk_low [of 0 xs root s s va t ?c] walk_level_valid(1) [OF r Some, of True]
      by (simp add: runs_to_def wp_def kbind_eq)
  next
    case none: None
    then have c: "?c = 2" by (simp add: need_def)
    let ?Q = "\<lambda>r s'. \<exists>n \<le> 1. walked root xs s n s' \<and>
        (case r of None \<Rightarrow> xs = [] | Some u \<Rightarrow> n \<le> length xs \<and> tree (mem s') root 1 va u)"
    show ?thesis
    proof (rule runs_to_kbind [where Q = ?Q])
      show "runs_to (walk_level True va root 2) s ?Q"
        using none
        by (intro runs_to_weaken [OF walk_level_grows [OF ok root, of 1 2]]) (auto split: option.splits)
      fix r s' assume "?Q r s'"
      then obtain n where n: "n \<le> 1" "walked root xs s n s'"
          "case r of None \<Rightarrow> xs = [] | Some u \<Rightarrow> n \<le> length xs \<and> tree (mem s') root 1 va u"
        by blast
      show "runs_to (case r of None \<Rightarrow> kret 0 | Some pt \<Rightarrow> kbind (walk_level True va pt 1)
          (\<lambda>r. case r of None \<Rightarrow> kret 0 | Some pt \<Rightarrow> kret (pt + 8 * PX 0 va))) s' (walk_post root xs s va ?c)"
        using n page_walk_low [of n xs root s s' va _ ?c] unfolding c
        by (cases r) (auto simp: walk_post_def of_bool_def intro!: runs_to_kret exI [of _ n])
    qed
  qed
  then show ?thesis using g by (simp add: page_walk_def runs_to_def wp_eqs del: One_nat_def)
qed

section \<open>Mapping refines function update\<close>

lemma pt_ok_leaf_write:
  fixes v :: u64
  assumes ok: "pt_ok s root xs" and t: "tree (mem s) root 2 va t"
  defines "s' \<equiv> s\<lparr>mem := (mem s)(slot t 0 va := v)\<rparr>"
  shows "pt_ok s' root xs" and "grows root s s'" and "tree (mem s') root = tree (mem s) root"
proof -
  have tab: "tables_ok (page_ok s) (mem s) root" using ok by (simp add: pt_ok_def)
  note tr = tree_leaf_write [OF tab t, of v]
  have pt: "page_of (slot t 0 va) = t" using page_of_slot [OF tables_okD(1) [OF tab t]] .
  have "free_pages s' xs"
  proof (rule free_pages_cong)
    show "free_pages s xs" using ok by (simp add: pt_ok_def)
    show "mem s' x = mem s x" if "x \<in> set xs" for x
    proof -
      have "page_ok s x" and "x \<noteq> t" using that ok t by (auto simp: pt_ok_def free_pages_def)
      then have "x \<noteq> slot t 0 va" using pt page_of_page by metis
      then show ?thesis by (simp add: s'_def)
    qed
  qed (simp_all add: s'_def)
  with ok show "pt_ok s' root xs" by (simp add: pt_ok_def s'_def tr tables_ok_def)
  show "grows root s s'" using t pt by (auto simp: grows_def s'_def tr)
  show "tree (mem s') root = tree (mem s) root" by (simp add: s'_def tr)
qed

text \<open>
  \<open>remapped root xs s n f t\<close>: \<open>t\<close> comes from \<open>s\<close> by taking \<open>n\<close> pages from the free list
  for tables of \<open>root\<close>, whose mapping is now \<open>f\<close>; nothing else has changed.
\<close>

definition remapped ::
  "u64 \<Rightarrow> u64 list \<Rightarrow> kstate \<Rightarrow> nat \<Rightarrow> (u64 \<Rightarrow> u64 option) \<Rightarrow> kstate \<Rightarrow> bool" where
  "remapped root xs s n f t \<longleftrightarrow> n \<le> length xs \<and> pt_ok t root (drop n xs) \<and> grows root s t \<and>
     tables_from root (take n xs) s t \<and>
     (\<forall>vb. unat vb < 0x4000000000 \<longrightarrow> vmap (mem t) root vb = f vb)"

definition map_range :: "(u64 \<Rightarrow> u64 option) \<Rightarrow> u64 \<Rightarrow> nat \<Rightarrow> u64 \<Rightarrow> u64 \<Rightarrow> (u64 \<Rightarrow> u64 option)" where
  "map_range f va n pa perm = (\<lambda>vb. if vpn 0 va \<le> vpn 0 vb \<and> vpn 0 vb < vpn 0 va + n
     then Some (PA2PTE (pa + of_nat (4096 * (vpn 0 vb - vpn 0 va))) OR perm OR PTE_V) else f vb)"

lemma map_step:
  assumes ok: "pt_ok s root xs" and va: "unat va < 0x4000000000"
    and len: "need (mem s) root va \<le> length xs" and free: "vmap (mem s) root va = None"
  shows "\<exists>pte s' n. page_walk root va True s = Inr (pte, s') \<and> pte \<noteq> 0 \<and> n \<le> need (mem s) root va \<and>
    load64 pte s' = Inr (mem s' pte, s') \<and> \<not> pte_valid (mem s' pte) \<and>
    (\<forall>v. pte_valid v \<longrightarrow> (\<exists>u t. store64 pte v s' = Inr ((), u) \<and> tree (mem u) root 2 va t \<and>
      remapped root xs s n (\<lambda>vb. if vpn 0 vb = vpn 0 va then Some v else vmap (mem s) root vb) u))"
proof -
  obtain n t s' where n: "n \<le> need (mem s) root va" "n \<le> length xs" and w: "walked root xs s n s'"
      and r: "page_walk root va True s = Inr (slot t 0 va, s')" and t: "tree (mem s') root 2 va t"
      and nz: "slot t 0 va \<noteq> 0"
    using page_walk_grows [OF ok va] len
    by (auto simp: runs_to_iff walk_post_def split: if_splits)
  then have ok': "pt_ok s' root (drop n xs)" and tab: "tables_ok (page_ok s') (mem s') root"
    by (auto simp: walked_def pt_ok_def)
  have pok: "page_ok s' t" using tables_okD(1) [OF tab t] .
  have "vmap (mem s') root va = None" using w va free by (simp add: walked_def)
  then have inv: "\<not> pte_valid (mem s' (slot t 0 va))"
    using t by (auto simp: vmap_def tree_def Let_def split: if_splits)
  have "remapped root xs s n (\<lambda>vb. if vpn 0 vb = vpn 0 va then Some v else vmap (mem s) root vb)
      (s'\<lparr>mem := (mem s')(slot t 0 va := v)\<rparr>)" if "pte_valid v" for v
    using n w pt_ok_leaf_write [OF ok' t, of v] vmap_leaf_write [OF tab t, of _ v] that
    by (auto simp: remapped_def walked_def tables_from_def intro: grows_trans)
  moreover have "tree (mem (s'\<lparr>mem := (mem s')(slot t 0 va := v)\<rparr>)) root 2 va t" for v
    using tree_leaf_write [OF tab t] t by simp
  ultimately show ?thesis
    using r nz n inv load64_slot [OF pok, of 0 va] store64_slot [OF pok, of 0 va] by blast
qed

lemma vpn_next: "unat va < 0x4000000000 \<Longrightarrow> vpn 0 (va + 4096) = Suc (vpn 0 va)"
  by (simp add: vpn_def next_va_less)

lemma map_range_0: "map_range f va 0 pa perm = f"
  by (auto simp: map_range_def fun_eq_iff)

lemma map_range_Suc:
  assumes "unat va < 0x4000000000"
  shows "map_range (\<lambda>vb. if vpn 0 vb = vpn 0 va then Some (PA2PTE pa OR perm OR PTE_V) else f vb)
      (va + 4096) n (pa + 4096) perm = map_range f va (Suc n) pa perm"
proof
  fix vb
  have "pa + 4096 + of_nat (4096 * (vpn 0 vb - Suc (vpn 0 va))) =
      pa + of_nat (4096 * (vpn 0 vb - vpn 0 va))" if "Suc (vpn 0 va) \<le> vpn 0 vb"
  proof -
    have "vpn 0 vb - vpn 0 va = Suc (vpn 0 vb - Suc (vpn 0 va))" using that by simp
    then show ?thesis by (simp only: mult_Suc_right of_nat_add) simp
  qed
  then show "map_range (\<lambda>vb. if vpn 0 vb = vpn 0 va then Some (PA2PTE pa OR perm OR PTE_V) else f vb)
      (va + 4096) n (pa + 4096) perm vb = map_range f va (Suc n) pa perm vb"
    using assms by (auto simp: map_range_def vpn_next)
qed

lemma remapped_trans:
  assumes "remapped root xs s n f t" and "remapped root (drop n xs) t k g u"
  shows "remapped root xs s (k + n) g u"
  using assms by (auto simp: remapped_def intro: grows_trans tables_from_trans)

lemma remapped_0: "pt_ok s root xs \<Longrightarrow> remapped root xs s 0 (vmap (mem s) root) s"
  by (simp add: remapped_def tables_from_same)

lemma remapped_cong:
  "remapped root xs s n f t \<Longrightarrow> (\<And>vb. unat vb < 0x4000000000 \<Longrightarrow> f vb = g vb) \<Longrightarrow>
   remapped root xs s n g t"
  by (simp add: remapped_def)

text \<open>
  \<open>walk_cost m root va e\<close> bounds the tables that mapping the pages from \<open>va\<close> up to, and
  without, page number \<open>e\<close> takes: those missing for the first page, and one for every
  boundary between the ranges of page tables and of middle directories.
\<close>

definition walk_cost :: "(u64 \<Rightarrow> u64) \<Rightarrow> u64 \<Rightarrow> u64 \<Rightarrow> nat \<Rightarrow> nat" where
  "walk_cost m root va e = need m root va + ((e - 1) div 512 - vpn 1 va) + ((e - 1) div 512 div 512 - vpn 2 va)"

lemma need_0: "tree m root 2 va t \<Longrightarrow> need m root va = 0"
  by (auto simp: need_def tree_def numeral_2_eq_2 split: option.splits)

lemma need_vpn: "vpn 1 va = vpn 1 vb \<Longrightarrow> need m root va = need m root vb"
  using table_vpn [of 2 va vb m root] table_vpn [of 1 va vb m root] vpn_split [of 1 va vb]
  by (simp add: need_def numeral_2_eq_2)

lemma Suc_div_cases: "Suc n div 512 = n div 512 \<or> Suc n div 512 = Suc (n div 512)"
  by (simp add: div_Suc)

lemma cost_step:
  fixes n :: nat
  assumes "b = a \<or> b = Suc a" and "d = c \<or> d = Suc c" and "b = a \<Longrightarrow> n = 0" and "d = c \<Longrightarrow> n \<le> 1"
    and "n \<le> 2" and "b \<le> l" and "d \<le> k" and "b = a \<Longrightarrow> d = c"
  shows "n + (l - b) + (k - d) \<le> l - a + (k - c)"
  using assms by (elim disjE) auto

lemma walk_cost_next:
  assumes t: "tree m root 2 va t" and va: "unat va < 0x4000000000" and e: "Suc (vpn 0 va) < e"
  shows "walk_cost m root (va + 4096) e \<le> walk_cost m root va e"
proof -
  let ?b = "va + 4096"
  have v0: "vpn 0 ?b = Suc (vpn 0 va)" using va by (rule vpn_next)
  have v1: "vpn 1 ?b = vpn 1 va \<or> vpn 1 ?b = Suc (vpn 1 va)"
    using Suc_div_cases [of "vpn 0 va"] vpn_Suc [of 0] v0 by simp
  have v2: "vpn 2 ?b = vpn 1 ?b div 512" "vpn 2 va = vpn 1 va div 512"
    using vpn_Suc [of 1] by (simp_all add: numeral_2_eq_2)
  have "vpn 0 ?b \<le> e - 1" using e v0 by simp
  then have l1: "vpn 1 ?b \<le> (e - 1) div 512" using vpn_Suc [of 0 ?b] by (simp add: div_le_mono)
  then have l2: "vpn 2 ?b \<le> (e - 1) div 512 div 512" unfolding v2 by (simp add: div_le_mono)
  have n0: "need m root ?b = 0" if "vpn 1 ?b = vpn 1 va"
    using need_vpn [OF that] need_0 [OF t] by simp
  have n1: "need m root ?b \<le> 1" if "vpn 2 ?b = vpn 2 va"
    using table_vpn [of 1 ?b va m root] that t by (auto simp: need_def tree_def numeral_2_eq_2 split: option.splits)
  have n2: "need m root ?b \<le> 2" by (simp add: need_def)
  have s2: "vpn 2 ?b = vpn 2 va \<or> vpn 2 ?b = Suc (vpn 2 va)"
    using v1 Suc_div_cases [of "vpn 1 va"] unfolding v2 by auto
  show ?thesis
    unfolding walk_cost_def need_0 [OF t] add_0
    by (rule cost_step [OF v1 s2 n0 n1 n2 l1 l2]) (simp_all add: v2)
qed

lemma map_pages_loop_spec:
  assumes "pt_ok s root xs" and "unat first + 4096 * n \<le> 0x4000000000"
    and "unat lst + 4096 = unat first + 4096 * n" and "0 < n"
    and "walk_cost (mem s) root first (vpn 0 first + n) \<le> length xs"
    and "\<And>vb. vpn 0 first \<le> vpn 0 vb \<Longrightarrow> vpn 0 vb < vpn 0 first + n \<Longrightarrow> unat vb < 0x4000000000 \<Longrightarrow>
      vmap (mem s) root vb = None"
  shows "\<exists>t k. map_pages_loop root first lst pa perm s = Inr (0, t) \<and>
    k \<le> walk_cost (mem s) root first (vpn 0 first + n) \<and>
    remapped root xs s k (map_range (vmap (mem s) root) first n pa perm) t"
  using assms
proof (induction n arbitrary: s xs first pa)
  case (Suc n)
  let ?c = "walk_cost (mem s) root first (vpn 0 first + Suc n)" and ?v = "PA2PTE pa OR perm OR PTE_V"
  from Suc.prems have lt: "unat first < 0x4000000000" and le: "first \<le> lst"
    by (simp_all add: word_le_nat_alt)
  have "vmap (mem s) root first = None" "need (mem s) root first \<le> length xs"
    using Suc.prems(5,6) lt by (simp_all add: walk_cost_def)
  from map_step [OF Suc.prems(1) lt this(2,1)]
  obtain pte s' k where w: "page_walk root first True s = Inr (pte, s')" "pte \<noteq> 0"
      "k \<le> need (mem s) root first"
      "load64 pte s' = Inr (mem s' pte, s')" "\<not> pte_valid (mem s' pte)"
    and all: "\<forall>v. pte_valid v \<longrightarrow> (\<exists>u t. store64 pte v s' = Inr ((), u) \<and> tree (mem u) root 2 first t \<and>
      remapped root xs s k (\<lambda>vb. if vpn 0 vb = vpn 0 first then Some v else vmap (mem s) root vb) u)"
    by auto
  have "pte_valid ?v" by simp
  with all obtain u t2 where st: "store64 pte ?v s' = Inr ((), u)" and t2: "tree (mem u) root 2 first t2"
    and u: "remapped root xs s k
      (\<lambda>vb. if vpn 0 vb = vpn 0 first then Some ?v else vmap (mem s) root vb) u"
    by blast
  have step: "map_pages_loop root first lst pa perm s =
      map_pages_loop root (first + 4096) lst (pa + 4096) perm u"
    using w st le by (simp add: map_pages_loop.simps [of root first lst pa perm s] kdefs)
  show ?case
  proof (cases "n = 0")
    case True
    then have "\<not> first + 4096 \<le> lst" using Suc.prems(3) lt by (simp add: word_le_nat_alt next_va_less)
    then have "map_pages_loop root first lst pa perm s = Inr (0, u)"
      unfolding step by (simp add: map_pages_loop.simps [of root "first + 4096"])
    moreover have "map_range (vmap (mem s) root) first (Suc 0) pa perm =
        (\<lambda>vb. if vpn 0 vb = vpn 0 first then Some ?v else vmap (mem s) root vb)"
      using map_range_Suc [OF lt, of pa perm "vmap (mem s) root" 0] by (simp add: map_range_0)
    ultimately show ?thesis
      using True u w(3) by (auto simp: walk_cost_def intro!: exI [of _ k])
  next
    case False
    have need: "walk_cost (mem u) root (first + 4096) (vpn 0 first + Suc n) + k \<le> ?c"
      using walk_cost_next [OF t2 lt, of "vpn 0 first + Suc n"] False w(3) need_0 [OF t2]
      by (simp add: walk_cost_def)
    have "\<exists>t j. map_pages_loop root (first + 4096) lst (pa + 4096) perm u = Inr (0, t) \<and>
        j \<le> walk_cost (mem u) root (first + 4096) (vpn 0 (first + 4096) + n) \<and>
        remapped root (drop k xs) u j (map_range (vmap (mem u) root) (first + 4096) n (pa + 4096) perm) t"
    proof (rule Suc.IH)
      show "pt_ok u root (drop k xs)" using u by (simp add: remapped_def)
      show "vmap (mem u) root vb = None" if "vpn 0 (first + 4096) \<le> vpn 0 vb"
        "vpn 0 vb < vpn 0 (first + 4096) + n" "unat vb < 0x4000000000" for vb
        using that u Suc.prems(6) lt by (auto simp: remapped_def vpn_next)
    qed (use Suc.prems(2,3,5) lt need False in \<open>simp_all add: next_va_less vpn_next\<close>)
    then obtain t j where t: "map_pages_loop root (first + 4096) lst (pa + 4096) perm u = Inr (0, t)"
        "j \<le> walk_cost (mem u) root (first + 4096) (vpn 0 first + Suc n)"
        "remapped root (drop k xs) u j (map_range (vmap (mem u) root) (first + 4096) n (pa + 4096) perm) t"
      using lt by (auto simp: vpn_next)
    from t(2) need have jk: "j + k \<le> ?c" by linarith
    have "map_range (vmap (mem u) root) (first + 4096) n (pa + 4096) perm vb =
        map_range (vmap (mem s) root) first (Suc n) pa perm vb" if "unat vb < 0x4000000000" for vb
      using u that unfolding map_range_Suc [OF lt, symmetric] by (auto simp: remapped_def map_range_def)
    then have "remapped root xs s (j + k) (map_range (vmap (mem s) root) first (Suc n) pa perm) t"
      by (rule remapped_cong [OF remapped_trans [OF u t(3)]])
    with t(1) jk step show ?thesis by auto
  qed
qed simp

definition npages :: "u64 \<Rightarrow> u64 \<Rightarrow> nat" where
  "npages va sz = Suc (vpn 0 (va + sz - 1) - vpn 0 va)"

lemma vpn_0: "vpn 0 va = unat va div 4096"
  by (simp add: vpn_def)

lemma vpn_page_of [simp]: "vpn 0 (page_of va) = vpn 0 va"
  by (simp add: vpn_0 unat_page_of)

lemma map_range_page_of: "map_range f (page_of va) n pa perm = map_range f va n pa perm"
  by (simp only: map_range_def vpn_page_of)

lemma vmap_vpn: "vpn 0 va = vpn 0 vb \<Longrightarrow> vmap m root va = vmap m root vb"
  using vpn_split [of 0 va vb] table_vpn [of 2 va vb m root] PX_eq_iff [of 0 va 0 vb]
  by (simp add: vmap_def slot_def split: option.splits)

lemma need_vmap: "vmap m root va = Some e \<Longrightarrow> need m root va = 0"
  by (auto simp: need_def vmap_def numeral_2_eq_2 split: option.splits)

lemma unat_last_byte:
  "0 < unat sz \<Longrightarrow> unat va + unat sz \<le> 0x4000000000 \<Longrightarrow>
   unat (va + sz - 1 :: u64) = unat va + unat sz - 1"
  by (subst unat_sub) (auto simp: word_le_nat_alt unat_word_ariths)

lemma map_pages_spec:
  assumes ok: "pt_ok s root xs" and sz: "0 < unat sz" "unat va + unat sz \<le> 0x4000000000"
    and n: "walk_cost (mem s) root va (vpn 0 va + npages va sz) \<le> length xs"
    and free: "\<And>vb. vpn 0 va \<le> vpn 0 vb \<Longrightarrow> vpn 0 vb < vpn 0 va + npages va sz \<Longrightarrow>
      unat vb < 0x4000000000 \<Longrightarrow> vmap (mem s) root vb = None"
  shows "\<exists>t k. map_pages root va sz pa perm s = Inr (0, t) \<and>
    k \<le> walk_cost (mem s) root va (vpn 0 va + npages va sz) \<and>
    remapped root xs s k (map_range (vmap (mem s) root) va (npages va sz) pa perm) t"
proof -
  let ?e = "va + sz - 1"
  have e: "unat ?e = unat va + unat sz - 1" using sz by (rule unat_last_byte)
  have le: "vpn 0 va \<le> vpn 0 ?e" unfolding vpn_0 e using sz by (simp add: div_le_mono)
  have "vpn 0 ?e < 0x4000000" using sz e by (simp add: vpn_0)
  then have b: "unat (page_of va) + 4096 * npages va sz \<le> 0x4000000000"
    using le by (simp add: npages_def unat_page_of vpn_0 [symmetric])
  have l: "unat (page_of ?e) + 4096 = unat (page_of va) + 4096 * npages va sz"
    using le by (simp add: npages_def unat_page_of vpn_0 [symmetric])
  have c: "walk_cost (mem s) root (page_of va) n = walk_cost (mem s) root va n" for n
    using vpn_split [of 0 "page_of va" va] vpn_split [of 1 "page_of va" va]
      need_vpn [of "page_of va" va "mem s" root]
    by (simp add: walk_cost_def numeral_2_eq_2)
  show ?thesis
    using map_pages_loop_spec [OF ok b l, of pa perm] free n
    by (simp add: map_pages_def map_range_page_of page_of_def [symmetric] c npages_def)
qed

lemma map_pages_mapped:
  assumes ok: "pt_ok s root xs" and sz: "0 < unat sz" "unat va + unat sz \<le> 0x4000000000"
    and e: "vmap (mem s) root va = Some e"
  shows "map_pages root va sz pa perm s = Inl (Panic ''map_pages fails on mapping va'')"
proof -
  have le: "page_of va \<le> page_of (va + sz - 1)"
    using sz by (simp add: word_le_nat_alt unat_page_of unat_last_byte div_le_mono)
  have va: "unat (page_of va) < 0x4000000000" using sz by (simp add: unat_page_of)
  have "vmap (mem s) root (page_of va) = Some e" using e vmap_vpn [of "page_of va" va] by simp
  then obtain t s' where w: "walked root xs s 0 s'" and t: "tree (mem s') root 2 (page_of va) t"
      "page_walk root (page_of va) True s = Inr (slot t 0 (page_of va), s')" "slot t 0 (page_of va) \<noteq> 0"
      "vmap (mem s') root (page_of va) = Some e"
    using page_walk_grows [OF ok va] va
    by (auto simp: runs_to_iff walk_post_def walked_def need_vmap split: if_splits)
  have "page_ok s' t" using w t(1) by (auto simp: walked_def pt_ok_def dest: tables_okD(1))
  then show ?thesis
    using t le load64_slot [of s' t 0 "page_of va"]
    by (auto simp: map_pages_def page_of_def [symmetric] map_pages_loop.simps [of root "page_of va"]
        kdefs vmap_def tree_def Let_def split: if_splits)
qed

section \<open>Unmapping refines removal\<close>

lemma tree_frame:
  assumes ok: "tables_ok (page_ok s) m root"
    and same: "\<And>a. \<exists>d va. tree m root d va (page_of a) \<Longrightarrow> m' a = m a"
  shows "tree m' root = tree m root"
    and "unat vb < 0x4000000000 \<Longrightarrow> vmap m' root vb = vmap m root vb"
proof -
  have sl: "m' (slot t k va) = m (slot t k va)" if "tree m root d vb t" for d vb t k va
    using that same page_of_slot [OF tables_okD(1) [OF ok that]] by metis
  have tb: "table m' root d va = table m root d va" if "d \<le> 2" "unat va < 0x4000000000" for d va
    using that by (intro table_cong sl) (auto intro: treeI)
  then show "tree m' root = tree m root" by (auto simp: tree_def fun_eq_iff)
  show "vmap m' root vb = vmap m root vb" if "unat vb < 0x4000000000"
    using tb [of 2 vb] that sl [of 2 vb] by (auto simp: vmap_def tree_def split: option.splits)
qed

lemma pt_ok_free:
  assumes ok: "pt_ok s root xs" and p: "page_ok s p" "p \<notin> set xs"
    and out: "\<And>d va. \<not> tree (mem s) root d va p"
  defines "s' \<equiv> bump_mem_count (- 1)
    (s\<lparr>mem := (mem s)(p := g_free_mem_list s), g_free_mem_list := p\<rparr>)"
  shows "free_page p s = Inr ((), s')" and "pt_ok s' root (p # xs)"
    and "tree (mem s') root = tree (mem s) root"
    and "unat vb < 0x4000000000 \<Longrightarrow> vmap (mem s') root vb = vmap (mem s) root vb"
proof -
  have tab: "tables_ok (page_ok s) (mem s) root" and free: "free_pages s xs"
    using ok by (simp_all add: pt_ok_def)
  have same: "mem s' a = mem s a" if "\<exists>d va. tree (mem s) root d va (page_of a)" for a
    using that out page_of_page [OF p(1)] by (auto simp: s'_def)
  note fr = tree_frame(1) [OF tab same]
  show "free_page p s = Inr ((), s')" unfolding s'_def by (rule free_page_eq [OF p(1)])
  have "free_pages s' (p # xs)" unfolding s'_def by (rule free_pages_free [OF free p])
  moreover have "page_ok s' = page_ok s" by (simp add: s'_def)
  ultimately show "pt_ok s' root (p # xs)"
    using ok out by (auto simp: pt_ok_def fr tables_ok_def)
  show "tree (mem s') root = tree (mem s) root" by (rule fr)
  show "vmap (mem s') root vb = vmap (mem s) root vb" if "unat vb < 0x4000000000"
    by (rule tree_frame(2) [OF tab _ that]) (rule same)
qed

text \<open>
  \<open>backed root va ps\<close>: the pages from \<open>va\<close> on are mapped to \<open>ps\<close>, by entries that are
  not pointers to tables. \<open>unmapped\<close> is the effect of removing them: with \<open>fr\<close>, the pages
  go to the free list, one after the other.
\<close>

definition backed :: "(u64 \<Rightarrow> u64) \<Rightarrow> u64 \<Rightarrow> u64 \<Rightarrow> u64 list \<Rightarrow> bool" where
  "backed m root va ps \<longleftrightarrow> (\<forall>k < length ps. \<forall>vb. vpn 0 vb = vpn 0 va + k \<longrightarrow> unat vb < 0x4000000000 \<longrightarrow>
     (\<exists>e. vmap m root vb = Some e \<and> PTE_FLAGS e \<noteq> PTE_V \<and> PTE2PA e = ps ! k))"

definition loose :: "kstate \<Rightarrow> u64 \<Rightarrow> u64 list \<Rightarrow> u64 list \<Rightarrow> bool" where
  "loose s root xs ps \<longleftrightarrow> distinct ps \<and> (\<forall>p \<in> set ps. page_ok s p \<and> p \<notin> set xs \<and>
     (\<forall>d va. \<not> tree (mem s) root d va p))"

definition unmap_range :: "(u64 \<Rightarrow> u64 option) \<Rightarrow> u64 \<Rightarrow> nat \<Rightarrow> (u64 \<Rightarrow> u64 option)" where
  "unmap_range f va n = (\<lambda>vb. if vpn 0 va \<le> vpn 0 vb \<and> vpn 0 vb < vpn 0 va + n then None else f vb)"

definition unmapped ::
  "u64 \<Rightarrow> u64 list \<Rightarrow> kstate \<Rightarrow> bool \<Rightarrow> u64 list \<Rightarrow> (u64 \<Rightarrow> u64 option) \<Rightarrow> kstate \<Rightarrow> bool" where
  "unmapped root xs s fr ps f t \<longleftrightarrow> pt_ok t root (if fr then rev ps @ xs else xs) \<and>
     mem_erase t = mem_erase s \<and> tree (mem t) root = tree (mem s) root \<and>
     (\<forall>vb. unat vb < 0x4000000000 \<longrightarrow> vmap (mem t) root vb = f vb) \<and>
     (\<forall>a. (\<forall>d va. \<not> tree (mem s) root d va (page_of a)) \<longrightarrow> (fr \<longrightarrow> a \<notin> set ps) \<longrightarrow> mem t a = mem s a)"

lemma unmapped_trans:
  assumes "unmapped root xs s fr [p] f t" and "unmapped root (if fr then p # xs else xs) t fr ps g u"
  shows "unmapped root xs s fr (p # ps) g u"
  using assms by (auto simp: unmapped_def)

lemma unmap_free:
  assumes ok: "pt_ok s root xs" and p: "fr \<Longrightarrow> loose s root xs [p]"
  shows "\<exists>t. (if fr then free_page p else kret ()) s = Inr ((), t) \<and>
    unmapped root xs s fr [p] (vmap (mem s) root) t"
proof (cases fr)
  case True
  with p have l: "page_ok s p" "p \<notin> set xs" "\<And>d va. \<not> tree (mem s) root d va p"
    by (auto simp: loose_def)
  show ?thesis
    using True pt_ok_free [OF ok l] by (auto simp: unmapped_def simp del: bump_mem_count_simps(1))
      (auto)
next
  case False
  with ok show ?thesis by (auto simp: unmapped_def kdefs)
qed

lemma unmap_step:
  assumes ok: "pt_ok s root xs" and va: "unat va < 0x4000000000"
    and e: "vmap (mem s) root va = Some e" and p: "fr \<Longrightarrow> loose s root xs [PTE2PA e]"
  shows "\<exists>pte t u. page_walk root va False s = Inr (pte, s) \<and> pte \<noteq> 0 \<and> load64 pte s = Inr (e, s) \<and>
    (if fr then free_page (PTE2PA e) else kret ()) s = Inr ((), t) \<and> store64 pte 0 t = Inr ((), u) \<and>
    unmapped root xs s fr [PTE2PA e] (\<lambda>vb. if vpn 0 vb = vpn 0 va then None else vmap (mem s) root vb) u"
proof -
  have tab: "tables_ok (page_ok s) (mem s) root" using ok by (simp add: pt_ok_def)
  obtain t0 where t0: "table (mem s) root 2 va = Some t0" "mem s (slot t0 0 va) = e"
    using e by (auto simp: vmap_def Let_def split: option.splits if_splits)
  then have tr: "tree (mem s) root 2 va t0" using va by (simp add: treeI)
  note pok = tables_okD(1) [OF tab tr]
  obtain t where t: "(if fr then free_page (PTE2PA e) else kret ()) s = Inr ((), t)"
      and ut: "unmapped root xs s fr [PTE2PA e] (vmap (mem s) root) t"
    using unmap_free [OF ok p] by blast
  let ?u = "t\<lparr>mem := (mem t)(slot t0 0 va := 0)\<rparr>"
  have okt: "pt_ok t root (if fr then PTE2PA e # xs else xs)" and trt: "tree (mem t) root 2 va t0"
      and pt: "page_ok t t0"
    using ut tr pok mem_eraseD(1) [of t s] by (auto simp: unmapped_def)
  have tabt: "tables_ok (page_ok t) (mem t) root" using okt by (simp add: pt_ok_def)
  have "unmapped root xs s fr [PTE2PA e] (\<lambda>vb. if vpn 0 vb = vpn 0 va then None else vmap (mem s) root vb) ?u"
    using ut pt_ok_leaf_write(1) [OF okt trt, of 0] vmap_leaf_write [OF tabt trt, of _ 0]
      tree_leaf_write [OF tabt trt, of 0] page_of_slot [OF pt, of 0 va] tr
    by (auto simp: unmapped_def)
  then show ?thesis
    using page_walk_lookup [OF tab va] t0 slot_nonzero [OF pok] load64_slot [OF pok, of 0 va]
      store64_slot [OF pt, of 0 va 0] t by auto
qed

lemma backed_Cons:
  assumes "backed m root va (p # ps)" and va: "unat va < 0x4000000000"
  shows "\<exists>e. vmap m root va = Some e \<and> PTE_FLAGS e \<noteq> PTE_V \<and> PTE2PA e = p"
    and "(\<And>vb. unat vb < 0x4000000000 \<Longrightarrow>
        vmap m' root vb = (if vpn 0 vb = vpn 0 va then None else vmap m root vb)) \<Longrightarrow>
      backed m' root (va + 4096) ps"
proof -
  show "\<exists>e. vmap m root va = Some e \<and> PTE_FLAGS e \<noteq> PTE_V \<and> PTE2PA e = p"
    using assms by (fastforce simp: backed_def)
  have "\<exists>e. vmap m root vb = Some e \<and> PTE_FLAGS e \<noteq> PTE_V \<and> PTE2PA e = ps ! k"
    if "k < length ps" "vpn 0 vb = Suc (vpn 0 va + k)" "unat vb < 0x4000000000" for k vb
    using assms(1) that unfolding backed_def by (metis Suc_less_eq add_Suc_right length_Cons nth_Cons_Suc)
  then show "backed m' root (va + 4096) ps"
    if "\<And>vb. unat vb < 0x4000000000 \<Longrightarrow>
        vmap m' root vb = (if vpn 0 vb = vpn 0 va then None else vmap m root vb)"
    using that va by (auto simp: backed_def vpn_next)
qed

lemma loose_Cons:
  assumes "loose s root xs (p # ps)"
  shows "loose s root xs [p]"
    and "mem_erase t = mem_erase s \<Longrightarrow> tree (mem t) root = tree (mem s) root \<Longrightarrow> loose t root (p # xs) ps"
  using assms mem_eraseD(1) [of t s] by (auto simp: loose_def)

lemma unmap_loop_spec:
  assumes "pt_ok s root xs" and "unat a + 4096 * length ps \<le> 0x4000000000"
    and "unat lim = unat a + 4096 * length ps" and "backed (mem s) root a ps"
    and "fr \<Longrightarrow> loose s root xs ps"
  shows "\<exists>t. unmap_loop root a lim fr s = Inr ((), t) \<and>
    unmapped root xs s fr ps (unmap_range (vmap (mem s) root) a (length ps)) t"
  using assms
proof (induction ps arbitrary: s xs a)
  case Nil
  then show ?case
    by (auto simp: unmap_loop.simps [of root a lim fr s] word_less_nat_alt unmapped_def unmap_range_def)
next
  case (Cons p ps)
  then have lt: "unat a < 0x4000000000" "a < lim" by (auto simp: word_less_nat_alt)
  obtain e where e: "vmap (mem s) root a = Some e" "PTE_FLAGS e \<noteq> PTE_V" "PTE2PA e = p"
    using backed_Cons(1) [OF Cons.prems(4) lt(1)] by blast
  have "loose s root xs [PTE2PA e]" if fr
    using loose_Cons(1) Cons.prems(5) [OF that] e(3) by blast
  with unmap_step [OF Cons.prems(1) lt(1) e(1), of fr] obtain pte t u where
    w: "page_walk root a False s = Inr (pte, s)" "pte \<noteq> 0" "load64 pte s = Inr (e, s)"
      "(if fr then free_page p else kret ()) s = Inr ((), t)" "store64 pte 0 t = Inr ((), u)"
    and u: "unmapped root xs s fr [p] (\<lambda>vb. if vpn 0 vb = vpn 0 a then None else vmap (mem s) root vb) u"
    unfolding e(3) by blast
  have "\<exists>v. unmap_loop root (a + 4096) lim fr u = Inr ((), v) \<and>
    unmapped root (if fr then p # xs else xs) u fr ps (unmap_range (vmap (mem u) root) (a + 4096) (length ps)) v"
  proof (rule Cons.IH)
    show "pt_ok u root (if fr then p # xs else xs)" using u by (auto simp: unmapped_def)
    show "backed (mem u) root (a + 4096) ps"
      using u by (intro backed_Cons(2) [OF Cons.prems(4) lt(1)]) (auto simp: unmapped_def)
    show "loose u root (if fr then p # xs else xs) ps" if fr
      using that u loose_Cons(2) [OF Cons.prems(5) [OF that], of u] by (simp add: unmapped_def)
  qed (use Cons.prems(2,3) lt in \<open>simp_all add: next_va_less\<close>)
  then obtain v where v: "unmap_loop root (a + 4096) lim fr u = Inr ((), v)"
      "unmapped root xs s fr (p # ps) (unmap_range (vmap (mem u) root) (a + 4096) (length ps)) v"
    using unmapped_trans [OF u] by blast
  have "unmap_range (vmap (mem u) root) (a + 4096) (length ps) vb =
      unmap_range (vmap (mem s) root) a (length (p # ps)) vb" if "unat vb < 0x4000000000" for vb
    using u that by (auto simp: unmapped_def unmap_range_def vpn_next [OF lt(1)])
  with v have "unmapped root xs s fr (p # ps) (unmap_range (vmap (mem s) root) a (length (p # ps))) v"
    by (auto simp: unmapped_def)
  moreover have "(if fr then kbind (load64 pte) (\<lambda>v. free_page (PTE2PA v)) else kret ()) s = Inr ((), t)"
    using w(3,4) e(3) by (auto simp: kbind_eq)
  moreover have "pte_valid e"
    using e(1) by (auto simp: vmap_def Let_def split: option.splits if_splits)
  ultimately show ?case
    using w v(1) lt(2) e(2)
    by (simp add: unmap_loop.simps [of root a lim fr s] kthen_eq kbind_eq)
qed

section \<open>New page tables, translation\<close>

lemma table_zero:
  assumes "page_ok s x" and "\<And>a. in_block x 4096 a \<Longrightarrow> m a = 0"
  shows "table m x (Suc d) va = None"
proof (induction d)
  case 0
  then show ?case
    using assms in_block_slot [of s x] by (simp add: child_def)
qed simp

lemma pt_ok_fresh:
  assumes x: "page_ok s x" and free: "free_pages s xs" "x \<notin> set xs"
    and zero: "\<And>a. in_block x 4096 a \<Longrightarrow> mem s a = 0"
  shows "pt_ok s x xs" and "vmap (mem s) x vb = None"
    and "tree (mem s) x d va t \<longleftrightarrow> d = 0 \<and> unat va < 0x4000000000 \<and> t = x"
proof -
  note none = table_zero [OF x zero]
  show tr: "tree (mem s) x d va t \<longleftrightarrow> d = 0 \<and> unat va < 0x4000000000 \<and> t = x" for d va t
    by (cases d) (auto simp: tree_def none simp del: table.simps(2))
  show "vmap (mem s) x vb = None" by (simp add: vmap_def numeral_2_eq_2 none del: table.simps(2))
  show "pt_ok s x xs"
    using x free by (simp add: pt_ok_def tables_ok_def tr) (auto simp: vpn_top)
qed

lemma fill_page_free:
  assumes "free_pages s (x # xs)"
  shows "free_pages ((bump_mem_count 1 (s\<lparr>g_free_mem_list := mem s x\<rparr>))\<lparr>mem := fill x 4096 v (mem s)\<rparr>) xs"
proof (rule free_pages_cong [OF free_pages_alloc [OF assms]])
  fix y assume y: "y \<in> set xs"
  then have "page_ok s y" "page_ok s x" "y \<noteq> x"
    using assms free_pages_distinct [OF assms] by (auto simp: free_pages_def)
  then have "\<not> in_block x 4096 y" using page_of_in_block [of s x y] page_of_page [of s y] by auto
  then show "mem ((bump_mem_count 1 (s\<lparr>g_free_mem_list := mem s x\<rparr>))\<lparr>mem := fill x 4096 v (mem s)\<rparr>) y =
      mem (bump_mem_count 1 (s\<lparr>g_free_mem_list := mem s x\<rparr>)) y"
    by (simp add: fill_def)
qed simp_all

lemma fresh_page_table:
  assumes free: "free_pages s (x # xs)"
  shows "\<exists>t. kbind alloc_page (\<lambda>p. kthen (memset p 0 PGSIZE) (kret p)) s = Inr (x, t) \<and>
    page_ok t = page_ok s \<and> pt_ok t x xs \<and> (\<forall>vb. vmap (mem t) x vb = None) \<and>
    mem_erase t = mem_erase s \<and> mem t = fill x 4096 0 (mem s) \<and>
    (\<forall>d va u. tree (mem t) x d va u \<longleftrightarrow> d = 0 \<and> unat va < 0x4000000000 \<and> u = x)"
proof -
  let ?u = "bump_mem_count 1 (s\<lparr>g_free_mem_list := mem s x\<rparr>)"
  let ?t = "?u\<lparr>mem := fill x 4096 0 (mem s)\<rparr>"
  have x: "page_ok s x" "x \<notin> set xs" using free free_pages_distinct [OF free] by (auto simp: free_pages_def)
  have "pt_ok ?t x xs" "vmap (mem ?t) x vb = None"
      "tree (mem ?t) x d va u \<longleftrightarrow> d = 0 \<and> unat va < 0x4000000000 \<and> u = x" for vb d va u
    using x fill_page_free [OF free, of 0]
    by (intro pt_ok_fresh; simp add: fill_def)+
  then show ?thesis
    using x memset_page [of ?u x] by (auto simp: kdefs alloc_page_Cons [OF free])
qed

lemma and_page_mask: "unat ((va :: u64) AND 4095) = unat va mod 4096"
proof -
  have "va AND 4095 = take_bit 12 va" by (simp add: take_bit_eq_mask mask_eq_exp_minus_1)
  then show ?thesis
    by (simp add: unsigned_take_bit_eq) (simp add: take_bit_eq_mod)
qed

lemma user_va_to_pa_eq:
  assumes "tables_ok (page_ok s) (mem s) root" and "unat va < 0x4000000000"
  shows "user_va_to_pa root va s = Inr (case vmap (mem s) root va of None \<Rightarrow> 0
    | Some e \<Rightarrow> if (e AND PTE_R = 0 \<and> e AND PTE_W = 0) \<or> PTE2PA e = 0 then 0
        else PTE2PA e + (va AND 4095), s)"
  using lookup_pa_eq [OF assms]
  by (auto simp: user_va_to_pa_def kdefs split: option.splits)

definition leaf_perm :: "u64 \<Rightarrow> bool" where
  "leaf_perm perm \<longleftrightarrow> drop_bit 10 perm = 0 \<and> (perm AND PTE_R \<noteq> 0 \<or> perm AND PTE_W \<noteq> 0)"

lemma leaf_entry:
  assumes "aligned 4096 p" and "leaf_perm perm"
  shows "PTE2PA (PA2PTE p OR perm OR PTE_V) = p"
    and "\<not> ((PA2PTE p OR perm OR PTE_V) AND PTE_R = 0 \<and> (PA2PTE p OR perm OR PTE_V) AND PTE_W = 0)"
    and "PTE_FLAGS (PA2PTE p OR perm OR PTE_V) \<noteq> PTE_V"
proof -
  have "drop_bit 10 (perm OR 1) = 0"
    using assms(2) by (simp add: leaf_perm_def drop_bit_or)
  then show "PTE2PA (PA2PTE p OR perm OR PTE_V) = p"
    using PTE2PA_PA2PTE [OF assms(1), of "perm OR 1"] by (simp add: ac_simps)
  have and_bit: "x AND push_bit n 1 \<noteq> 0 \<longleftrightarrow> bit x n" if "n < 64" for x :: u64 and n
    using that by (metis and_exp_eq_0_iff_not_bit push_bit_of_1)
  have b: "bit perm 1 \<or> bit perm 2"
    using assms(2) and_bit [of 1 perm] and_bit [of 2 perm] by (auto simp: leaf_perm_def)
  then show "\<not> ((PA2PTE p OR perm OR PTE_V) AND PTE_R = 0 \<and> (PA2PTE p OR perm OR PTE_V) AND PTE_W = 0)"
    using and_bit [of 1 "PA2PTE p OR perm OR PTE_V"] and_bit [of 2 "PA2PTE p OR perm OR PTE_V"]
    by (auto simp: bit_simps)
  show "PTE_FLAGS (PA2PTE p OR perm OR PTE_V) \<noteq> PTE_V"
  proof
    assume "PTE_FLAGS (PA2PTE p OR perm OR PTE_V) = PTE_V"
    then have "bit (PTE_FLAGS (PA2PTE p OR perm OR PTE_V)) n = bit (1::u64) n" for n by simp
    from this [of 1] this [of 2] b show False
      by (auto simp: PTE_FLAGS_def bit_simps bit_1_iff)
  qed
qed

section \<open>The kernel page table\<close>

lemma runs_kern_vm_map:
  assumes "map_pages root va sz pa perm s = Inr (0, t)"
  shows "kern_vm_map root va pa sz perm s = Inr ((), t)"
  using assms by (simp add: kern_vm_map_def kdefs)

definition kernel_map :: "u64 \<Rightarrow> u64 \<Rightarrow> u64 option" where
  "kernel_map etext va =
     (if vpn 0 KERN_BASE \<le> vpn 0 va \<and> vpn 0 va < vpn 0 etext
      then Some (PA2PTE (page_of va) OR prot_to_type (PROT_READ OR PROT_EXEC) 0 OR PTE_V)
      else if vpn 0 etext \<le> vpn 0 va \<and> vpn 0 va < vpn 0 PHYS_TOP
      then Some (PA2PTE (page_of va) OR prot_to_type (PROT_READ OR PROT_WRITE) 0 OR PTE_V)
      else None)"

lemma page_of_vpn:
  assumes "aligned 4096 base" and "vpn 0 base \<le> vpn 0 va"
  shows "base + of_nat (4096 * (vpn 0 va - vpn 0 base)) = page_of va"
proof -
  have b: "unat base = 4096 * vpn 0 base" using assms(1) by (simp add: aligned_def vpn_0) auto
  have "4096 * (vpn 0 va - vpn 0 base) + unat base = unat (page_of va)"
    using assms(2) unfolding b by (simp add: unat_page_of vpn_0)
  then have "(of_nat (4096 * (vpn 0 va - vpn 0 base) + unat base) :: u64) = of_nat (unat (page_of va))"
    by (simp only:)
  then show ?thesis by (simp add: add.commute)
qed

lemma vpn_bounds:
  assumes "0x80000 \<le> vpn 0 va" and "vpn 0 va \<le> 0x88000"
  shows "0x400 \<le> vpn 1 va" "vpn 2 va = 2"
proof -
  have "vpn 1 va = vpn 0 va div 512" "vpn 2 va = vpn 0 va div 512 div 512"
    using vpn_Suc [of 0 va] vpn_Suc [of 1 va] by (simp_all add: numeral_2_eq_2)
  then show "0x400 \<le> vpn 1 va" "vpn 2 va = 2"
    using assms by simp_all
qed

lemma walk_cost_kernel:
  assumes "0x80000 \<le> vpn 0 va" and "vpn 0 va < e" and "e \<le> 0x88000"
  shows "walk_cost m root va e \<le> 65"
proof -
  have "(e - 1) div 512 \<le> 0x43f" "(e - 1) div 512 div 512 \<le> 2"
    using assms by simp_all
  moreover have "0x400 \<le> vpn 1 va" "vpn 2 va = 2" using vpn_bounds [of va] assms by simp_all
  moreover have "need m root va \<le> 2" by (simp add: need_def)
  ultimately show ?thesis by (simp add: walk_cost_def)
qed

lemma kernel_map_pages:
  assumes ok: "pt_ok s root xs" "65 \<le> length xs"
    and va: "aligned 4096 va" "aligned 4096 e" "KERN_BASE \<le> va" "va < e" "e \<le> PHYS_TOP"
    and free: "\<And>vb. vpn 0 va \<le> vpn 0 vb \<Longrightarrow> vpn 0 vb < vpn 0 e \<Longrightarrow> unat vb < 0x4000000000 \<Longrightarrow>
      vmap (mem s) root vb = None"
  shows "\<exists>t k. map_pages root va (e - va) va perm s = Inr (0, t) \<and> k \<le> 65 \<and> remapped root xs s k
    (\<lambda>vb. if vpn 0 va \<le> vpn 0 vb \<and> vpn 0 vb < vpn 0 e
      then Some (PA2PTE (page_of vb) OR perm OR PTE_V) else vmap (mem s) root vb) t"
proof -
  have u: "unat (e - va) = unat e - unat va" "unat va < unat e" "unat e \<le> 0x88000000" "0x80000000 \<le> unat va"
    using va by (simp_all add: unat_sub word_le_nat_alt word_less_nat_alt)
  then have sz: "0 < unat (e - va)" "unat va + unat (e - va) \<le> 0x4000000000" by simp_all
  have al: "unat va = 4096 * vpn 0 va" "unat e = 4096 * vpn 0 e"
    using va(1,2) by (auto simp: aligned_def vpn_0)
  have pred: "(4096 * n - 1) div 4096 = n - 1" for n :: nat by (cases n) simp_all
  have "vpn 0 (va + (e - va) - 1) = (unat e - 1) div 4096"
    using unat_last_byte [OF sz] u by (simp add: vpn_0)
  also have "\<dots> = vpn 0 e - 1" by (simp only: al(2) pred)
  finally have "vpn 0 (va + (e - va) - 1) = vpn 0 e - 1" .
  moreover have "vpn 0 va < vpn 0 e" using u(2) unfolding al by simp
  ultimately have n: "vpn 0 va + npages va (e - va) = vpn 0 e" by (simp add: npages_def)
  have c: "walk_cost (mem s) root va (vpn 0 e) \<le> 65"
    using u al by (intro walk_cost_kernel) simp_all
  then have "walk_cost (mem s) root va (vpn 0 e) \<le> length xs" using ok(2) by simp
  from map_pages_spec [OF ok(1) sz, of va perm, unfolded n, OF this free] obtain t k where
      "map_pages root va (e - va) va perm s = Inr (0, t)" "k \<le> walk_cost (mem s) root va (vpn 0 e)"
      "remapped root xs s k (map_range (vmap (mem s) root) va (npages va (e - va)) va perm) t"
    by blast
  moreover have "map_range (vmap (mem s) root) va (npages va (e - va)) va perm =
      (\<lambda>vb. if vpn 0 va \<le> vpn 0 vb \<and> vpn 0 vb < vpn 0 e
        then Some (PA2PTE (page_of vb) OR perm OR PTE_V) else vmap (mem s) root vb)"
  proof
    fix vb
    show "map_range (vmap (mem s) root) va (npages va (e - va)) va perm vb =
        (if vpn 0 va \<le> vpn 0 vb \<and> vpn 0 vb < vpn 0 e
         then Some (PA2PTE (page_of vb) OR perm OR PTE_V) else vmap (mem s) root vb)"
      by (cases "vpn 0 va \<le> vpn 0 vb") (simp_all only: map_range_def n page_of_vpn [OF va(1)] simp_thms if_False)
  qed
  ultimately show ?thesis using le_trans [OF _ c] by auto
qed

lemma kern_vm_init_spec:
  assumes free: "free_pages s (x # xs)" and len: "130 \<le> length xs"
    and e: "KERN_BASE < sym_etext (kenv s)" "sym_etext (kenv s) < PHYS_TOP" "aligned 4096 (sym_etext (kenv s))"
  shows "\<exists>t k. kern_vm_init s = Inr ((), t) \<and> k \<le> 130 \<and> pt_ok t x (drop k xs) \<and> g_kernel_pagetable t = x \<and>
    (\<forall>vb. unat vb < 0x4000000000 \<longrightarrow> vmap (mem t) x vb = kernel_map (sym_etext (kenv s)) vb)"
proof -
  let ?e = "sym_etext (kenv s)"
  let ?rx = "prot_to_type (PROT_READ OR PROT_EXEC) 0" and ?rw = "prot_to_type (PROT_READ OR PROT_WRITE) 0"
  obtain s1 where s1: "kbind alloc_page (\<lambda>p. kthen (memset p 0 PGSIZE) (kret p)) s = Inr (x, s1)"
      "pt_ok s1 x xs" "\<forall>vb. vmap (mem s1) x vb = None" "mem_erase s1 = mem_erase s"
    using fresh_page_table [OF free] by blast
  then have env: "kenv s1 = kenv s" using mem_eraseD(7) by blast
  have al: "aligned 4096 KERN_BASE" "aligned 4096 PHYS_TOP" by (simp_all add: aligned_def)
  have le: "?e \<le> PHYS_TOP" "KERN_BASE \<le> ?e" using e by simp_all
  have len1: "65 \<le> length xs" and free1: "\<And>vb. vmap (mem s1) x vb = None" using len s1(3) by auto
  from kernel_map_pages [OF s1(2) len1 al(1) e(3) order_refl e(1) le(1) free1, of ?rx]
  obtain s2 k where s2: "map_pages x KERN_BASE (?e - KERN_BASE) KERN_BASE ?rx s1 = Inr (0, s2)" "k \<le> 65"
      "remapped x xs s1 k (\<lambda>vb. if vpn 0 KERN_BASE \<le> vpn 0 vb \<and> vpn 0 vb < vpn 0 ?e
         then Some (PA2PTE (page_of vb) OR ?rx OR PTE_V) else vmap (mem s1) x vb) s2"
    by blast
  then have ok2: "pt_ok s2 x (drop k xs)" and tab2: "tables_ok (page_ok s2) (mem s2) x"
      and v2: "\<And>vb. unat vb < 0x4000000000 \<Longrightarrow> vmap (mem s2) x vb =
        (if vpn 0 KERN_BASE \<le> vpn 0 vb \<and> vpn 0 vb < vpn 0 ?e
         then Some (PA2PTE (page_of vb) OR ?rx OR PTE_V) else None)"
    using s1(3) by (auto simp: remapped_def pt_ok_def)
  have len2: "65 \<le> length (drop k xs)" using len s2(2) by simp
  have free2: "vmap (mem s2) x vb = None" if "vpn 0 ?e \<le> vpn 0 vb" "unat vb < 0x4000000000" for vb
    using v2 [OF that(2)] that(1) by simp
  from kernel_map_pages [OF ok2 len2 e(3) al(2) le(2) e(2) order_refl free2, of ?rw]
  obtain s3 j where s3: "map_pages x ?e (PHYS_TOP - ?e) ?e ?rw s2 = Inr (0, s3)" "j \<le> 65"
      "remapped x (drop k xs) s2 j (\<lambda>vb. if vpn 0 ?e \<le> vpn 0 vb \<and> vpn 0 vb < vpn 0 PHYS_TOP
         then Some (PA2PTE (page_of vb) OR ?rw OR PTE_V) else vmap (mem s2) x vb) s3"
    by blast
  then have ok3: "pt_ok s3 x (drop (j + k) xs)" and tab3: "tables_ok (page_ok s3) (mem s3) x"
      and v3: "\<And>vb. unat vb < 0x4000000000 \<Longrightarrow> vmap (mem s3) x vb = kernel_map ?e vb"
    using v2 by (auto simp: remapped_def pt_ok_def kernel_map_def)
  have "unat ?e < 0x4000000000" using e by (simp add: word_less_nat_alt)
  then have "kern_vm_init s = Inr ((), s3\<lparr>g_kernel_pagetable := x\<rparr>)"
    using s1(1) s2(1) s3(1) env lookup_pa_eq [OF tab2, of KERN_BASE] lookup_pa_eq [OF tab3, of ?e]
    by (auto simp: kern_vm_init_def kdefs runs_kern_vm_map split: sum.splits prod.splits)
  moreover have "pt_ok (s3\<lparr>g_kernel_pagetable := x\<rparr>) x (drop (j + k) xs)"
    using ok3 by (simp add: pt_ok_def free_pages_def page_ok_def tables_ok_def)
  ultimately show ?thesis using v3 s2(2) s3(2) by (auto intro!: exI [of _ "j + k"])
qed

section \<open>Properties\<close>

text \<open>A small state for the examples: eight pages, the first an empty page table, four free.\<close>

definition demo_pages :: "u64 list" where
  "demo_pages = [0x8001d000, 0x8001e000, 0x8001f000, 0x80020000]"

definition demo_state :: kstate where
  "demo_state = (initial_kstate sample_env 0x24000
     ((\<lambda>_. 0)(0x8001d000 := 0x8001e000, 0x8001e000 := 0x8001f000, 0x8001f000 := 0x80020000)))
     \<lparr>free_mem_start_addr := 0x8001c000, free_mem_end_addr := 0x80024000, g_free_mem_list := 0x8001d000\<rparr>"

lemma demo_page_ok: "p \<in> set (0x8001c000 # 0x80021000 # demo_pages) \<Longrightarrow> page_ok demo_state p"
  by (auto simp: page_ok_def demo_state_def demo_pages_def aligned_def)

lemma demo_ok: "pt_ok demo_state 0x8001c000 demo_pages"
  and demo_empty: "vmap (mem demo_state) 0x8001c000 vb = None"
  and demo_tree: "tree (mem demo_state) 0x8001c000 d va t \<longleftrightarrow> d = 0 \<and> unat va < 0x4000000000 \<and> t = 0x8001c000"
proof -
  have x: "page_ok demo_state 0x8001c000" "0x8001c000 \<notin> set demo_pages"
    using demo_page_ok [of "0x8001c000"] by (auto simp: demo_pages_def)
  have free: "free_pages demo_state demo_pages"
    unfolding free_pages_def using demo_page_ok
    by (auto simp: demo_state_def demo_pages_def initial_kstate_def ptr_def)
  have zero: "mem demo_state a = 0" if "in_block 0x8001c000 4096 a" for a
    using that by (auto simp: in_block_def demo_state_def initial_kstate_def)
  show "pt_ok demo_state 0x8001c000 demo_pages" "vmap (mem demo_state) 0x8001c000 vb = None"
    "tree (mem demo_state) 0x8001c000 d va t \<longleftrightarrow> d = 0 \<and> unat va < 0x4000000000 \<and> t = 0x8001c000"
    using pt_ok_fresh [OF x(1) free x(2) zero] by blast+
qed

lemma demo_need: "unat va < 0x4000000000 \<Longrightarrow> need (mem demo_state) 0x8001c000 va = 2"
  using demo_tree [of 1 va "the (table (mem demo_state) 0x8001c000 1 va)"]
  by (cases "table (mem demo_state) 0x8001c000 1 va") (auto simp: need_def tree_def)

lemmas vpn_eval = vpn_def npages_def walk_cost_def demo_need demo_pages_def

lemma runs_user_vm_map:
  "map_pages root va sz pa perm s = Inr (0, t) \<Longrightarrow> user_vm_map root va sz pa perm s = Inr ((), t)"
  by (simp add: user_vm_map_def kdefs)

lemma demo_mapped:
  "\<exists>t k. user_vm_map 0x8001c000 0x400000 4096 0x80021000 (prot_to_type 3 1) demo_state = Inr ((), t) \<and>
    k \<le> 2 \<and> remapped 0x8001c000 demo_pages demo_state k
      (map_range (\<lambda>_. None) 0x400000 1 0x80021000 (prot_to_type 3 1)) t"
proof -
  have "vmap (mem demo_state) 0x8001c000 = (\<lambda>_. None)" by (simp add: fun_eq_iff demo_empty)
  then show ?thesis
    using map_pages_spec [OF demo_ok, of 4096 "0x400000" "0x80021000" "prot_to_type 3 1"]
    by (auto simp: vpn_eval demo_empty user_vm_map_def kdefs)
qed

lemma demo_leaf_perm: "leaf_perm (prot_to_type 3 1)"
  by (simp add: leaf_perm_def prot_to_type_def)

text \<open>
  C7: mapping a range that is not mapped yet, with enough free pages for the tables it
  needs, succeeds, and is function update: the pages of the range get entries for
  consecutive physical pages with the given permission, and every other address of the
  space keeps its entry. The tables it takes come from the front of the free list, the
  tree stays well formed, and no memory outside the page tables is written.
\<close>

theorem user_vm_map_refines:
  assumes "pt_ok s root xs" and "0 < unat sz" and "unat va + unat sz \<le> 0x4000000000"
    and "walk_cost (mem s) root va (vpn 0 va + npages va sz) \<le> length xs"
    and "\<And>vb. vpn 0 va \<le> vpn 0 vb \<Longrightarrow> vpn 0 vb < vpn 0 va + npages va sz \<Longrightarrow>
      unat vb < 0x4000000000 \<Longrightarrow> vmap (mem s) root vb = None"
  shows "\<exists>t k. user_vm_map root va sz pa perm s = Inr ((), t) \<and>
    k \<le> walk_cost (mem s) root va (vpn 0 va + npages va sz) \<and>
    remapped root xs s k (map_range (vmap (mem s) root) va (npages va sz) pa perm) t"
  using map_pages_spec [OF assms, of pa perm] runs_user_vm_map by blast

theorem user_vm_map_refines_witness:
  "\<exists>t k. user_vm_map 0x8001c000 0x400000 4096 0x80021000 (prot_to_type 3 1) demo_state = Inr ((), t) \<and>
    k \<le> 2 \<and> remapped 0x8001c000 demo_pages demo_state k
      (map_range (\<lambda>_. None) 0x400000 1 0x80021000 (prot_to_type 3 1)) t"
proof -
  have "vmap (mem demo_state) 0x8001c000 = (\<lambda>_. None)" by (simp add: fun_eq_iff demo_empty)
  then show ?thesis
    using user_vm_map_refines [OF demo_ok, of 4096 "0x400000" "0x80021000" "prot_to_type 3 1"]
    by (simp add: vpn_eval demo_empty)
qed

text \<open>
  C35: mapping an address that is mapped already is a panic, never a silent change of the
  old mapping.
\<close>

theorem map_mapped_panics:
  assumes "pt_ok s root xs" and "0 < unat sz" and "unat va + unat sz \<le> 0x4000000000"
    and "vmap (mem s) root va = Some e"
  shows "user_vm_map root va sz pa perm s = Inl (Panic ''map_pages fails on mapping va'')"
  using map_pages_mapped [OF assms, of pa perm] by (simp add: user_vm_map_def kdefs)

theorem map_mapped_panics_witness:
  "\<exists>t. user_vm_map 0x8001c000 0x400000 4096 0x80021000 (prot_to_type 3 1) demo_state = Inr ((), t) \<and>
    user_vm_map 0x8001c000 0x400123 1 0x80022000 (prot_to_type 3 1) t =
      Inl (Panic ''map_pages fails on mapping va'')"
proof -
  obtain t k where t: "user_vm_map 0x8001c000 0x400000 4096 0x80021000 (prot_to_type 3 1) demo_state = Inr ((), t)"
      "remapped 0x8001c000 demo_pages demo_state k
        (map_range (\<lambda>_. None) 0x400000 1 0x80021000 (prot_to_type 3 1)) t"
    using demo_mapped by blast
  then have "pt_ok t 0x8001c000 (drop k demo_pages)"
      "\<exists>e. vmap (mem t) 0x8001c000 0x400123 = Some e"
    by (auto simp: remapped_def map_range_def vpn_def)
  then show ?thesis
    using t(1) map_mapped_panics [of t "0x8001c000" _ 1 "0x400123"] by auto
qed

lemma map_range_leaf:
  assumes pa: "aligned 4096 pa" "0 < unat pa" "unat pa + 4096 * n \<le> 0x8000000000000000" and "leaf_perm perm"
    and vb: "vpn 0 va \<le> vpn 0 vb" "vpn 0 vb < vpn 0 va + n"
  shows "\<exists>e. map_range f va n pa perm vb = Some e \<and> PTE2PA e + (vb AND 4095) = pa + (vb - page_of va) \<and>
    PTE2PA e \<noteq> 0 \<and> PTE_FLAGS e \<noteq> PTE_V \<and> \<not> (e AND PTE_R = 0 \<and> e AND PTE_W = 0)"
proof -
  let ?k = "vpn 0 vb - vpn 0 va"
  let ?p = "pa + of_nat (4096 * ?k)"
  have "unat (of_nat (4096 * ?k) :: u64) = 4096 * ?k"
    using vb pa(3) by (simp add: unat_of_nat del: of_nat_mult of_nat_diff)
  then have p: "unat ?p = unat pa + 4096 * ?k"
    using vb pa(3) by (simp add: unat_word_ariths del: of_nat_mult of_nat_diff)
  then have al: "aligned 4096 ?p" and nz: "?p \<noteq> 0"
    using pa(1,2) by (auto simp: aligned_def word_unat_eq_iff simp del: of_nat_mult of_nat_diff)
  have "aligned 4096 (page_of va)" by (simp add: aligned_def unat_page_of)
  then have "page_of va + of_nat (4096 * ?k) = page_of vb"
    using page_of_vpn [of "page_of va" vb] vb by simp
  moreover have "vb = page_of vb + (vb AND 4095)"
    by (simp add: word_unat_eq_iff unat_word_ariths unat_page_of and_page_mask mod_less [OF unat_u64_less])
  ultimately have "?p + (vb AND 4095) = pa + (vb - page_of va)"
    by (metis (no_types, lifting) add.assoc add_diff_cancel_left' add_diff_eq)
  then show ?thesis
    using vb leaf_entry [OF al assms(4)] nz by (auto simp: map_range_def)
qed

text \<open>
  C8: a mapping made by \<^verbatim>\<open>user_vm_map\<close> is the one \<^verbatim>\<open>user_va_to_pa\<close> translates by: an
  address of the range goes to the physical address at the same distance from the start,
  down to the byte, and the translation of every other address is what it was.
\<close>

theorem map_then_translate:
  assumes "pt_ok s root xs" and "0 < unat sz" and "unat va + unat sz \<le> 0x4000000000"
    and "walk_cost (mem s) root va (vpn 0 va + npages va sz) \<le> length xs"
    and "\<And>vb. vpn 0 va \<le> vpn 0 vb \<Longrightarrow> vpn 0 vb < vpn 0 va + npages va sz \<Longrightarrow>
      unat vb < 0x4000000000 \<Longrightarrow> vmap (mem s) root vb = None"
    and "aligned 4096 pa" and "0 < unat pa" and "unat pa + 4096 * npages va sz \<le> 0x8000000000000000"
    and "leaf_perm perm"
  shows "\<exists>t. user_vm_map root va sz pa perm s = Inr ((), t) \<and>
    (\<forall>vb. unat vb < 0x4000000000 \<longrightarrow> user_va_to_pa root vb t =
      (if vpn 0 va \<le> vpn 0 vb \<and> vpn 0 vb < vpn 0 va + npages va sz
       then Inr (pa + (vb - page_of va), t)
       else Inr (case user_va_to_pa root vb s of Inr (p, _) \<Rightarrow> p, t)))"
proof -
  obtain t k where t: "map_pages root va sz pa perm s = Inr (0, t)"
      and r: "remapped root xs s k (map_range (vmap (mem s) root) va (npages va sz) pa perm) t"
    using map_pages_spec [OF assms(1-5), of pa perm] by blast
  have tab: "tables_ok (page_ok s) (mem s) root" "tables_ok (page_ok t) (mem t) root"
    using assms(1) r by (simp_all add: pt_ok_def remapped_def)
  have "user_va_to_pa root vb t =
      (if vpn 0 va \<le> vpn 0 vb \<and> vpn 0 vb < vpn 0 va + npages va sz
       then Inr (pa + (vb - page_of va), t)
       else Inr (case user_va_to_pa root vb s of Inr (p, _) \<Rightarrow> p, t))" if vb: "unat vb < 0x4000000000" for vb
  proof (cases "vpn 0 va \<le> vpn 0 vb \<and> vpn 0 vb < vpn 0 va + npages va sz")
    case True
    then obtain e where "vmap (mem t) root vb = Some e" "PTE2PA e + (vb AND 4095) = pa + (vb - page_of va)"
        "PTE2PA e \<noteq> 0" "\<not> (e AND PTE_R = 0 \<and> e AND PTE_W = 0)"
      using map_range_leaf [OF assms(6-9), of va vb "vmap (mem s) root"] r vb
      by (auto simp: remapped_def)
    with True show ?thesis using user_va_to_pa_eq [OF tab(2) vb] by auto
  next
    case False
    then have "vmap (mem t) root vb = vmap (mem s) root vb"
      using r vb by (auto simp: remapped_def map_range_def)
    with False show ?thesis
      using user_va_to_pa_eq [OF tab(2) vb] user_va_to_pa_eq [OF tab(1) vb] by auto
  qed
  with t show ?thesis using runs_user_vm_map by blast
qed

theorem map_then_translate_witness:
  "\<exists>t. user_vm_map 0x8001c000 0x400000 4096 0x80021000 (prot_to_type 3 1) demo_state = Inr ((), t) \<and>
    user_va_to_pa 0x8001c000 0x400123 t = Inr (0x80021123, t) \<and>
    user_va_to_pa 0x8001c000 0x401000 t = Inr (0, t)"
proof -
  have tab: "tables_ok (page_ok demo_state) (mem demo_state) 0x8001c000"
    using demo_ok by (simp add: pt_ok_def)
  have old: "user_va_to_pa 0x8001c000 0x401000 demo_state = Inr (0, demo_state)"
    using user_va_to_pa_eq [OF tab, of "0x401000"] by (simp add: demo_empty)
  have page: "page_of 0x400000 = 0x400000" by (simp add: page_of_def ROUNDDOWN_def)
  show ?thesis
    using map_then_translate [OF demo_ok, of 4096 "0x400000" "0x80021000", OF _ _ _ _ _ _ _ demo_leaf_perm]
    by (simp add: vpn_eval demo_empty aligned_def) (auto simp: page old)
qed

text \<open>
  C9: \<^verbatim>\<open>user_vm_unmap\<close> of pages that are mapped removes exactly their entries; with the
  free flag the physical pages go to the front of the free list, the last one first, and
  without it the free list is unchanged. The page tables stay in place, and only they and
  the freed pages are written.
\<close>

theorem user_vm_unmap_refines:
  assumes "pt_ok s root xs" and "va mod PGSIZE = 0" and "unat va + 4096 * length ps \<le> 0x4000000000"
    and "backed (mem s) root va ps" and "fr \<Longrightarrow> loose s root xs ps"
  shows "\<exists>t. user_vm_unmap root va (of_nat (4096 * length ps)) fr s = Inr ((), t) \<and>
    unmapped root xs s fr ps (unmap_range (vmap (mem s) root) va (length ps)) t"
proof -
  have "unat (va + of_nat (4096 * length ps)) = unat va + 4096 * length ps"
    using assms(3) by (simp add: unat_word_ariths unat_of_nat del: of_nat_mult)
  from unmap_loop_spec [OF assms(1,3) this assms(4,5)] assms(2) show ?thesis
    by (simp add: user_vm_unmap_def kdefs)
qed

theorem user_vm_unmap_refines_witness:
  "\<exists>t u. user_vm_map 0x8001c000 0x400000 4096 0x80021000 (prot_to_type 3 1) demo_state = Inr ((), t) \<and>
    user_vm_unmap 0x8001c000 0x400000 4096 True t = Inr ((), u) \<and>
    vmap (mem u) 0x8001c000 0x400000 = None \<and> g_free_mem_list u = 0x80021000"
proof -
  obtain t k where t: "user_vm_map 0x8001c000 0x400000 4096 0x80021000 (prot_to_type 3 1) demo_state = Inr ((), t)"
      and r: "remapped 0x8001c000 demo_pages demo_state k
        (map_range (\<lambda>_. None) 0x400000 1 0x80021000 (prot_to_type 3 1)) t"
    using demo_mapped by blast
  have ok: "pt_ok t 0x8001c000 (drop k demo_pages)" and gr: "grows 0x8001c000 demo_state t"
    using r by (auto simp: remapped_def)
  have bk: "backed (mem t) 0x8001c000 0x400000 [0x80021000]"
    using r leaf_entry [of "0x80021000", OF _ demo_leaf_perm]
    by (auto simp: backed_def remapped_def map_range_def aligned_def)
  have "page_ok t 0x80021000"
    using demo_page_ok [of "0x80021000"] gr mem_eraseD(1) [of t demo_state] by (simp add: grows_def)
  moreover have "\<not> tree (mem t) 0x8001c000 d va 0x80021000" for d va
  proof
    assume "tree (mem t) 0x8001c000 d va 0x80021000"
    then have "(0x80021000 :: u64) \<in> set (take k demo_pages)"
      using r by (fastforce simp: remapped_def tables_from_def demo_tree)
    then have "(0x80021000 :: u64) \<in> set demo_pages" by (rule in_set_takeD)
    then show False by (simp add: demo_pages_def)
  qed
  ultimately have "loose t 0x8001c000 (drop k demo_pages) [0x80021000]"
    using in_set_dropD [of "0x80021000" k demo_pages] by (auto simp: loose_def demo_pages_def)
  from user_vm_unmap_refines [OF ok _ _ bk this] obtain u where
      "user_vm_unmap 0x8001c000 0x400000 4096 True t = Inr ((), u)"
      "unmapped 0x8001c000 (drop k demo_pages) t True [0x80021000]
        (unmap_range (vmap (mem t) 0x8001c000) 0x400000 1) u"
    by auto
  with t show ?thesis
    by (auto simp: unmapped_def unmap_range_def pt_ok_def free_pages_def)
qed

text \<open>
  C23: \<^verbatim>\<open>kern_vm_init\<close>, run with at least 131 free pages on an image whose text section
  ends page-aligned inside memory, returns and installs a page table that maps every page
  of physical memory to itself: the text readable and executable and not writable, the
  rest readable and writable and not executable, neither accessible to user mode; no
  other address is mapped.
\<close>

theorem kern_vm_init_identity:
  assumes "free_pages s (x # xs)" and "130 \<le> length xs"
    and "KERN_BASE < sym_etext (kenv s)" and "sym_etext (kenv s) < PHYS_TOP"
    and "aligned 4096 (sym_etext (kenv s))"
  shows "\<exists>t k. kern_vm_init s = Inr ((), t) \<and> k \<le> 130 \<and> g_kernel_pagetable t = x \<and> pt_ok t x (drop k xs) \<and>
    (\<forall>vb. unat vb < 0x4000000000 \<longrightarrow> vmap (mem t) x vb =
      (if vpn 0 KERN_BASE \<le> vpn 0 vb \<and> vpn 0 vb < vpn 0 (sym_etext (kenv s))
       then Some (PA2PTE (page_of vb) OR (PTE_R OR PTE_A OR PTE_X) OR PTE_V)
       else if vpn 0 (sym_etext (kenv s)) \<le> vpn 0 vb \<and> vpn 0 vb < vpn 0 PHYS_TOP
       then Some (PA2PTE (page_of vb) OR (PTE_R OR PTE_A OR PTE_W OR PTE_D) OR PTE_V)
       else None))"
proof -
  have "prot_to_type (PROT_READ OR PROT_EXEC) 0 = PTE_R OR PTE_A OR PTE_X"
    "prot_to_type (PROT_READ OR PROT_WRITE) 0 = PTE_R OR PTE_A OR PTE_W OR PTE_D"
    by (simp_all add: prot_to_type_def)
  with kern_vm_init_spec [OF assms] show ?thesis
    unfolding kernel_map_def by (simp only:) blast
qed

theorem kern_vm_init_identity_witness:
  "\<exists>s t. pmm_init (initial_kstate sample_env 0x1000000 (\<lambda>_. 0)) = Inr ((), s) \<and> kern_vm_init s = Inr ((), t) \<and>
    vmap (mem t) (g_kernel_pagetable t) 0x80200123 =
      Some (PA2PTE 0x80200000 OR (PTE_R OR PTE_A OR PTE_W OR PTE_D) OR PTE_V) \<and>
    vmap (mem t) (g_kernel_pagetable t) 0x1000 = None"
proof -
  have r: "ROUNDUP 0x8001c000 PGSIZE = 0x8001c000" by (simp add: ROUNDUP_def)
  then have n: "usable_pages 0x8001c000 0x1000000 = 4067" by (simp add: usable_pages_def MIN_u64_def)
  obtain s where s: "pmm_init (initial_kstate sample_env 0x1000000 (\<lambda>_. 0)) = Inr ((), s)"
      "kenv s = sample_env" "free_pages s (rev (page_range 0x8001c000 4067))"
    using pmm_init_builds [of "initial_kstate sample_env 0x1000000 (\<lambda>_. 0)"] r n
    by (auto simp: runs_to_iff initial_kstate_def sample_env_def MIN_u64_def)
  obtain x xs where xs: "rev (page_range 0x8001c000 4067) = x # xs" "length xs = 4066"
    by (cases "rev (page_range 0x8001c000 4067)") (auto dest: arg_cong [where f = length])
  have "free_pages s (x # xs)" using s(3) xs(1) by simp
  moreover have "page_of 0x80200123 = 0x80200000" by (simp add: page_of_def ROUNDDOWN_def)
  ultimately show ?thesis
    using kern_vm_init_identity [of s x xs] s xs(2)
    by (auto simp: sample_env_def aligned_def vpn_def)
qed

text \<open>
  The permission bits \<^verbatim>\<open>prot_to_type\<close> computes are the ones asked for: writable and
  executable exactly on request, readable on request or when nothing is asked for,
  accessible to user mode exactly for user mappings, accessed with read or execute, dirty
  with write; never the valid bit, and nothing outside the flag bits of an entry.
\<close>

theorem prot_to_type_bits:
  "(prot_to_type prot user AND PTE_W = 0 \<longleftrightarrow> prot AND PROT_WRITE = 0) \<and>
   (prot_to_type prot user AND PTE_X = 0 \<longleftrightarrow> prot AND PROT_EXEC = 0) \<and>
   (prot_to_type prot user AND PTE_R = 0 \<longleftrightarrow>
      prot AND PROT_READ = 0 \<and> prot AND (PROT_READ OR PROT_WRITE OR PROT_EXEC) \<noteq> 0) \<and>
   (prot_to_type prot user AND PTE_U = 0 \<longleftrightarrow> user = 0) \<and>
   (prot_to_type prot user AND PTE_A = 0 \<longleftrightarrow> prot AND PROT_READ = 0 \<and> prot AND PROT_EXEC = 0) \<and>
   (prot_to_type prot user AND PTE_D = 0 \<longleftrightarrow> prot AND PROT_WRITE = 0) \<and>
   prot_to_type prot user AND PTE_V = 0 \<and> drop_bit 8 (prot_to_type prot user) = 0"
proof -
  have "prot AND (PROT_READ OR PROT_WRITE OR PROT_EXEC) = 0 \<longleftrightarrow>
      prot AND PROT_READ = 0 \<and> prot AND PROT_WRITE = 0 \<and> prot AND PROT_EXEC = 0"
    by (simp only: bit.conj_disj_distrib or_eq_0_iff)
  then show ?thesis
    by (cases "prot AND PROT_READ = 0"; cases "prot AND PROT_WRITE = 0"; cases "prot AND PROT_EXEC = 0";
        cases "user = 0") (simp_all add: prot_to_type_def)
qed

end
