(* ===== verification/PKE_Spike.thy ===== *)
theory PKE_Spike
  imports PKE_String
begin

text \<open>
  Files of the host: \<^verbatim>\<open>spike_interface/spike_file.c\<close>, the front-end call and
  \<^verbatim>\<open>sgetline\<close> of \<^verbatim>\<open>spike_interface/spike_utils.c\<close>, and \<^verbatim>\<open>kernel/hostfs.c\<close>. A host file
  is a slot of \<open>spike_files\<close> with the host's descriptor and a reference count; a
  descriptor of the kernel is an index of \<open>spike_fds\<close>, which points to slots.

  The kernel runs on one hart with the lock of \<^verbatim>\<open>frontend_syscall\<close> free whenever it is
  taken, so the lock and the memory barriers are left out and the atomic operations are
  plain ones, as the macros of \<^verbatim>\<open>atomic.h\<close> define them.
\<close>

section \<open>Front-end calls\<close>

definition HTIFSYS_exit :: u64 where [simp]: "HTIFSYS_exit = 93"
definition HTIFSYS_read :: u64 where [simp]: "HTIFSYS_read = 63"
definition HTIFSYS_write :: u64 where [simp]: "HTIFSYS_write = 64"
definition HTIFSYS_openat :: u64 where [simp]: "HTIFSYS_openat = 56"
definition HTIFSYS_close :: u64 where [simp]: "HTIFSYS_close = 57"
definition HTIFSYS_lseek :: u64 where [simp]: "HTIFSYS_lseek = 62"
definition HTIFSYS_pread :: u64 where [simp]: "HTIFSYS_pread = 67"
definition HTIFSYS_getmainvars :: u64 where [simp]: "HTIFSYS_getmainvars = 2011"
definition AT_FDCWD :: u32 where [simp]: "AT_FDCWD = - 100"
definition ENOMEM :: u64 where [simp]: "ENOMEM = 12"
definition INIT_FILE_REF :: u32 where [simp]: "INIT_FILE_REF = 3"

definition frontend_syscall :: "u64 \<Rightarrow> u64 list \<Rightarrow> u8 list \<Rightarrow> (u64 \<times> u8 list) K" where
  "frontend_syscall n args data = (\<lambda>s.
     let log = \<lparr>hnum = n, hargs = args, hdata = data\<rparr> # host_log s
     in Inr (host (kenv s) log (mem s), s\<lparr>host_log := log\<rparr>))"

text \<open>
  What a call that reads says of its answer: a negative number is an error and nothing
  is written; otherwise the return value is the number of bytes written, at most those
  asked for.
\<close>

definition read_result :: "u64 \<Rightarrow> u64 \<times> u8 list \<Rightarrow> u64 \<times> u8 list" where
  "read_result sz a = (case a of (r, bs) \<Rightarrow>
     if r <s 0 then (r, []) else (of_nat (length (take (unat sz) bs)), take (unat sz) bs))"

fun store_bytes :: "u64 \<Rightarrow> u8 list \<Rightarrow> unit K" where
  "store_bytes a [] = kret ()"
| "store_bytes a (b # bs) = kthen (store8 a b) (store_bytes (a + 1) bs)"

section \<open>The table of files\<close>

text \<open>A file name is at an address, or in a buffer of the kernel's stack.\<close>

datatype cpath = At u64 | Local "u8 list"

datatype fptr = FPtr nat | FErr u64

definition path_addr :: "cpath \<Rightarrow> u64" where
  "path_addr p = (case p of At a \<Rightarrow> a | Local cs \<Rightarrow> 0)"

definition path_data :: "cpath \<Rightarrow> u8 list" where
  "path_data p = (case p of At a \<Rightarrow> [] | Local cs \<Rightarrow> cs @ [0])"

definition path_len :: "cpath \<Rightarrow> u64 K" where
  "path_len p = (case p of At a \<Rightarrow> strlen a | Local cs \<Rightarrow> kret (of_nat (length cs)))"

definition upd_file :: "nat \<Rightarrow> (spike_file \<Rightarrow> spike_file) \<Rightarrow> kstate \<Rightarrow> kstate" where
  "upd_file i f s = s\<lparr>spike_files := (spike_files s)[i := f (spike_files s ! i)]\<rparr>"

definition spike_file_decref :: "nat \<Rightarrow> unit K" where
  "spike_file_decref f =
     kbind (kget (\<lambda>s. refcnt (spike_files s ! f))) (\<lambda>old.
     kthen (kmod (upd_file f (\<lambda>x. x\<lparr>refcnt := old - 1\<rparr>)))
       (if old = 2
        then kbind (kget (\<lambda>s. kfd (spike_files s ! f))) (\<lambda>k.
             kthen (kmod (upd_file f (\<lambda>x. x\<lparr>refcnt := 0\<rparr>)))
            (kbind (frontend_syscall HTIFSYS_close [scast k, 0, 0, 0, 0, 0, 0] []) (\<lambda>_. kret ())))
        else kret ()))"

definition spike_file_incref :: "nat \<Rightarrow> unit K" where
  "spike_file_incref f =
     kbind (kget (\<lambda>s. refcnt (spike_files s ! f))) (\<lambda>prev.
     kthen (kmod (upd_file f (\<lambda>x. x\<lparr>refcnt := prev + 1\<rparr>)))
       (kguard (prev > 0) (Assert_fail ''prev > 0'')))"

definition spike_file_close :: "nat option \<Rightarrow> int K" where
  "spike_file_close fp = (case fp of None \<Rightarrow> kret (- 1) | Some f \<Rightarrow>
     kbind (kget (\<lambda>s. kfd (spike_files s ! f))) (\<lambda>k.
     kthen (kguard (unat k < MAX_FDS) (Undef ''spike_fds''))
    (kbind (kget (\<lambda>s. spike_fds s ! unat k)) (\<lambda>old.
     kthen (if old = Some f then kmod (\<lambda>s. s\<lparr>spike_fds := (spike_fds s)[unat k := None]\<rparr>) else kret ())
    (kthen (spike_file_decref f)
       (if old \<noteq> Some f then kret (- 1)
        else kthen (spike_file_decref f) (kret 0)))))))"

definition spike_file_get_free :: "nat option K" where
  "spike_file_get_free =
     kbind (kget (\<lambda>s. find (\<lambda>i. refcnt (spike_files s ! i) = 0) [0..<MAX_FILES])) (\<lambda>r. case r of
       None \<Rightarrow> kret None
     | Some f \<Rightarrow> kthen (kmod (upd_file f (\<lambda>x. x\<lparr>refcnt := INIT_FILE_REF\<rparr>))) (kret (Some f)))"

definition spike_file_dup :: "nat \<Rightarrow> int K" where
  "spike_file_dup f =
     kbind (kget (\<lambda>s. find (\<lambda>i. spike_fds s ! i = None) [0..<MAX_FDS])) (\<lambda>r. case r of
       None \<Rightarrow> kret (- 1)
     | Some i \<Rightarrow> kthen (kmod (\<lambda>s. s\<lparr>spike_fds := (spike_fds s)[i := Some f]\<rparr>))
         (kthen (spike_file_incref f) (kret (int i))))"

definition spike_file_init :: "unit K" where
  "spike_file_init = kfor [0, 1, 2] (\<lambda>i.
     kbind spike_file_get_free (\<lambda>r. case r of
       None \<Rightarrow> kexits (Wild 0)
     | Some f \<Rightarrow> kthen (kmod (upd_file f (\<lambda>x. x\<lparr>kfd := i\<rparr>)))
         (kbind (spike_file_dup f) (\<lambda>_. kret ()))))"

definition spike_file_openat :: "u32 \<Rightarrow> cpath \<Rightarrow> u32 \<Rightarrow> u32 \<Rightarrow> fptr K" where
  "spike_file_openat dirfd fn flags mode =
     kbind spike_file_get_free (\<lambda>r. case r of
       None \<Rightarrow> kret (FErr (- ENOMEM))
     | Some f \<Rightarrow>
         kbind (path_len fn) (\<lambda>n.
         kbind (frontend_syscall HTIFSYS_openat
             [scast dirfd, path_addr fn, n + 1, scast flags, scast mode, 0, 0] (path_data fn)) (\<lambda>(ret, _).
           if 0 \<le>s ret
           then kthen (kmod (upd_file f (\<lambda>x. x\<lparr>kfd := ucast ret\<rparr>))) (kret (FPtr f))
           else kthen (spike_file_decref f) (kret (FErr ret)))))"

definition spike_file_open :: "cpath \<Rightarrow> u32 \<Rightarrow> u32 \<Rightarrow> fptr K" where
  "spike_file_open fn flags mode = spike_file_openat AT_FDCWD fn flags mode"

text \<open>
  Reading and writing through a file pointer; the null pointer is dereferenced, for the
  descriptor, before the call. The buffer of \<open>_local\<close> variants is a local variable.
\<close>

definition file_kfd :: "nat option \<Rightarrow> u64 K" where
  "file_kfd fp = (case fp of None \<Rightarrow> kexits (Wild 0)
     | Some f \<Rightarrow> kget (\<lambda>s. scast (kfd (spike_files s ! f))))"

definition spike_file_write :: "nat option \<Rightarrow> u64 \<Rightarrow> u64 \<Rightarrow> u64 K" where
  "spike_file_write fp buf sz =
     kbind (file_kfd fp) (\<lambda>k. kbind (frontend_syscall HTIFSYS_write [k, buf, sz, 0, 0, 0, 0] [])
       (\<lambda>(r, _). kret r))"

definition spike_file_pread_local :: "nat option \<Rightarrow> u64 \<Rightarrow> u64 \<Rightarrow> (u64 \<times> u8 list) K" where
  "spike_file_pread_local fp sz off =
     kbind (file_kfd fp) (\<lambda>k. kbind (frontend_syscall HTIFSYS_pread [k, 0, sz, off, 0, 0, 0] [])
       (\<lambda>a. kret (read_result sz a)))"

definition spike_file_pread :: "nat option \<Rightarrow> u64 \<Rightarrow> u64 \<Rightarrow> u64 \<Rightarrow> u64 K" where
  "spike_file_pread fp buf sz off =
     kbind (file_kfd fp) (\<lambda>k. kbind (frontend_syscall HTIFSYS_pread [k, buf, sz, off, 0, 0, 0] [])
       (\<lambda>a. case read_result sz a of (r, bs) \<Rightarrow> kthen (store_bytes buf bs) (kret r)))"

definition spike_file_read :: "nat option \<Rightarrow> u64 \<Rightarrow> u64 \<Rightarrow> u64 K" where
  "spike_file_read fp buf sz =
     kbind (file_kfd fp) (\<lambda>k. kbind (frontend_syscall HTIFSYS_read [k, buf, sz, 0, 0, 0, 0] [])
       (\<lambda>a. case read_result sz a of (r, bs) \<Rightarrow> kthen (store_bytes buf bs) (kret r)))"

definition spike_file_lseek :: "nat option \<Rightarrow> u64 \<Rightarrow> u32 \<Rightarrow> u64 K" where
  "spike_file_lseek fp p dir =
     kbind (file_kfd fp) (\<lambda>k. kbind (frontend_syscall HTIFSYS_lseek [k, p, scast dir, 0, 0, 0, 0] [])
       (\<lambda>(r, _). kret r))"

definition spike_file_get :: "int \<Rightarrow> nat option K" where
  "spike_file_get fd =
     (if fd < 0 \<or> fd \<ge> int MAX_FDS then kret None
      else kbind (kget (\<lambda>s. spike_fds s ! nat fd)) (\<lambda>fp. case fp of
        None \<Rightarrow> kret None
      | Some f \<Rightarrow> kbind (kget (\<lambda>s. refcnt (spike_files s ! f))) (\<lambda>old_cnt.
          if old_cnt = 0 then kret None
          else kthen (kmod (upd_file f (\<lambda>x. x\<lparr>refcnt := old_cnt + 1\<rparr>))) (kret (Some f)))))"

definition sgetline :: "u64 \<Rightarrow> u32 \<Rightarrow> unit K" where
  "sgetline dst sz =
     kbind (spike_file_read (Some 0) dst (scast sz)) (\<lambda>r.
       (let n = (ucast r :: u32) in store8 (dst + scast (n - 1)) 0))"

section \<open>Access to the host file system\<close>

definition host_open :: "u64 \<Rightarrow> u32 \<Rightarrow> int K" where
  "host_open pathname flags =
     kbind (spike_file_open (At pathname) flags 0) (\<lambda>p. case p of
       FErr e \<Rightarrow> kret (- 1)
     | FPtr f \<Rightarrow> kbind (spike_file_dup f) (\<lambda>fd.
         if fd < 0 then kthen (spike_file_decref f) (kret (- 1)) else kret fd))"

definition host_read :: "int \<Rightarrow> u64 \<Rightarrow> u64 \<Rightarrow> u32 K" where
  "host_read fd buf count =
     kbind (spike_file_get fd) (\<lambda>f. kbind (spike_file_read f buf count) (\<lambda>r. kret (ucast r)))"

definition host_write :: "int \<Rightarrow> u64 \<Rightarrow> u64 \<Rightarrow> u32 K" where
  "host_write fd buf count =
     kbind (spike_file_get fd) (\<lambda>f. kbind (spike_file_write f buf count) (\<lambda>r. kret (ucast r)))"

definition host_close :: "int \<Rightarrow> int K" where
  "host_close fd = kbind (spike_file_get fd) spike_file_close"

section \<open>The life of a file\<close>

text \<open>
  A slot starts with three references (\<^verbatim>\<open>INIT_FILE_REF\<close>), a descriptor adds one, and the
  last release closes the host's file only when the count drops from 2. The invariant
  says what really happens: no operation of the kernel brings a count below 2 once the
  slot is taken, so the host is never asked to close a file.
\<close>

definition in_fds :: "kstate \<Rightarrow> nat \<Rightarrow> bool" where
  "in_fds s f \<longleftrightarrow> Some f \<in> set (spike_fds s)"

definition fds_inj :: "nat option list \<Rightarrow> bool" where
  "fds_inj fds \<longleftrightarrow> distinct (filter (\<lambda>x. x \<noteq> None) fds)"

definition fds_ok :: "spike_file list \<Rightarrow> nat option list \<Rightarrow> bool" where
  "fds_ok fs fds \<longleftrightarrow> (\<forall>f. Some f \<in> set fds \<longrightarrow> f < MAX_FILES \<and> refcnt (fs ! f) = 4)"

definition refs_ok :: "spike_file list \<Rightarrow> bool" where
  "refs_ok fs \<longleftrightarrow> (\<forall>x \<in> set fs. refcnt x \<in> {0, 2, 3, 4})"

definition never_closed :: "hcall list \<Rightarrow> bool" where
  "never_closed log \<longleftrightarrow> (\<forall>c \<in> set log. hnum c \<noteq> HTIFSYS_close)"

definition taken_ok :: "nat set \<Rightarrow> spike_file list \<Rightarrow> bool" where
  "taken_ok T fs \<longleftrightarrow> (\<forall>f \<in> T. f < MAX_FILES \<longrightarrow> refcnt (fs ! f) \<noteq> 0)"

definition files_inv :: "nat set \<Rightarrow> kstate \<Rightarrow> bool" where
  "files_inv T s \<longleftrightarrow> length (spike_files s) = MAX_FILES \<and> length (spike_fds s) = MAX_FDS \<and>
     refs_ok (spike_files s) \<and> fds_ok (spike_files s) (spike_fds s) \<and> fds_inj (spike_fds s) \<and>
     never_closed (host_log s) \<and> taken_ok T (spike_files s)"

definition fresh_file :: "kstate \<Rightarrow> nat \<Rightarrow> bool" where
  "fresh_file s f \<longleftrightarrow> f < MAX_FILES \<and> refcnt (spike_files s ! f) = 3 \<and> \<not> in_fds s f"

lemma files_inv_log:
  "hnum c \<noteq> HTIFSYS_close \<Longrightarrow> files_inv T s \<Longrightarrow> files_inv T (s\<lparr>host_log := c # host_log s\<rparr>)"
  by (simp add: files_inv_def never_closed_def)

lemma refs_ok_update: "refs_ok fs \<Longrightarrow> refcnt x \<in> {0, 2, 3, 4} \<Longrightarrow> refs_ok (fs[f := x])"
  unfolding refs_ok_def using set_update_subset_insert [of fs f x] by blast

lemma fds_ok_update: "fds_ok fs fds \<Longrightarrow> Some f \<notin> set fds \<Longrightarrow> fds_ok (fs[f := x]) fds"
  unfolding fds_ok_def by (metis nth_list_update_neq)

lemma taken_ok_update:
  "taken_ok T fs \<Longrightarrow> length fs = MAX_FILES \<Longrightarrow> refcnt x \<noteq> 0 \<Longrightarrow> taken_ok T (fs[f := x])"
  unfolding taken_ok_def by (metis nth_list_update_eq nth_list_update_neq)

lemma files_inv_refcnt:
  assumes "files_inv T s" and "\<not> in_fds s f" and "r \<in> {2, 3, 4}"
  shows "files_inv T (upd_file f (\<lambda>x. x\<lparr>refcnt := r\<rparr>) s)"
  using assms refs_ok_update [of "spike_files s" "(spike_files s ! f)\<lparr>refcnt := r\<rparr>"] fds_ok_update
    taken_ok_update [of T "spike_files s" "(spike_files s ! f)\<lparr>refcnt := r\<rparr>" f]
  by (auto simp: files_inv_def in_fds_def upd_file_def)

lemma files_inv_kfd:
  assumes "files_inv T s" and "f < MAX_FILES"
  shows "files_inv T (upd_file f (\<lambda>x. x\<lparr>kfd := k\<rparr>) s)"
proof -
  have "refcnt (spike_files s ! f) \<in> {0, 2, 3, 4}"
    using assms by (simp add: files_inv_def refs_ok_def)
  then have "refs_ok ((spike_files s)[f := (spike_files s ! f)\<lparr>kfd := k\<rparr>])"
    using assms by (intro refs_ok_update) (simp_all add: files_inv_def)
  moreover have "fds_ok ((spike_files s)[f := (spike_files s ! f)\<lparr>kfd := k\<rparr>]) (spike_fds s)"
    using assms by (auto simp: files_inv_def fds_ok_def nth_list_update)
  moreover have "taken_ok T ((spike_files s)[f := (spike_files s ! f)\<lparr>kfd := k\<rparr>])"
    using assms by (auto simp: files_inv_def taken_ok_def nth_list_update)
  ultimately show ?thesis using assms by (simp add: files_inv_def upd_file_def)
qed

lemma upd_file_simps [simp]:
  "in_fds (upd_file f g s) = in_fds s" "host_log (upd_file f g s) = host_log s"
  "kenv (upd_file f g s) = kenv s" "mem (upd_file f g s) = mem s"
  "spike_fds (upd_file f g s) = spike_fds s"
  "length (spike_files (upd_file f g s)) = length (spike_files s)"
  by (simp_all add: upd_file_def in_fds_def fun_eq_iff)

lemma upd_file_nth:
  "f < length (spike_files s) \<Longrightarrow>
   spike_files (upd_file f g s) ! i = (if i = f then g (spike_files s ! f) else spike_files s ! i)"
  by (simp add: upd_file_def nth_list_update)

lemma get_free_spec:
  assumes "files_inv T s"
  shows "wp spike_file_get_free (\<lambda>r t. files_inv T t \<and> (case r of None \<Rightarrow> t = s | Some f \<Rightarrow> fresh_file t f)) E s"
proof (cases "find (\<lambda>i. refcnt (spike_files s ! i) = 0) [0..<MAX_FILES]")
  case None
  then show ?thesis using assms by (simp add: spike_file_get_free_def wp_eqs)
next
  case (Some f)
  then have f: "f < MAX_FILES" "refcnt (spike_files s ! f) = 0"
    by (auto simp: find_Some_iff)
  then have "\<not> in_fds s f" using assms by (auto simp: files_inv_def in_fds_def fds_ok_def)
  with f Some show ?thesis
    using files_inv_refcnt [OF assms, of f 3] assms
    by (auto simp: spike_file_get_free_def wp_eqs fresh_file_def upd_file_nth files_inv_def)
qed

lemma decref_fresh:
  assumes "files_inv T s" and "fresh_file s f"
  shows "wp (spike_file_decref f) (\<lambda>_ t. files_inv T t \<and> refcnt (spike_files t ! f) = 2 \<and> \<not> in_fds t f) E s"
  using assms files_inv_refcnt [of T s f 2]
  by (simp add: spike_file_decref_def wp_eqs fresh_file_def upd_file_nth files_inv_def)

lemma strlen_loop_pure:
  "wp (strlen_loop p) (\<lambda>_ t. t = s) run_over s"
proof (induction p s rule: strlen_loop.induct)
  case (1 p s)
  show ?case
  proof (cases "load8 p s")
    case (Inl e)
    then have "run_over e" by (auto simp: load8_eq split: if_splits option.splits)
    with Inl show ?thesis by (simp add: strlen_loop.simps [of p s] wp_def kdefs)
  next
    case (Inr a)
    then obtain c where "load8 p s = Inr (c, s)"
      by (auto simp: load8_eq split: if_splits option.splits)
    with 1 show ?thesis
      by (auto simp: strlen_loop.simps [of p s] wp_def kdefs)
  qed
qed

lemma path_len_pure: "wp (path_len p) (\<lambda>_ t. t = s) run_over s"
proof (cases p)
  case (At a)
  then show ?thesis
    using strlen_loop_pure [of a s] by (auto simp: path_len_def strlen_def wp_eqs intro: wp_weaken)
qed (simp add: path_len_def wp_eqs)

lemma openat_spec:
  assumes "files_inv T s"
  shows "wp (spike_file_openat d p fl m)
    (\<lambda>r t. files_inv T t \<and> (case r of FPtr f \<Rightarrow> fresh_file t f | FErr e \<Rightarrow> e <s 0)) run_over s"
  unfolding spike_file_openat_def wp_kbind
proof (rule wp_weaken [OF get_free_spec [OF assms, where E = run_over]], goal_cases)
  case (1 r t)
  show ?case
  proof (cases r)
    case None
    have "(- 12 :: u64) <s 0" by (simp add: word_sless_alt)
    with None 1 assms show ?thesis by (simp add: wp_eqs)
  next
    case (Some f)
    with 1 have inv: "files_inv T t" and fr: "fresh_file t f" by simp_all
    show ?thesis
      unfolding Some option.case wp_kbind
    proof (rule wp_weaken [OF path_len_pure], goal_cases)
      case (1 n u)
      let ?c = "\<lparr>hnum = HTIFSYS_openat, hargs = [scast d, path_addr p, n + 1, scast fl, scast m, 0, 0],
        hdata = path_data p\<rparr>"
      let ?u = "t\<lparr>host_log := ?c # host_log t\<rparr>"
      have i: "files_inv T ?u" using inv by (intro files_inv_log) simp_all
      have f: "fresh_file ?u f" using fr by (simp add: fresh_file_def in_fds_def)
      show ?case
        using 1 i files_inv_kfd [OF i, of f] f decref_fresh [OF i f, where E = run_over]
        by (auto simp: frontend_syscall_def wp_def kdefs Let_def fresh_file_def upd_file_nth
            files_inv_def split: prod.splits sum.splits)
    qed simp
  qed
qed simp

lemma fds_inj_remove: "fds_inj fds \<Longrightarrow> fds_inj (fds[i := None])"
proof (induction fds arbitrary: i)
  case (Cons x fds)
  have "set (fds[j := None]) \<subseteq> insert None (set fds)" for j by (rule set_update_subset_insert)
  then show ?case using Cons by (cases i) (auto simp: fds_inj_def split: if_splits)
qed simp

lemma fds_inj_add: "fds_inj fds \<Longrightarrow> Some f \<notin> set fds \<Longrightarrow> fds_inj (fds[i := Some f])"
proof (induction fds arbitrary: i)
  case (Cons x fds)
  have "set (fds[j := Some f]) \<subseteq> insert (Some f) (set fds)" for j by (rule set_update_subset_insert)
  then show ?case using Cons by (cases i) (auto simp: fds_inj_def split: if_splits)
qed simp

lemma fds_inj_other:
  "fds_inj fds \<Longrightarrow> i < length fds \<Longrightarrow> fds ! i = Some f \<Longrightarrow> Some f \<notin> set (fds[i := None])"
proof (induction fds arbitrary: i)
  case (Cons x fds)
  then show ?case by (cases i) (auto simp: fds_inj_def split: if_splits dest: nth_mem)
qed simp

lemma dup_spec:
  assumes "files_inv T s" and "fresh_file s f"
  shows "wp (spike_file_dup f) (\<lambda>r t. files_inv T t \<and> (r < 0 \<longrightarrow> t = s) \<and>
    (0 \<le> r \<longrightarrow> nat r < MAX_FDS \<and> spike_fds s ! nat r = None \<and> spike_fds t ! nat r = Some f)) E s"
proof (cases "find (\<lambda>i. spike_fds s ! i = None) [0..<MAX_FDS]")
  case None
  then show ?thesis using assms by (simp add: spike_file_dup_def wp_eqs)
next
  case (Some i)
  then have i: "i < MAX_FDS" "spike_fds s ! i = None" by (auto simp: find_Some_iff)
  let ?x = "(spike_files s ! f)\<lparr>refcnt := 4\<rparr>"
  have "refs_ok ((spike_files s)[f := ?x])"
    using assms by (intro refs_ok_update) (simp_all add: files_inv_def)
  moreover have "fds_ok ((spike_files s)[f := ?x]) ((spike_fds s)[i := Some f])"
    using assms set_update_subset_insert [of "spike_fds s" i "Some f"]
    by (auto simp: files_inv_def fds_ok_def fresh_file_def in_fds_def nth_list_update)
  moreover have "fds_inj ((spike_fds s)[i := Some f])"
    using assms by (intro fds_inj_add) (simp_all add: files_inv_def fresh_file_def in_fds_def)
  moreover have "taken_ok T ((spike_files s)[f := ?x])"
    using assms by (intro taken_ok_update) (simp_all add: files_inv_def)
  ultimately show ?thesis
    using assms i Some
    by (simp add: spike_file_dup_def spike_file_incref_def wp_eqs files_inv_def fresh_file_def upd_file_def)
qed

lemma close_fresh:
  assumes "files_inv T s" and "fresh_file s f"
  shows "wp (spike_file_close (Some f)) (\<lambda>r t. files_inv T t \<and> r = - 1 \<and> refcnt (spike_files t ! f) = 2) run_over s"
proof -
  have "spike_fds s ! i \<noteq> Some f" if "i < MAX_FDS" for i
    using assms that by (metis fresh_file_def in_fds_def files_inv_def nth_mem)
  then show ?thesis
    using wp_weaken [OF decref_fresh [OF assms, where E = run_over]]
    by (auto simp: spike_file_close_def wp_eqs)
qed

lemma decref_eq:
  "refcnt (spike_files s ! f) \<noteq> 2 \<Longrightarrow>
   spike_file_decref f s = Inr ((), upd_file f (\<lambda>x. x\<lparr>refcnt := refcnt (spike_files s ! f) - 1\<rparr>) s)"
  by (simp add: spike_file_decref_def kdefs)

lemma upd_file_twice:
  "f < length (spike_files s) \<Longrightarrow> upd_file f (\<lambda>x. x\<lparr>refcnt := a\<rparr>) (upd_file f (\<lambda>x. x\<lparr>refcnt := b\<rparr>) s) =
   upd_file f (\<lambda>x. x\<lparr>refcnt := a\<rparr>) s"
  by (simp add: upd_file_def)

lemma upd_file_same:
  "f < length (spike_files s) \<Longrightarrow> refcnt (spike_files s ! f) = a \<Longrightarrow> upd_file f (\<lambda>x. x\<lparr>refcnt := a\<rparr>) s = s"
  by (cases "spike_files s ! f") (simp add: upd_file_def list_update_same_conv)

lemma upd_file_fds: "upd_file f g (s\<lparr>spike_fds := x\<rparr>) = (upd_file f g s)\<lparr>spike_fds := x\<rparr>"
  by (simp add: upd_file_def)

lemma host_close_spec:
  assumes inv: "files_inv T s"
  shows "wp (host_close fd) (\<lambda>_ t. files_inv T t) run_over s"
proof (cases "0 \<le> fd \<and> fd < int MAX_FDS \<and> (\<exists>f. spike_fds s ! nat fd = Some f)")
  case False
  then show ?thesis
    using inv by (auto simp: host_close_def spike_file_get_def spike_file_close_def wp_eqs split: option.splits)
next
  case True
  then obtain f where fd: "0 \<le> fd" "nat fd < MAX_FDS" "spike_fds s ! nat fd = Some f" by auto
  have len: "length (spike_files s) = MAX_FILES" "length (spike_fds s) = MAX_FDS"
    using inv by (simp_all add: files_inv_def)
  then have "Some f \<in> set (spike_fds s)" using fd nth_mem by metis
  then have f: "f < MAX_FILES" "refcnt (spike_files s ! f) = 4"
    using inv by (auto simp: files_inv_def fds_ok_def)
  let ?k = "unat (kfd (spike_files s ! f))"
  let ?s = "upd_file f (\<lambda>x. x\<lparr>refcnt := 5\<rparr>) s"
  let ?t = "upd_file f (\<lambda>x. x\<lparr>refcnt := 3\<rparr>) (s\<lparr>spike_fds := (spike_fds s)[?k := None]\<rparr>)"
  have get: "spike_file_get fd s = Inr (Some f, ?s)"
    using fd f by (auto simp: spike_file_get_def kdefs)
  have "files_inv T ?t" if k: "?k < MAX_FDS" "spike_fds s ! ?k = Some f"
  proof (rule files_inv_refcnt)
    have "set ((spike_fds s)[?k := None]) \<subseteq> insert None (set (spike_fds s))"
      by (rule set_update_subset_insert)
    then show "files_inv T (s\<lparr>spike_fds := (spike_fds s)[?k := None]\<rparr>)"
      using inv fds_inj_remove [of "spike_fds s"] by (auto simp: files_inv_def fds_ok_def)
    show "\<not> in_fds (s\<lparr>spike_fds := (spike_fds s)[?k := None]\<rparr>) f"
      using inv len k fds_inj_other by (simp add: in_fds_def files_inv_def)
  qed simp
  then show ?thesis
    using inv f len
    by (auto simp: host_close_def wp_def kdefs get spike_file_close_def decref_eq upd_file_nth
        upd_file_twice upd_file_same upd_file_fds)
qed

lemma host_open_spec:
  assumes inv: "files_inv T s"
  shows "wp (host_open p fl) (\<lambda>_ t. files_inv T t) run_over s"
  unfolding host_open_def spike_file_open_def wp_kbind
proof (rule wp_weaken [OF openat_spec [OF inv]], goal_cases)
  case (1 r t)
  show ?case
  proof (cases r)
    case (FPtr f)
    with 1 have t: "files_inv T t" "fresh_file t f" by simp_all
    show ?thesis
      unfolding FPtr fptr.case wp_kbind
      by (rule wp_weaken [OF dup_spec [OF t, where E = run_over]])
         (use t in \<open>auto simp: wp_eqs not_less intro: wp_weaken [OF decref_fresh]\<close>)
  qed (use 1 in \<open>simp add: wp_eqs\<close>)
qed simp

section \<open>Properties\<close>

lemma find_upt:
  assumes "i < n" and "P i" and "\<And>j. j < i \<Longrightarrow> \<not> P j"
  shows "find P [0..<n] = Some i"
  using assms by (auto simp: find_Some_iff)

definition std_files :: "nat \<Rightarrow> spike_file list" where
  "std_files n = map (\<lambda>i. if i < n then \<lparr>kfd = of_nat i, refcnt = 4\<rparr> else \<lparr>kfd = - 1, refcnt = 0\<rparr>) [0..<MAX_FILES]"

definition std_fds :: "nat \<Rightarrow> nat option list" where
  "std_fds n = map (\<lambda>i. if i < n then Some i else None) [0..<MAX_FDS]"

lemma std_nth:
  "i < 128 \<Longrightarrow> std_files n ! i = (if i < n then \<lparr>kfd = of_nat i, refcnt = 4\<rparr> else \<lparr>kfd = - 1, refcnt = 0\<rparr>)"
  "i < 128 \<Longrightarrow> std_fds n ! i = (if i < n then Some i else None)"
  "length (std_files n) = 128" "length (std_fds n) = 128"
  by (simp_all add: std_files_def std_fds_def)

lemma std_update:
  "n < 128 \<Longrightarrow> (std_files n)[n := \<lparr>kfd = of_nat n, refcnt = 4\<rparr>] = std_files (Suc n)"
  "n < 128 \<Longrightarrow> (std_fds n)[n := Some n] = std_fds (Suc n)"
  by (auto intro!: nth_equalityI simp: std_nth nth_list_update less_Suc_eq)

lemma std_step:
  assumes "n < 3" and "spike_files s = std_files n" and "spike_fds s = std_fds n"
  shows "kbind spike_file_get_free (\<lambda>r. case r of
       None \<Rightarrow> kexits (Wild 0)
     | Some f \<Rightarrow> kthen (kmod (upd_file f (\<lambda>x. x\<lparr>kfd := of_nat n\<rparr>)))
         (kbind (spike_file_dup f) (\<lambda>_. kret ()))) s =
    Inr ((), s\<lparr>spike_files := std_files (Suc n), spike_fds := std_fds (Suc n)\<rparr>)"
proof -
  have f: "find (\<lambda>i. refcnt (spike_files s ! i) = 0) [0..<128] = Some n"
    using assms by (intro find_upt) (auto simp: std_nth)
  have g: "find (\<lambda>i. spike_fds s ! i = None) [0..<128] = Some n"
    using assms by (intro find_upt) (auto simp: std_nth)
  show ?thesis
    using f g assms std_update [of n]
    by (simp add: spike_file_get_free_def spike_file_dup_def spike_file_incref_def kdefs upd_file_def std_nth)
qed

lemma spike_file_init_eq:
  "spike_file_init (initial_kstate E n m) = Inr ((), (initial_kstate E n m)
     \<lparr>spike_files := std_files 3, spike_fds := std_fds 3\<rparr>)"
proof -
  let ?s = "initial_kstate E n m"
  have 0: "spike_files ?s = std_files 0" "spike_fds ?s = std_fds 0"
    by (auto intro!: nth_equalityI simp: std_nth initial_kstate_def)
  note 1 = std_step [OF _ 0, simplified]
  note 2 = std_step [of 1 "?s\<lparr>spike_files := std_files (Suc 0), spike_fds := std_fds (Suc 0)\<rparr>", simplified]
  note 3 = std_step [of 2 "?s\<lparr>spike_files := std_files 2, spike_fds := std_fds 2\<rparr>", simplified]
  show ?thesis
    using 1 2 3 by (simp add: spike_file_init_def kthen_eq kret_eq numeral_2_eq_2 numeral_3_eq_3)
qed

text \<open>
  \<^verbatim>\<open>spike_file_init\<close>, run on the tables as the C initialisers leave them, makes the
  descriptors 0, 1 and 2 the host's standard streams, leaves all other slots and
  descriptors free, and makes no front-end call.
\<close>

theorem spike_file_init_std:
  "spike_file_init (initial_kstate E n m) = Inr ((), (initial_kstate E n m)
     \<lparr>spike_files := std_files 3, spike_fds := std_fds 3\<rparr>)"
  by (rule spike_file_init_eq)

text \<open>
  What the kernel does with host files: open one by name for a process, close a
  descriptor, and open and close an executable around reading it. \<open>file_step\<close> is one of
  these, from state to state.
\<close>

definition load_open_close :: "cpath \<Rightarrow> int K" where
  "load_open_close p = kbind (spike_file_open p 0 0) (\<lambda>r. case r of
     FPtr f \<Rightarrow> spike_file_close (Some f) | FErr e \<Rightarrow> kret 0)"

inductive file_step :: "kstate \<Rightarrow> kstate \<Rightarrow> bool" where
  opened: "host_open p fl s = Inr (r, t) \<Longrightarrow> file_step s t"
| closed: "host_close fd s = Inr (r, t) \<Longrightarrow> file_step s t"
| loaded: "load_open_close p s = Inr (r, t) \<Longrightarrow> file_step s t"

lemma load_spec:
  assumes inv: "files_inv T s"
  shows "wp (load_open_close p) (\<lambda>_ t. files_inv T t) run_over s"
  unfolding load_open_close_def spike_file_open_def wp_kbind
proof (rule wp_weaken [OF openat_spec [OF inv]], goal_cases)
  case (1 r t)
  then show ?case
    by (cases r) (auto simp: wp_eqs intro: wp_weaken [OF close_fresh])
qed simp

lemma file_step_inv: "file_step s t \<Longrightarrow> files_inv T s \<Longrightarrow> files_inv T t"
proof (induction rule: file_step.induct)
  case (opened p fl s r t)
  then show ?case using host_open_spec [of T s p fl] by (simp add: wp_def)
next
  case (closed fd s r t)
  then show ?case using host_close_spec [of T s fd] by (simp add: wp_def)
next
  case (loaded p s r t)
  then show ?case using load_spec [of T s p] by (simp add: wp_def)
qed

lemma files_inv_std:
  "files_inv {} ((initial_kstate E n m)\<lparr>spike_files := std_files 3, spike_fds := std_fds 3\<rparr>)"
proof -
  have "std_fds 3 = map Some [0..<3] @ replicate 125 None"
    by (auto intro!: nth_equalityI simp: std_nth nth_append)
  then have "fds_inj (std_fds 3)" by (simp add: fds_inj_def distinct_map)
  then show ?thesis
    by (auto simp: files_inv_def refs_ok_def fds_ok_def std_nth never_closed_def initial_kstate_def
        std_files_def std_fds_def taken_ok_def)
qed

lemma file_steps_inv: "file_step\<^sup>*\<^sup>* s t \<Longrightarrow> files_inv T s \<Longrightarrow> files_inv T t"
  by (induction rule: rtranclp_induct) (auto intro: file_step_inv)

lemma files_inv_taken:
  "files_inv {} s \<Longrightarrow> files_inv {f. refcnt (spike_files s ! f) \<noteq> 0} s"
  by (simp add: files_inv_def taken_ok_def)

text \<open>
  C26: a defect of the reference counts. However often files are opened, descriptors
  closed and executables loaded after \<^verbatim>\<open>spike_file_init\<close>, the host is never asked to close
  a file, and a slot once taken is never free again.
\<close>

theorem host_files_never_closed:
  assumes "spike_file_init (initial_kstate E n m) = Inr ((), s0)"
    and "file_step\<^sup>*\<^sup>* s0 s" and "file_step\<^sup>*\<^sup>* s t"
  shows "(\<forall>c \<in> set (host_log t). hnum c \<noteq> HTIFSYS_close) \<and>
    (\<forall>f < MAX_FILES. refcnt (spike_files s ! f) \<noteq> 0 \<longrightarrow> refcnt (spike_files t ! f) \<noteq> 0)"
proof -
  have "files_inv {} s0"
    using assms(1) files_inv_std [of E n m] spike_file_init_eq [of E n m] by simp
  then have "files_inv {f. refcnt (spike_files s ! f) \<noteq> 0} s"
    using file_steps_inv [OF assms(2)] files_inv_taken by blast
  then have "files_inv {f. refcnt (spike_files s ! f) \<noteq> 0} t"
    by (rule file_steps_inv [OF assms(3)])
  then show ?thesis by (simp add: files_inv_def never_closed_def taken_ok_def)
qed

text \<open>In the example the host refuses to open anything.\<close>

theorem host_files_never_closed_witness:
  "\<exists>t. file_step ((initial_kstate sample_env 0 (\<lambda>_. 0))\<lparr>spike_files := std_files 3, spike_fds := std_fds 3\<rparr>) t \<and>
     (\<forall>c \<in> set (host_log t). hnum c \<noteq> HTIFSYS_close)"
proof -
  let ?s = "(initial_kstate sample_env 0 (\<lambda>_. 0))\<lparr>spike_files := std_files 3, spike_fds := std_fds 3\<rparr>"
  have "host_close 7 ?s = Inr (- 1, ?s)"
    by (simp add: host_close_def spike_file_get_def spike_file_close_def kdefs std_nth)
  then have step: "file_step ?s ?s" by (rule closed)
  then show ?thesis
    using host_files_never_closed [OF spike_file_init_eq rtranclp.rtrancl_refl, of sample_env 0 "\<lambda>_. 0" ?s] by blast
qed

end
