(* ===== verification/PKE_Fs.thy ===== *)
theory PKE_Fs
  imports PKE_Vmm PKE_Spike
begin

text \<open>
  The file system layers: the RAM disk of \<^verbatim>\<open>kernel/dev.c\<close>, the RAM file system of
  \<^verbatim>\<open>kernel/rfs.c\<close> and the virtual file system of \<^verbatim>\<open>kernel/vfs.c\<close>.

  The structures of the headers live in pages of the allocator, at the byte offsets the
  RV64 ABI gives their fields. A function pointer is the address of the function; calling
  through it compares the address with those the linker gave the functions the code
  stores there, and any other address is a jump to nowhere, \<open>Wild\<close>. A parameter
  \<^verbatim>\<open>struct inode **node_store\<close> that points to a local variable of the caller is a
  component of the result, \<open>None\<close> where the callee leaves the variable as it was.
\<close>

section \<open>Layout of the structures\<close>

definition RAMDISK0 :: nat where [simp]: "RAMDISK0 = 0"
definition RAMDISK0_BLOCK :: i32 where [simp]: "RAMDISK0_BLOCK = 128"
definition RAMDISK0_BSIZE :: i32 where [simp]: "RAMDISK0_BSIZE = 4096"

text \<open>\<^verbatim>\<open>struct device\<close> and \<^verbatim>\<open>struct vfs_dev_t\<close>.\<close>

definition d_blocks :: "u64 \<Rightarrow> u64" where [simp]: "d_blocks d = d"
definition d_blocksize :: "u64 \<Rightarrow> u64" where [simp]: "d_blocksize d = d + 4"
definition d_input :: "u64 \<Rightarrow> u64" where [simp]: "d_input d = d + 8"
definition d_output :: "u64 \<Rightarrow> u64" where [simp]: "d_output d = d + 16"

definition dev_name :: "u64 \<Rightarrow> u64" where [simp]: "dev_name p = p"
definition dev_listidx :: "u64 \<Rightarrow> u64" where [simp]: "dev_listidx p = p + 8"
definition dev_dev :: "u64 \<Rightarrow> u64" where [simp]: "dev_dev p = p + 16"
definition dev_fs :: "u64 \<Rightarrow> u64" where [simp]: "dev_fs p = p + 24"

text \<open>
  \<^verbatim>\<open>struct rfs_fs\<close>, which starts \<^verbatim>\<open>struct fs\<close>; its superblock starts \<^verbatim>\<open>struct rfs_fs\<close>.
\<close>

definition super_magic :: "u64 \<Rightarrow> u64" where [simp]: "super_magic f = f"
definition super_size :: "u64 \<Rightarrow> u64" where [simp]: "super_size f = f + 4"
definition super_nblocks :: "u64 \<Rightarrow> u64" where [simp]: "super_nblocks f = f + 8"
definition super_ninodes :: "u64 \<Rightarrow> u64" where [simp]: "super_ninodes f = f + 12"
definition rfs_dev :: "u64 \<Rightarrow> u64" where [simp]: "rfs_dev f = f + 16"
definition rfs_freemap :: "u64 \<Rightarrow> u64" where [simp]: "rfs_freemap f = f + 24"
definition rfs_dirty :: "u64 \<Rightarrow> u64" where [simp]: "rfs_dirty f = f + 32"
definition rfs_buffer :: "u64 \<Rightarrow> u64" where [simp]: "rfs_buffer f = f + 40"
definition fs_type :: "u64 \<Rightarrow> u64" where [simp]: "fs_type f = f + 48"
definition fs_sync :: "u64 \<Rightarrow> u64" where [simp]: "fs_sync f = f + 56"
definition fs_get_root :: "u64 \<Rightarrow> u64" where [simp]: "fs_get_root f = f + 64"
definition fs_unmount :: "u64 \<Rightarrow> u64" where [simp]: "fs_unmount f = f + 72"
definition fs_cleanup :: "u64 \<Rightarrow> u64" where [simp]: "fs_cleanup f = f + 80"

text \<open>\<^verbatim>\<open>struct rfs_dinode\<close>, which starts \<^verbatim>\<open>struct inode\<close>, and \<^verbatim>\<open>struct rfs_direntry\<close>.\<close>

definition di_size :: "u64 \<Rightarrow> u64" where [simp]: "di_size n = n"
definition di_type :: "u64 \<Rightarrow> u64" where [simp]: "di_type n = n + 4"
definition di_nlinks :: "u64 \<Rightarrow> u64" where [simp]: "di_nlinks n = n + 8"
definition di_blocks :: "u64 \<Rightarrow> u64" where [simp]: "di_blocks n = n + 12"
definition di_addrs :: "u64 \<Rightarrow> nat \<Rightarrow> u64" where [simp]: "di_addrs n i = n + (16 + 8 * of_nat i)"
definition in_type :: "u64 \<Rightarrow> u64" where [simp]: "in_type n = n + 96"
definition in_num :: "u64 \<Rightarrow> u64" where [simp]: "in_num n = n + 100"
definition in_ref :: "u64 \<Rightarrow> u64" where [simp]: "in_ref n = n + 104"
definition in_fs :: "u64 \<Rightarrow> u64" where [simp]: "in_fs n = n + 112"
definition in_ops :: "u64 \<Rightarrow> u64" where [simp]: "in_ops n = n + 120"

definition DIRENTRY_SIZE :: u64 where [simp]: "DIRENTRY_SIZE = 32"
definition de_inum :: "u64 \<Rightarrow> nat \<Rightarrow> u64" where [simp]: "de_inum b j = b + DIRENTRY_SIZE * of_nat j"
definition de_name :: "u64 \<Rightarrow> nat \<Rightarrow> u64" where [simp]: "de_name b j = b + (DIRENTRY_SIZE * of_nat j + 4)"

definition T_FREE :: i32 where [simp]: "T_FREE = 0"
definition T_DEV :: i32 where [simp]: "T_DEV = 1"
definition T_DIR :: i32 where [simp]: "T_DIR = 2"
definition T_FILE :: i32 where [simp]: "T_FILE = 3"

definition RFS_TYPE :: i32 where [simp]: "RFS_TYPE = 0"
definition RFS_MAGIC :: i32 where [simp]: "RFS_MAGIC = 12345"
definition RFS_BLKSIZE :: u64 where [simp]: "RFS_BLKSIZE = 4096"
definition RFS_MAX_INODE_NUM :: i32 where [simp]: "RFS_MAX_INODE_NUM = 10"
definition RFS_NDIRECT :: nat where [simp]: "RFS_NDIRECT = 10"
definition RFS_BLKN_SUPER :: i32 where [simp]: "RFS_BLKN_SUPER = 0"
definition RFS_BLKN_INODE :: i32 where [simp]: "RFS_BLKN_INODE = 1"
definition RFS_BLKN_BITMAP :: i32 where [simp]: "RFS_BLKN_BITMAP = 11"
definition RFS_BLKN_FREE :: i32 where [simp]: "RFS_BLKN_FREE = 12"

section \<open>The RAM disk\<close>

definition ramdisk0_input :: "u64 \<Rightarrow> i32 \<Rightarrow> int K" where
  "ramdisk0_input buffer blkno =
     kthen (kguard (\<not> (blkno <s 0 \<or> RAMDISK0_BLOCK \<le>s blkno)) (Panic ''RAM Disk0: input block No out of range!''))
    (kbind (kget (\<lambda>s. RAMDISK0_BASE_ADDR s + scast (blkno * RAMDISK0_BSIZE))) (\<lambda>dst.
     kthen (memcpy dst buffer (scast RAMDISK0_BSIZE)) (kret 0)))"

definition ramdisk0_output :: "u64 \<Rightarrow> i32 \<Rightarrow> int K" where
  "ramdisk0_output buffer blkno =
     kthen (kguard (\<not> (blkno <s 0 \<or> RAMDISK0_BLOCK \<le>s blkno)) (Panic ''RAM Disk0: input block No out of range!''))
    (kbind (kget (\<lambda>s. RAMDISK0_BASE_ADDR s + scast (blkno * RAMDISK0_BSIZE))) (\<lambda>src.
     kthen (memcpy buffer src (scast RAMDISK0_BSIZE)) (kret 0)))"

text \<open>Calling a device function through its pointer.\<close>

definition call_dev :: "u64 \<Rightarrow> u64 \<Rightarrow> i32 \<Rightarrow> int K" where
  "call_dev fp buffer blkno = kbind (kget kenv) (\<lambda>E.
     if fp = sym_ramdisk0_input E then ramdisk0_input buffer blkno
     else if fp = sym_ramdisk0_output E then ramdisk0_output buffer blkno
     else kexits (Wild fp))"

definition dev_init_ramdisk0 :: "unit K" where
  "dev_init_ramdisk0 =
     kbind alloc_page (\<lambda>pdev.
     kbind (kget kenv) (\<lambda>E.
     kthen (store64 (dev_name pdev) (sym_str_ramdisk0 E))
    (kthen (store32 (dev_listidx pdev) (of_nat RAMDISK0))
    (kbind alloc_page (\<lambda>pd.
     kthen (store32 (d_blocks pd) RAMDISK0_BLOCK)
    (kthen (store32 (d_blocksize pd) RAMDISK0_BSIZE)
    (kthen (store64 (d_input pd) (sym_ramdisk0_input E))
    (kthen (store64 (d_output pd) (sym_ramdisk0_output E))
    (kthen (store64 (dev_dev pdev) pd)
    (kmod (\<lambda>s. s\<lparr>vdev_list := (vdev_list s)[RAMDISK0 := pdev]\<rparr>)))))))))))"

definition init_ramdisk0 :: "unit K" where
  "init_ramdisk0 =
     kfor [0..<nat (sint ((RAMDISK0_BLOCK * RAMDISK0_BSIZE - 1) div 4096 + 1))] (\<lambda>i.
       kbind alloc_page (\<lambda>p. kmod (\<lambda>s. s\<lparr>RAMDISK0_BASE_ADDR := p\<rparr>)))"

definition dev_init :: "unit K" where
  "dev_init = kthen init_ramdisk0 dev_init_ramdisk0"

section \<open>The RAM file system\<close>

definition alloc_fs :: "i32 \<Rightarrow> u64 K" where
  "alloc_fs ty = kbind alloc_page (\<lambda>fs. kthen (store32 (fs_type fs) ty) (kret fs))"

definition alloc_inode :: "i32 \<Rightarrow> u64 K" where
  "alloc_inode ty = kbind alloc_page (\<lambda>node. kthen (store32 (in_type node) ty) (kret node))"

definition rfs_r1block :: "u64 \<Rightarrow> i32 \<Rightarrow> int K" where
  "rfs_r1block rfs blkno =
     kbind (load64 (rfs_dev rfs)) (\<lambda>d. kbind (load64 (d_output d)) (\<lambda>fp.
     kbind (load64 (rfs_buffer rfs)) (\<lambda>b. call_dev fp b blkno)))"

definition rfs_w1block :: "u64 \<Rightarrow> i32 \<Rightarrow> int K" where
  "rfs_w1block rfs blkno =
     kbind (load64 (rfs_dev rfs)) (\<lambda>d. kbind (load64 (d_input d)) (\<lambda>fp.
     kbind (load64 (rfs_buffer rfs)) (\<lambda>b. call_dev fp b blkno)))"

text \<open>Writing a block and panicking if the device says it failed.\<close>

definition w1block_or_panic :: "u64 \<Rightarrow> i32 \<Rightarrow> string \<Rightarrow> unit K" where
  "w1block_or_panic rfs blkno msg =
     kbind (rfs_w1block rfs blkno) (\<lambda>ret. kguard (ret = 0) (Panic msg))"

definition build_superblock :: "u64 \<Rightarrow> unit K" where
  "build_superblock prfs =
     kthen (store32 (super_magic prfs) RFS_MAGIC)
    (kthen (store32 (super_size prfs) (1 + RFS_MAX_INODE_NUM + 1 + RFS_MAX_INODE_NUM * of_nat RFS_NDIRECT))
    (kthen (store32 (super_nblocks prfs) (RFS_MAX_INODE_NUM * of_nat RFS_NDIRECT))
    (kthen (store32 (super_ninodes prfs) RFS_MAX_INODE_NUM)
    (kbind (load64 (rfs_buffer prfs)) (\<lambda>b.
     kthen (memcpy b (super_magic prfs) RFS_BLKSIZE)
       (w1block_or_panic prfs RFS_BLKN_SUPER ''RFS: failed to write superblock!''))))))"

definition build_bitmap :: "u64 \<Rightarrow> unit K" where
  "build_bitmap prfs =
     kbind alloc_page (\<lambda>fm.
     kthen (store64 (rfs_freemap prfs) fm)
    (kthen (memset fm 0 RFS_BLKSIZE)
    (kthen (store32 fm 1)
    (kbind (load64 (rfs_buffer prfs)) (\<lambda>b.
     kthen (memcpy b fm RFS_BLKSIZE)
       (w1block_or_panic prfs RFS_BLKN_BITMAP ''RFS: failed to write bitmap!''))))))"

text \<open>
  The loop over the inode blocks reads its bound, \<^verbatim>\<open>super.ninodes\<close>, before each test; the
  body does not write it, so it is read once.
\<close>

definition build_inodes :: "u64 \<Rightarrow> u64 \<Rightarrow> unit K" where
  "build_inodes prfs pinode =
     kthen (store32 (di_size pinode) 0)
    (kthen (store32 (di_type pinode) T_FREE)
    (kthen (store32 (di_nlinks pinode) 0)
    (kthen (store32 (di_blocks pinode) 0)
    (kbind (load32 (super_ninodes prfs)) (\<lambda>n.
     kthen (kfor [1..<nat (sint n)] (\<lambda>i.
       w1block_or_panic prfs (RFS_BLKN_INODE + of_nat i) ''RFS: failed to write inodes!''))
    (kthen (store32 (di_size pinode) (ucast DIRENTRY_SIZE))
    (kthen (store32 (di_type pinode) T_DIR)
    (kthen (store32 (di_nlinks pinode) 1)
    (kthen (store32 (di_blocks pinode) 1)
    (kthen (store64 (di_addrs pinode 0) (scast RFS_BLKN_FREE))
       (w1block_or_panic prfs RFS_BLKN_INODE ''RFS: failed to write root inode!'')))))))))))"

definition build_root_dir :: "u64 \<Rightarrow> unit K" where
  "build_root_dir prfs =
     kbind (load64 (rfs_buffer prfs)) (\<lambda>pdir.
     kthen (store32 (de_inum pdir 0) RFS_BLKN_INODE)
    (kbind (kget (\<lambda>s. sym_str_slash (kenv s))) (\<lambda>slash.
     kthen (strcpy (de_name pdir 0) slash)
       (w1block_or_panic prfs RFS_BLKN_FREE ''RFS: failed to write root inode!''))))"

definition rfs_do_mount :: "u64 \<Rightarrow> u64 \<Rightarrow> int K" where
  "rfs_do_mount pdevice vfs_fs =
     kbind (alloc_fs RFS_TYPE) (\<lambda>fs.
     (let prfs = fs in
      kthen (store64 (rfs_dev prfs) pdevice)
     (kthen (store32 (rfs_dirty prfs) 0)
     (kbind alloc_page (\<lambda>b.
      kthen (store64 (rfs_buffer prfs) b)
     (kthen (build_superblock prfs)
     (kthen (build_bitmap prfs)
     (kbind (load64 (rfs_buffer prfs)) (\<lambda>pinode.
      kthen (build_inodes prfs pinode)
     (kthen (build_root_dir prfs)
     (kbind (kget kenv) (\<lambda>E.
      kthen (store64 (fs_sync fs) (sym_rfs_sync E))
     (kthen (store64 (fs_get_root fs) (sym_rfs_get_root E))
     (kthen (store64 (fs_unmount fs) (sym_rfs_unmount E))
     (kthen (store64 (fs_cleanup fs) (sym_rfs_cleanup E))
     (kthen (store64 vfs_fs fs) (kret 0)))))))))))))))))"

definition rfs_sync :: "u64 \<Rightarrow> int K" where
  "rfs_sync fs = kexits (Panic ''RFS: rfs_sync unimplemented!'')"

definition rfs_get_ops :: "i32 \<Rightarrow> u64 K" where
  "rfs_get_ops ty = kbind (kget kenv) (\<lambda>E.
     if ty = T_DIR then kret (sym_rfs_node_dirops E)
     else if ty = T_FILE then kret (sym_rfs_node_fileops E)
     else kexits (Panic ''RFS: invalid file type''))"

definition copy32 :: "u64 \<Rightarrow> u64 \<Rightarrow> unit K" where
  "copy32 d a = kbind (load32 a) (store32 d)"

definition copy64 :: "u64 \<Rightarrow> u64 \<Rightarrow> unit K" where
  "copy64 d a = kbind (load64 a) (store64 d)"

definition rfs_create_inode :: "u64 \<Rightarrow> u64 \<Rightarrow> i32 \<Rightarrow> (int \<times> u64) K" where
  "rfs_create_inode prfs din ino =
     kbind (alloc_inode RFS_TYPE) (\<lambda>node.
     kthen (copy32 (di_size node) (di_size din))
    (kthen (copy32 (di_type node) (di_type din))
    (kthen (copy32 (di_nlinks node) (di_nlinks din))
    (kthen (copy32 (di_blocks node) (di_blocks din))
    (kthen (kfor [0..<RFS_NDIRECT] (\<lambda>i. copy64 (di_addrs node i) (di_addrs din i)))
    (kthen (store32 (in_num node) ino)
    (kthen (store32 (in_ref node) 0)
    (kthen (store64 (in_fs node) prfs)
    (kbind (load32 (di_type node)) (\<lambda>ty.
     kbind (rfs_get_ops ty) (\<lambda>ops.
     kthen (store64 (in_ops node) ops)
       (kret (0, node)))))))))))))"

definition rfs_load_dinode :: "u64 \<Rightarrow> i32 \<Rightarrow> (int \<times> u64) K" where
  "rfs_load_dinode prfs ino =
     kbind (rfs_r1block prfs RFS_BLKN_INODE) (\<lambda>ret.
     kthen (kguard (ret = 0) (Panic ''RFS: failed to read inode!''))
    (kbind (load64 (rfs_buffer prfs)) (\<lambda>dnode.
     kbind (rfs_create_inode prfs dnode ino) (\<lambda>(ret, node).
     kthen (kguard (ret = 0) (Panic ''RFS: failed to create inode from dinode!''))
       (kret (0, node))))))"

definition rfs_get_root :: "u64 \<Rightarrow> u64 K" where
  "rfs_get_root fs =
     kbind (rfs_load_dinode fs RFS_BLKN_INODE) (\<lambda>(ret, node).
     kthen (kguard (ret = 0) (Panic ''RFS: failed to load root inode!'')) (kret node))"

definition rfs_unmount :: "u64 \<Rightarrow> int K" where "rfs_unmount fs = kret 0"
definition rfs_cleanup :: "u64 \<Rightarrow> unit K" where "rfs_cleanup fs = kret ()"
definition rfs_opendir :: "u64 \<Rightarrow> i32 \<Rightarrow> int K" where "rfs_opendir node open_flags = kret 0"
definition rfs_openfile :: "u64 \<Rightarrow> i32 \<Rightarrow> int K" where "rfs_openfile node open_flags = kret 0"
definition rfs_close :: "u64 \<Rightarrow> int K" where "rfs_close node = kret 0"

text \<open>The \<^verbatim>\<open>struct fstat\<close> the only caller passes is a local variable of it.\<close>

record fstat =
  st_mode :: i32
  st_nlinks :: i32
  st_blocks :: i32
  st_size :: i32

definition rfs_fstat :: "u64 \<Rightarrow> (int \<times> fstat) K" where
  "rfs_fstat node =
     kbind (load32 (di_type node)) (\<lambda>m. kbind (load32 (di_nlinks node)) (\<lambda>l.
     kbind (load32 (di_blocks node)) (\<lambda>b. kbind (load32 (di_size node)) (\<lambda>z.
       kret (0, \<lparr>st_mode = m, st_nlinks = l, st_blocks = b, st_size = z\<rparr>)))))"

text \<open>
  How many entries block \<open>i\<close> of a directory of \<open>sz\<close> bytes holds. The division is unsigned,
  as \<^verbatim>\<open>sizeof\<close> is.
\<close>

definition dir_entries :: "i32 \<Rightarrow> nat \<Rightarrow> i32" where
  "dir_entries sz i = (let nde = sz - of_nat i * ucast RFS_BLKSIZE in
     if ucast RFS_BLKSIZE <s nde then ucast (RFS_BLKSIZE div DIRENTRY_SIZE)
     else ucast ((scast nde :: u64) div DIRENTRY_SIZE))"

text \<open>
  The lookup only reads while it searches, so the loop bounds are read once. The number of
  the entry is read for the message it prints, before the name is compared.
\<close>

definition lookup_entry :: "u64 \<Rightarrow> u64 \<Rightarrow> u64 \<Rightarrow> nat \<Rightarrow> u64 option K" where
  "lookup_entry prfs name de j =
     kbind (load32 (de_inum de j)) (\<lambda>_.
     kbind (strcmp (de_name de j) name) (\<lambda>r.
       if r \<noteq> 0 then kret None
       else
         kbind (load32 (de_inum de j)) (\<lambda>inum.
         kbind (rfs_r1block prfs inum) (\<lambda>_.
         kbind (load64 (rfs_buffer prfs)) (\<lambda>b.
         kbind (load32 (de_inum de j)) (\<lambda>inum'.
         kbind (rfs_create_inode prfs b inum') (\<lambda>(_, n). kret (Some n))))))))"

definition rfs_lookup :: "u64 \<Rightarrow> u64 \<Rightarrow> (int \<times> u64 option) K" where
  "rfs_lookup node path =
     kbind (load64 (in_fs node)) (\<lambda>prfs.
     kbind (load8 path) (\<lambda>c0.
     kthen (if c0 = 47
            then kbind (load8 (path + 1)) (\<lambda>c1. kguard (c1 \<noteq> 0) (Panic ''rfs_lookup: no file name specified!''))
            else kexits (Panic ''rfs_lookup: not an absolute path!''))
    (kbind (load32 (di_blocks node)) (\<lambda>blocks.
     kbind (kfirst [0..<nat (sint blocks)] (\<lambda>i.
       kbind (load64 (di_addrs node i)) (\<lambda>de.
       kbind (load32 (di_size node)) (\<lambda>sz.
       kfirst [0..<nat (sint (dir_entries sz i))] (lookup_entry prfs (path + 1) de))))) (\<lambda>r. case r of
         Some n \<Rightarrow> kret (0, Some n)
       | None \<Rightarrow> kret (1, None))))))"

section \<open>The virtual file system\<close>

text \<open>The search both \<^verbatim>\<open>vfs_mount\<close> and \<^verbatim>\<open>vfs_get_root\<close> make in the device list.\<close>

fun find_dev :: "u64 list \<Rightarrow> u64 \<Rightarrow> u64 \<Rightarrow> u64 K" where
  "find_dev [] pdev_t name = kret pdev_t"
| "find_dev (p # ps) pdev_t name =
     kbind (load64 (dev_name p)) (\<lambda>nm. kbind (strcmp nm name) (\<lambda>r.
       if r = 0 then kret p else find_dev ps p name))"

definition vfs_mount :: "u64 \<Rightarrow> (u64 \<Rightarrow> u64 \<Rightarrow> int K) \<Rightarrow> int K" where
  "vfs_mount name mountfunc =
     kbind (kget vdev_list) (\<lambda>devs. kbind (find_dev devs 0 name) (\<lambda>pdev_t.
     kthen (kguard (pdev_t \<noteq> 0) (Panic ''vfs_mount: Cannot find the device entry!''))
    (kbind (load64 (dev_dev pdev_t)) (\<lambda>pdevice.
     kbind (mountfunc pdevice (dev_fs pdev_t)) (\<lambda>ret. kret 0)))))"

definition fsop_get_root :: "u64 \<Rightarrow> u64 K" where
  "fsop_get_root fs =
     kbind (load64 (fs_get_root fs)) (\<lambda>fp. kbind (kget kenv) (\<lambda>E.
       if fp = sym_rfs_get_root E then rfs_get_root fs else kexits (Wild fp)))"

definition vfs_get_root :: "u64 \<Rightarrow> (int \<times> u64) K" where
  "vfs_get_root name =
     kbind (kget vdev_list) (\<lambda>devs. kbind (find_dev devs 0 name) (\<lambda>pdev_t.
     kthen (kguard (pdev_t \<noteq> 0) (Panic ''vfs_get_root: Cannot find the device entry!''))
    (kbind (load64 (dev_fs pdev_t)) (\<lambda>fs.
     kbind (fsop_get_root fs) (\<lambda>rootdir.
     kthen (kguard (rootdir \<noteq> 0) (Panic ''vfs_get_root: failed to get root dir inode!''))
       (kret (0, rootdir)))))))"

text \<open>
  The operations of an inode, by the table \<^verbatim>\<open>in_ops\<close> points to. The tables are constants of
  the code; an entry its initialiser leaves out is the null pointer.
\<close>

datatype rfs_fn = Rfs_opendir | Rfs_openfile | Rfs_close | Rfs_fstat | Rfs_lookup

record inode_ops =
  op_open :: "rfs_fn option"
  op_close :: "rfs_fn option"
  op_fstat :: "rfs_fn option"
  op_lookup :: "rfs_fn option"

definition rfs_node_dirops :: inode_ops where
  "rfs_node_dirops = \<lparr>op_open = Some Rfs_opendir, op_close = Some Rfs_close,
     op_fstat = Some Rfs_fstat, op_lookup = Some Rfs_lookup\<rparr>"

definition rfs_node_fileops :: inode_ops where
  "rfs_node_fileops = \<lparr>op_open = Some Rfs_openfile, op_close = Some Rfs_close,
     op_fstat = Some Rfs_fstat, op_lookup = None\<rparr>"

definition ops_at :: "kenv \<Rightarrow> u64 \<Rightarrow> inode_ops option" where
  "ops_at E ops =
     (if ops = sym_rfs_node_dirops E then Some rfs_node_dirops
      else if ops = sym_rfs_node_fileops E then Some rfs_node_fileops else None)"

definition load_op :: "(inode_ops \<Rightarrow> rfs_fn option) \<Rightarrow> u64 \<Rightarrow> rfs_fn K" where
  "load_op sel node =
     kbind (load64 (in_ops node)) (\<lambda>ops. kbind (kget kenv) (\<lambda>E. case ops_at E ops of
       None \<Rightarrow> kexits (Wild ops)
     | Some tbl \<Rightarrow> (case sel tbl of None \<Rightarrow> kexits (Wild 0) | Some f \<Rightarrow> kret f)))"

definition vop_lookup :: "u64 \<Rightarrow> u64 \<Rightarrow> (int \<times> u64 option) K" where
  "vop_lookup node path =
     kbind (load_op op_lookup node) (\<lambda>f. if f = Rfs_lookup then rfs_lookup node path else kexits (Undef ''vop_lookup''))"

definition vop_fstat :: "u64 \<Rightarrow> (int \<times> fstat) K" where
  "vop_fstat node =
     kbind (load_op op_fstat node) (\<lambda>f. if f = Rfs_fstat then rfs_fstat node else kexits (Undef ''vop_fstat''))"

text \<open>The address of the first colon of a path.\<close>

function find_colon :: "u64 \<Rightarrow> u64 option K" where
  "find_colon p s = kbind (load8 p) (\<lambda>c.
     if c = 0 then kret None
     else if c = 58 then kret (Some p)
     else find_colon (p + 1)) s"
  by pat_completeness auto
termination
  by (relation "measure (\<lambda>(p, s). 0x88000000 - unat p)")
     (auto dest!: load8_bound simp: unat_step kdefs)

declare find_colon.simps [simp del]

definition get_device :: "u64 \<Rightarrow> (int \<times> u64 \<times> u64) K" where
  "get_device path =
     kbind (find_colon path) (\<lambda>colon. case colon of
       None \<Rightarrow> kret (- 1, path, 0)
     | Some c \<Rightarrow>
         kthen (store8 c 0)
        (kbind (vfs_get_root path) (\<lambda>(ret, node). kret (ret, c + 1, node))))"

definition vfs_lookup :: "u64 \<Rightarrow> (int \<times> u64 option) K" where
  "vfs_lookup path =
     kbind (get_device path) (\<lambda>(ret, subpath, dir).
       if ret = - 1 then kret (- 1, Some 0)
       else
         kbind (load8 subpath) (\<lambda>c.
         kthen (kguard (c = 47) (Panic ''vfs_lookup: invalid file path!''))
           (vop_lookup dir subpath)))"

definition O_RDONLY :: u32 where [simp]: "O_RDONLY = 0"
definition O_WRONLY :: u32 where [simp]: "O_WRONLY = 1"
definition O_RDWR :: u32 where [simp]: "O_RDWR = 2"
definition O_CREATE :: u32 where [simp]: "O_CREATE = 0x200"
definition MASK_FILEMODE :: u32 where [simp]: "MASK_FILEMODE = 3"

definition vfs_open :: "u64 \<Rightarrow> u32 \<Rightarrow> (int \<times> u64 option) K" where
  "vfs_open path flags =
     kthen (kguard (flags AND MASK_FILEMODE \<in> {O_RDONLY, O_WRONLY, O_RDWR})
       (Panic ''fs_open: invalid open flags!''))
    (kbind (vfs_lookup path) (\<lambda>(ret, node).
       if ret = - 1 then kbind (host_open path flags) (\<lambda>kfd. kret (kfd, None))
       else kret (0, node)))"

definition rfs_mount :: "u64 \<Rightarrow> int K" where
  "rfs_mount name = vfs_mount name rfs_do_mount"

definition rfs_init :: "unit K" where
  "rfs_init =
     kbind (kget (\<lambda>s. sym_str_ramdisk0 (kenv s))) (\<lambda>name.
     kbind (rfs_mount name) (\<lambda>ret. kguard (ret = 0) (Panic ''failed: rfs: rfs_mount'')))"

end
