(* ===== verification/PKE_File.thy ===== *)
theory PKE_File
  imports PKE_Fs
begin

text \<open>
  The files of a process, \<^verbatim>\<open>kernel/file.c\<close>. The table \<^verbatim>\<open>struct files_struct\<close> starts a page:
  the working directory, 128 entries of 32 bytes and the number of open files. It is
  4112 bytes long, so that the number of open files lies in the page after the one the
  table was given.
\<close>

section \<open>The file table\<close>

definition FD_HOST :: u32 where [simp]: "FD_HOST = 0"
definition FD_NONE :: u32 where [simp]: "FD_NONE = 1"
definition FD_OPENED :: u32 where [simp]: "FD_OPENED = 2"
definition FD_CLOSED :: u32 where [simp]: "FD_CLOSED = 3"

text \<open>Fields of \<^verbatim>\<open>struct files_struct\<close> and \<^verbatim>\<open>struct file\<close>.\<close>

definition fls_cwd :: "u64 \<Rightarrow> u64" where [simp]: "fls_cwd p = p"
definition fls_ofile :: "u64 \<Rightarrow> i32 \<Rightarrow> u64" where [simp]: "fls_ofile p fd = p + (8 + 32 * scast fd)"
definition fls_nfile :: "u64 \<Rightarrow> u64" where [simp]: "fls_nfile p = p + 4104"

definition file_status :: "u64 \<Rightarrow> u64" where [simp]: "file_status f = f"
definition file_readable :: "u64 \<Rightarrow> u64" where [simp]: "file_readable f = f + 4"
definition file_writable :: "u64 \<Rightarrow> u64" where [simp]: "file_writable f = f + 8"
definition file_fd :: "u64 \<Rightarrow> u64" where [simp]: "file_fd f = f + 12"
definition file_off :: "u64 \<Rightarrow> u64" where [simp]: "file_off f = f + 16"
definition file_ref :: "u64 \<Rightarrow> u64" where [simp]: "file_ref f = f + 20"
definition file_node :: "u64 \<Rightarrow> u64" where [simp]: "file_node f = f + 24"

text \<open>The process \<^verbatim>\<open>current\<close> points to; the null pointer traps.\<close>

definition cur_proc :: "process K" where
  "cur_proc = kbind (kget current) (\<lambda>c. case c of
     None \<Rightarrow> kexits (Wild 0) | Some i \<Rightarrow> kget (\<lambda>s. procs s ! i))"

definition add32 :: "u64 \<Rightarrow> u32 \<Rightarrow> unit K" where
  "add32 a d = kbind (load32 a) (\<lambda>v. store32 a (v + d))"

section \<open>The operations\<close>

definition fs_init :: "unit K" where
  "fs_init = kthen dev_init rfs_init"

text \<open>
  The search for a free entry, which leaves \<^verbatim>\<open>fd\<close> and \<^verbatim>\<open>pfile\<close> at the entry it stops at;
  when it runs to the end, \<^verbatim>\<open>pfile\<close> is the last entry.
\<close>

definition find_entry :: "u64 \<Rightarrow> (nat \<times> u64) K" where
  "find_entry pfs =
     kbind (kfirst [0..<MAX_FILES] (\<lambda>fd.
       kbind (load32 (file_status (fls_ofile pfs (of_nat fd)))) (\<lambda>st.
         kret (if st = FD_NONE then Some fd else None)))) (\<lambda>r. case r of
       Some fd \<Rightarrow> kret (fd, fls_ofile pfs (of_nat fd))
     | None \<Rightarrow> kret (MAX_FILES, fls_ofile pfs (of_nat (MAX_FILES - 1))))"

definition open_host_entry :: "u64 \<Rightarrow> i32 \<Rightarrow> u64 K" where
  "open_host_entry pfs fd =
     (let pfile = fls_ofile pfs fd in
      kthen (store32 (file_status pfile) FD_HOST)
     (kthen (store32 (file_fd pfile) fd) (kret pfile)))"

definition open_ram_entry :: "u64 \<Rightarrow> u32 \<Rightarrow> u32 \<Rightarrow> u64 option \<Rightarrow> u64 K" where
  "open_ram_entry pfs readable writable node =
     kbind (find_entry pfs) (\<lambda>(fd, pfile).
     kbind (load32 (file_status pfile)) (\<lambda>st.
     kthen (kguard (st = FD_NONE) (Panic ''do_ram_open: no file entry for current process!''))
    (kthen (store32 (file_status pfile) FD_OPENED)
    (kthen (store32 (file_readable pfile) readable)
    (kthen (store32 (file_writable pfile) writable)
    (kthen (store32 (file_fd pfile) (of_nat fd))
    (kthen (store32 (file_ref pfile) 1)
    (case node of
       None \<Rightarrow> kexits (Undef ''node'')
     | Some n \<Rightarrow>
         kthen (store64 (file_node pfile) n)
        (kthen (store32 (file_off pfile) 0)
        (kbind (vop_fstat n) (\<lambda>(ret, st).
         kthen (kguard (ret = 0) (Panic ''do_ram_open: failed to get file status!''))
        (kthen (store32 (file_off pfile) (st_size st)) (kret pfile)))))))))))))"

definition do_open :: "u64 \<Rightarrow> u32 \<Rightarrow> i32 K" where
  "do_open pathname flags =
     (let mode = flags AND MASK_FILEMODE;
          readable = (if mode = O_RDONLY \<or> mode = O_RDWR then 1 else 0);
          writable = (if mode = O_WRONLY \<or> mode = O_RDWR then 1 else 0) in
      kthen (kguard (mode \<in> {O_RDONLY, O_WRONLY, O_RDWR}) (Panic ''do_ram_open: invalid open flags!''))
     (kbind (vfs_open pathname flags) (\<lambda>(ret, node).
      kbind cur_proc (\<lambda>p.
      kbind (if ret \<noteq> 0 then open_host_entry (pfiles p) (of_int ret)
             else open_ram_entry (pfiles p) readable writable node) (\<lambda>pfile.
      kthen (add32 (fls_nfile (pfiles p)) 1)
        (load32 (file_fd pfile)))))))"

definition do_read :: "i32 \<Rightarrow> u64 \<Rightarrow> u64 \<Rightarrow> i32 K" where "do_read fd buf count = kret (- 1)"
definition do_write :: "i32 \<Rightarrow> u64 \<Rightarrow> u64 \<Rightarrow> i32 K" where "do_write fd buf count = kret (- 1)"
definition do_close :: "i32 \<Rightarrow> i32 K" where "do_close fd = kret (- 1)"

definition save_host_entry :: "u64 \<Rightarrow> nat \<Rightarrow> unit K" where
  "save_host_entry pfs i =
     kbind (kget (\<lambda>s. spike_files s ! i)) (\<lambda>f.
       if kfd f = - 1 then kret ()
       else
         kthen (store32 (file_status (fls_ofile pfs (of_nat i))) FD_HOST)
        (kthen (store32 (file_fd (fls_ofile pfs (of_nat i))) (kfd f))
        (kthen (store32 (file_ref (fls_ofile pfs (of_nat i))) (refcnt f))
           (add32 (fls_nfile pfs) 1))))"

definition clear_entry :: "u64 \<Rightarrow> nat \<Rightarrow> unit K" where
  "clear_entry pfs i =
     kbind (load32 (file_status (fls_ofile pfs (of_nat i)))) (\<lambda>st.
       if st = FD_HOST then kret ()
       else
         kthen (store32 (file_status (fls_ofile pfs (of_nat i))) FD_NONE)
           (store32 (file_ref (fls_ofile pfs (of_nat i))) 0))"

definition files_create :: "u64 K" where
  "files_create =
     kbind alloc_page (\<lambda>pfs.
     kthen (store64 (fls_cwd pfs) 0)
    (kthen (store32 (fls_nfile pfs) 0)
    (kthen (kfor [0..<MAX_FILES] (save_host_entry pfs))
    (kthen (kfor [0..<MAX_FILES] (clear_entry pfs))
       (kret pfs)))))"

definition files_destroy :: "u64 \<Rightarrow> unit K" where
  "files_destroy pfs = free_page pfs"

end
