(* ===== verification/PKE_Process.thy ===== *)
theory PKE_Process
  imports PKE_Sched PKE_File
begin

text \<open>
  Processes, \<^verbatim>\<open>kernel/process.c\<close>: the pool, building and rebuilding the address space of a
  process, fork, wait and the report of \<^verbatim>\<open>do_getinfo\<close>. (\<^verbatim>\<open>switch_to\<close> is in the theory of
  the scheduler and \<^verbatim>\<open>do_exec\<close> in that of the loader, which it needs.)

  A process is an index into \<open>procs\<close>. Its memory regions are recorded in a page of
  16-byte entries (\<^verbatim>\<open>struct mapped_region\<close>) that the field \<open>mapped_info\<close> points to.
\<close>

section \<open>Memory regions\<close>

definition MAPPED_REGION_SIZE :: u64 where [simp]: "MAPPED_REGION_SIZE = 16"
definition TRAPFRAME_SIZE :: u64 where [simp]: "TRAPFRAME_SIZE = 280"

definition region_va :: "u64 \<Rightarrow> u64 \<Rightarrow> u64" where
  [simp]: "region_va mi j = mi + MAPPED_REGION_SIZE * j"

definition region_npages :: "u64 \<Rightarrow> u64 \<Rightarrow> u64" where
  [simp]: "region_npages mi j = mi + (MAPPED_REGION_SIZE * j + 8)"

definition region_seg_type :: "u64 \<Rightarrow> u64 \<Rightarrow> u64" where
  [simp]: "region_seg_type mi j = mi + (MAPPED_REGION_SIZE * j + 12)"

definition set_region :: "u64 \<Rightarrow> u64 \<Rightarrow> u64 \<Rightarrow> u32 \<Rightarrow> u32 \<Rightarrow> unit K" where
  "set_region mi j va np ty =
     kthen (store64 (region_va mi j) va)
    (kthen (store32 (region_npages mi j) np)
       (store32 (region_seg_type mi j) ty))"

definition the_proc :: "nat \<Rightarrow> process K" where
  "the_proc i = kget (\<lambda>s. procs s ! i)"

definition set_proc :: "nat \<Rightarrow> (process \<Rightarrow> process) \<Rightarrow> unit K" where
  "set_proc i f = kmod (upd_proc i f)"

section \<open>The process pool\<close>

definition init_proc_pool :: "unit K" where
  "init_proc_pool =
     kthen (kmod (\<lambda>s. s\<lparr>procs := replicate NPROC zero_process\<rparr>))
    (kfor [0..<NPROC] (\<lambda>i. set_proc i (\<lambda>p. p\<lparr>status := FREE, pid := of_nat i,
       tick_count := 0, total_tick_count := 0, total_mem_count := 0\<rparr>)))"

lemma kfor_set_proc:
  "n \<le> length (procs s) \<Longrightarrow> kfor [0..<n] (\<lambda>i. set_proc i (f i)) s =
     Inr ((), s\<lparr>procs := map (\<lambda>i. f i (procs s ! i)) [0..<n] @ drop n (procs s)\<rparr>)"
proof (induction n)
  case 0
  show ?case by (simp add: kdefs)
next
  case (Suc n)
  then have "(map (\<lambda>i. f i (procs s ! i)) [0..<n] @ drop n (procs s))[n := f n (procs s ! n)] =
      map (\<lambda>i. f i (procs s ! i)) [0..<Suc n] @ drop (Suc n) (procs s)"
    by (simp add: list_update_append Cons_nth_drop_Suc [symmetric])
  with Suc show ?case
    by (simp add: kfor_append set_proc_def upd_proc_def kdefs nth_append Cons_nth_drop_Suc [symmetric])
qed

lemma init_proc_pool_eq:
  "init_proc_pool s = Inr ((), s\<lparr>procs := map (\<lambda>i. zero_process\<lparr>pid := of_nat i\<rparr>) [0..<NPROC]\<rparr>)"
proof -
  have "kfor [0..<n] (\<lambda>i. set_proc i (\<lambda>p. p\<lparr>status := FREE, pid := of_nat i,
       tick_count := 0, total_tick_count := 0, total_mem_count := 0\<rparr>)) (s\<lparr>procs := replicate n zero_process\<rparr>) =
     Inr ((), s\<lparr>procs := map (\<lambda>i. zero_process\<lparr>pid := of_nat i\<rparr>) [0..<n]\<rparr>)" for n
    by (subst kfor_set_proc) (simp_all add: zero_process_def)
  from this [of NPROC] show ?thesis unfolding init_proc_pool_def kthen_eq kmod_eq sum.case prod.case .
qed

text \<open>
  The regions every process starts with: its stack, its trapframe and the trap vector.
  \<^verbatim>\<open>alloc_process\<close> and \<^verbatim>\<open>realloc_process\<close> have these lines in common.
\<close>

definition map_initial_regions :: "nat \<Rightarrow> u64 \<Rightarrow> unit K" where
  "map_initial_regions i user_stack =
     kbind (the_proc i) (\<lambda>p.
     kbind (kget (\<lambda>s. sym_trap_sec_start (kenv s))) (\<lambda>trap_sec_start.
     kthen (user_vm_map (pagetable p) (USER_STACK_TOP - PGSIZE) PGSIZE user_stack
       (prot_to_type (PROT_WRITE OR PROT_READ) 1))
    (kthen (set_region (mapped_info p) 0 (USER_STACK_TOP - PGSIZE) 1 STACK_SEGMENT)
    (kthen (user_vm_map (pagetable p) (trapframe p) PGSIZE (trapframe p)
       (prot_to_type (PROT_WRITE OR PROT_READ) 0))
    (kthen (set_region (mapped_info p) 1 (trapframe p) 1 CONTEXT_SEGMENT)
    (kthen (user_vm_map (pagetable p) trap_sec_start PGSIZE trap_sec_start
       (prot_to_type (PROT_READ OR PROT_EXEC) 0))
       (set_region (mapped_info p) 2 trap_sec_start 1 SYSTEM_SEGMENT)))))))"

definition alloc_space :: "nat \<Rightarrow> unit K" where
  "alloc_space i =
     kthen (set_proc i (\<lambda>p. p\<lparr>total_mem_count := 0\<rparr>))
    (kbind alloc_page (\<lambda>tf.
     kthen (set_proc i (\<lambda>p. p\<lparr>trapframe := tf\<rparr>))
    (kthen (memset tf 0 TRAPFRAME_SIZE)
    (kbind alloc_page (\<lambda>pt.
     kthen (set_proc i (\<lambda>p. p\<lparr>pagetable := pt\<rparr>))
    (kthen (memset pt 0 PGSIZE)
    (kbind alloc_page (\<lambda>ks.
     kthen (set_proc i (\<lambda>p. p\<lparr>kstack := ks + PGSIZE\<rparr>))
    (kbind alloc_page (\<lambda>user_stack.
     kthen (store64 (tf + TF_SP) USER_STACK_TOP)
    (kbind alloc_page (\<lambda>mi.
     kthen (set_proc i (\<lambda>p. p\<lparr>mapped_info := mi\<rparr>))
    (kthen (memset mi 0 PGSIZE)
    (kthen (map_initial_regions i user_stack)
       (set_proc i (\<lambda>p. p\<lparr>total_mapped_region := 3, total_tick_count := 0, tick_count := 0\<rparr>))))))))))))))))"

definition alloc_process :: "nat K" where
  "alloc_process =
     kbind (kget (\<lambda>s. find (\<lambda>i. status (procs s ! i) = FREE) [0..<NPROC])) (\<lambda>r. case r of
       None \<Rightarrow> kexits (Panic ''cannot find any free process structure.'')
     | Some i \<Rightarrow>
         kthen (alloc_space i)
        (kbind files_create (\<lambda>pfs.
         kthen (set_proc i (\<lambda>p. p\<lparr>pfiles := pfs\<rparr>))
           (kret i))))"

definition free_process :: "nat \<Rightarrow> int K" where
  "free_process i = kthen (set_proc i (\<lambda>p. p\<lparr>status := ZOMBIE\<rparr>)) (kret 0)"

text \<open>
  Taking apart the regions of a process, the same lines in \<^verbatim>\<open>realloc_process\<close> and
  \<^verbatim>\<open>do_wait\<close>: stack, trapframe and data pages are freed, the code pages, which a parent
  and its children share, are only unmapped. The number of pages is an \<^verbatim>\<open>uint32\<close>, so the
  product with the page size is taken modulo 2 to the 32.
\<close>

definition unmap_region :: "process \<Rightarrow> u64 \<Rightarrow> unit K" where
  "unmap_region p j =
     kbind (load32 (region_seg_type (mapped_info p) j)) (\<lambda>ty.
       if ty \<in> {STACK_SEGMENT, CONTEXT_SEGMENT, DATA_SEGMENT, CODE_SEGMENT}
       then
         kbind (load64 (region_va (mapped_info p) j)) (\<lambda>va.
         kbind (load32 (region_npages (mapped_info p) j)) (\<lambda>np.
           user_vm_unmap (pagetable p) va (ucast (np * 4096)) (ty \<noteq> CODE_SEGMENT)))
       else kret ())"

definition unmap_regions :: "nat \<Rightarrow> unit K" where
  "unmap_regions i = kbind (the_proc i) (\<lambda>p.
     kfor [0..<nat (sint (total_mapped_region p))] (\<lambda>j. unmap_region p (of_nat j)))"

definition realloc_process :: "nat \<Rightarrow> unit K" where
  "realloc_process i =
     kthen (unmap_regions i)
    (kbind (the_proc i) (\<lambda>p.
     kthen (free_page (pagetable p))
    (kbind alloc_page (\<lambda>tf.
     kthen (set_proc i (\<lambda>p. p\<lparr>trapframe := tf\<rparr>))
    (kthen (memset tf 0 TRAPFRAME_SIZE)
    (kbind alloc_page (\<lambda>pt.
     kthen (set_proc i (\<lambda>p. p\<lparr>pagetable := pt\<rparr>))
    (kthen (memset pt 0 PGSIZE)
    (kbind alloc_page (\<lambda>user_stack.
     kthen (store64 (tf + TF_SP) USER_STACK_TOP)
    (kthen (memset (mapped_info p) 0 PGSIZE)
    (kthen (map_initial_regions i user_stack)
       (set_proc i (\<lambda>p. p\<lparr>total_mapped_region := 3, tick_count := 0, total_tick_count := 0,
          total_mem_count := 3\<rparr>))))))))))))))"

section \<open>Fork\<close>

text \<open>A structure assignment copies the 35 words of the trapframe.\<close>

definition copy_trapframe :: "u64 \<Rightarrow> u64 \<Rightarrow> unit K" where
  "copy_trapframe d a = kfor [0..<35] (\<lambda>k. copy64 (d + 8 * of_nat k) (a + 8 * of_nat k))"

definition fork_code_page :: "nat \<Rightarrow> u64 \<Rightarrow> u64 \<Rightarrow> unit K" where
  "fork_code_page child_i ptable va =
     kbind (lookup_pa ptable va) (\<lambda>addr.
     kbind (the_proc child_i) (\<lambda>c.
     kbind (map_pages (pagetable c) va PGSIZE addr
       (prot_to_type (PROT_WRITE OR PROT_READ OR PROT_EXEC) 1)) (\<lambda>_. kret ())))"

definition fork_data_page :: "nat \<Rightarrow> u64 \<Rightarrow> u64 \<Rightarrow> unit K" where
  "fork_data_page child_i ptable va =
     kbind alloc_page (\<lambda>pa.
     kbind (lookup_pa ptable va) (\<lambda>addr.
     kthen (memcpy pa addr PGSIZE)
    (kbind (the_proc child_i) (\<lambda>c.
     kbind (map_pages (pagetable c) va PGSIZE pa (prot_to_type (PROT_WRITE OR PROT_READ) 1)) (\<lambda>_. kret ())))))"

definition fork_pages :: "(u64 \<Rightarrow> unit K) \<Rightarrow> u64 \<Rightarrow> u64 \<Rightarrow> unit K" where
  "fork_pages f mi j =
     kbind (load32 (region_npages mi j)) (\<lambda>np.
     kfor [0..<unat np] (\<lambda>k. kbind (load64 (region_va mi j)) (\<lambda>va. f (va + of_nat k * PGSIZE))))"

text \<open>Registering the region under the child's next free number.\<close>

definition fork_register :: "nat \<Rightarrow> u64 \<Rightarrow> u64 \<Rightarrow> u32 \<Rightarrow> unit K" where
  "fork_register child_i mi j ty =
     kbind (the_proc child_i) (\<lambda>c.
     (let k = scast (total_mapped_region c) in
      kbind (load64 (region_va mi j)) (\<lambda>va.
      kthen (store64 (region_va (mapped_info c) k) va)
     (kbind (load32 (region_npages mi j)) (\<lambda>np.
      kthen (store32 (region_npages (mapped_info c) k) np)
     (kthen (store32 (region_seg_type (mapped_info c) k) ty)
        (set_proc child_i (\<lambda>c. c\<lparr>total_mapped_region := total_mapped_region c + 1\<rparr>))))))))"

text \<open>
  One round of the loop of \<^verbatim>\<open>do_fork\<close>. The inner loops test \<^verbatim>\<open>npages\<close>, which lies in the
  parent's page of regions, before each round; the child's page table and pages are
  others, so it is read once. The child is a free slot of the pool and the parent is not,
  so the parent's number of regions does not change either.
\<close>

definition fork_region :: "nat \<Rightarrow> nat \<Rightarrow> u64 \<Rightarrow> unit K" where
  "fork_region parent_i child_i j =
     kbind (the_proc parent_i) (\<lambda>p. kbind (the_proc child_i) (\<lambda>c.
     kbind (load32 (region_seg_type (mapped_info p) j)) (\<lambda>ty.
       if ty = CONTEXT_SEGMENT then copy_trapframe (trapframe c) (trapframe p)
       else if ty = STACK_SEGMENT then
         kbind (load64 (region_va (mapped_info c) 0)) (\<lambda>cva. kbind (lookup_pa (pagetable c) cva) (\<lambda>d.
         kbind (load64 (region_va (mapped_info p) j)) (\<lambda>pva. kbind (lookup_pa (pagetable p) pva) (\<lambda>a.
         kbind (memcpy d a PGSIZE) (\<lambda>_. kret ())))))
       else if ty = CODE_SEGMENT then
         kthen (fork_pages (fork_code_page child_i (pagetable p)) (mapped_info p) j)
           (fork_register child_i (mapped_info p) j CODE_SEGMENT)
       else if ty = DATA_SEGMENT then
         kthen (fork_pages (fork_data_page child_i (pagetable p)) (mapped_info p) j)
           (fork_register child_i (mapped_info p) j DATA_SEGMENT)
       else kret ())))"

text \<open>\<^verbatim>\<open>do_fork\<close> behind the allocation of the child.\<close>

definition fork_into :: "nat \<Rightarrow> nat \<Rightarrow> i32 K" where
  "fork_into parent_i child_i =
     kbind (the_proc parent_i) (\<lambda>p.
     kthen (kfor [0..<nat (sint (total_mapped_region p))] (\<lambda>j. fork_region parent_i child_i (of_nat j)))
    (kthen (set_proc child_i (\<lambda>c. c\<lparr>status := READY\<rparr>))
    (kbind (the_proc child_i) (\<lambda>c.
     kthen (store64 (trapframe c + TF_A0) 0)
    (kthen (set_proc child_i (\<lambda>c. c\<lparr>parent := Some parent_i, tick_count := 0, total_tick_count := 0,
       total_mem_count := total_mapped_region c\<rparr>))
    (kthen (insert_to_ready_queue child_i)
    (kbind (the_proc child_i) (\<lambda>c. kret (ucast (pid c))))))))))"

definition do_fork :: "nat \<Rightarrow> i32 K" where
  "do_fork parent_i = kbind alloc_process (fork_into parent_i)"

section \<open>Wait\<close>

definition reclaim :: "nat \<Rightarrow> u64 K" where
  "reclaim i =
     kbind (the_proc i) (\<lambda>p.
     kthen (free_page (kstack p - PGSIZE))
    (kthen (unmap_regions i)
    (kthen (free_page (mapped_info p))
    (kthen (free_page (pagetable p))
    (kthen (set_proc i (\<lambda>p. p\<lparr>status := FREE, parent := None, queue_next := None,
       tick_count := 0, total_mem_count := 0, total_tick_count := 0\<rparr>))
       (kret (pid p)))))))"

definition wanted :: "i32 \<Rightarrow> nat option \<Rightarrow> process \<Rightarrow> bool" where
  "wanted n cur p \<longleftrightarrow> parent p = cur \<and> \<not> (0 <s n \<and> scast n \<noteq> pid p)"

definition do_wait :: "i32 \<Rightarrow> i32 K" where
  "do_wait n =
     kbind (kget (\<lambda>s. find (\<lambda>i. wanted n (current s) (procs s ! i) \<and> status (procs s ! i) = ZOMBIE) [0..<NPROC]))
       (\<lambda>r. case r of
         Some i \<Rightarrow> kbind (reclaim i) (\<lambda>child_pid. kret (ucast child_pid))
       | None \<Rightarrow>
           kbind (kget (\<lambda>s. \<exists>i < NPROC. wanted n (current s) (procs s ! i))) (\<lambda>havekids.
             kret (if havekids then - 2 else - 1)))"

section \<open>Process information\<close>

text \<open>
  The report is a sequence of calls of \<^verbatim>\<open>sprint\<close>, each a format and its argument slots; an
  \<^verbatim>\<open>int\<close> is passed sign-extended, a \<^verbatim>\<open>char\<close> as its code.
\<close>

type_synonym print_call = "string \<times> u64 list"

definition nl :: string where "nl = [CHR 0x0A]"
definition tab :: string where "tab = [CHR 0x09]"

fun status_num :: "proc_status \<Rightarrow> nat" where
  "status_num FREE = 0"
| "status_num READY = 1"
| "status_num RUNNING = 2"
| "status_num BLOCKED = 3"
| "status_num ZOMBIE = 4"

text \<open>One round of the loop that fills \<^verbatim>\<open>nprocs[5]\<close>.\<close>

definition count_proc :: "kstate \<Rightarrow> nat \<Rightarrow> i32 list \<Rightarrow> i32 list" where
  "count_proc s i nprocs =
     (if status (procs s ! i) \<noteq> FREE then
        (let nprocs = nprocs[0 := nprocs ! 0 + 1]; k = status_num (status (procs s ! i)) in
         nprocs[k := nprocs ! k + 1])
      else nprocs)"

definition stat_char :: "proc_status \<Rightarrow> char" where
  "stat_char st = (case st of
     READY \<Rightarrow> CHR ''S'' | RUNNING \<Rightarrow> CHR ''R'' | BLOCKED \<Rightarrow> CHR ''B'' | ZOMBIE \<Rightarrow> CHR ''Z'' | _ \<Rightarrow> CHR ''/'')"

definition proc_line :: "process \<Rightarrow> print_call" where
  "proc_line p =
     (''%d'' @ tab @ ''%c'' @ tab @ ''%d'' @ tab @ ''%d'' @ nl,
      [scast (ucast (pid p) :: i32), of_char (stat_char (status p)),
       scast (total_mem_count p * 4), scast (total_tick_count p)])"

text \<open>One round of the loop that prints the processes.\<close>

definition print_proc :: "kstate \<Rightarrow> nat \<Rightarrow> print_call list \<Rightarrow> print_call list" where
  "print_proc s i out = (if status (procs s ! i) \<noteq> FREE then out @ [proc_line (procs s ! i)] else out)"

definition do_getinfo :: "(int \<times> print_call list) K" where
  "do_getinfo = kbind (kget (\<lambda>s.
     (let nprocs = fold (count_proc s) [0..<NPROC] (replicate 5 0);
          out =
            [(''top - '' @ nl, []),
             (''Tasks: %d total, %d ready, %d running, %d blocked, %d zombie'' @ nl,
              [scast (nprocs ! 0), scast (nprocs ! status_num READY), scast (nprocs ! status_num RUNNING),
               scast (nprocs ! status_num BLOCKED), scast (nprocs ! status_num ZOMBIE)]),
             (''Cpu(s): %d ticks'' @ nl, [g_ticks s]),
             (''KiB Mem: %d'' @ nl, [drop_bit 10 (g_mem_size s)]),
             (nl @ ''PID'' @ tab @ ''S'' @ tab @ ''MEM'' @ tab @ ''TICK'' @ nl, [])]
      in fold (print_proc s) [0..<NPROC] out))) (\<lambda>out. kret (1, out))"

lemma scast_small: "n < 2 ^ 31 \<Longrightarrow> scast (of_nat n :: i32) = (of_nat n :: u64)"
proof -
  assume "n < 2 ^ 31"
  then have "sint (of_nat n :: i32) = int n"
    by (simp add: sint_uint unsigned_of_nat take_bit_nat_eq_self signed_take_bit_int_eq_self take_bit_int_eq_self)
  then show ?thesis by (simp add: scast_eq)
qed

end
