(* ===== verification/PKE_Print.thy ===== *)
theory PKE_Print
  imports PKE_Spike
begin

text \<open>
  Formatted output: \<^verbatim>\<open>vsnprintf\<close> of \<^verbatim>\<open>util/snprintf.c\<close> and \<^verbatim>\<open>vprintk\<close> of
  \<^verbatim>\<open>spike_interface/spike_utils.c\<close>. The model keeps the code's state (the buffer, the
  position, the two flags and the argument list); \<open>render\<close> says what text a format and its
  arguments stand for, and the code is shown to write that text, cut to the buffer.

  The arguments are the eight-byte slots that the RV64 calling convention passes them in:
  \<^verbatim>\<open>va_arg(vl, int)\<close> is the low half of a slot, \<^verbatim>\<open>va_arg(vl, const char*)\<close> the address of
  a string, which \<open>str\<close> maps to its bytes. \<open>None\<close> stands for what C leaves undefined: more
  conversions than arguments, an address without a string, and the negation of the least
  \<^verbatim>\<open>long\<close>.
\<close>

section \<open>The code\<close>

record fmt_state =
  out_buf :: "u8 list"
  out_pos :: nat

definition emit :: "u8 \<Rightarrow> fmt_state \<Rightarrow> fmt_state" where
  "emit c st = (let p = out_pos st + 1 in
     st\<lparr>out_pos := p,
        out_buf := (if p < length (out_buf st) then (out_buf st)[p - 1 := c] else out_buf st)\<rparr>)"

definition hex_char :: "u64 \<Rightarrow> u8" where
  "hex_char d = (if d < 10 then 48 + ucast d else 97 + ucast d - 10)"

fun put_hex :: "u64 \<Rightarrow> nat \<Rightarrow> fmt_state \<Rightarrow> fmt_state" where
  "put_hex num 0 st = st"
| "put_hex num (Suc i) st = put_hex num i (emit (hex_char (drop_bit (4 * i) num AND 0xF)) st)"

fun num_digits :: "nat \<Rightarrow> nat" where
  "num_digits n = (if n div 10 = 0 then 1 else Suc (num_digits (n div 10)))"

declare num_digits.simps [simp del]

text \<open>The loop that writes the digits from the last to the first.\<close>

fun put_digits :: "nat \<Rightarrow> nat \<Rightarrow> nat \<Rightarrow> u8 list \<Rightarrow> u8 list" where
  "put_digits pos 0 num buf = buf"
| "put_digits pos (Suc i) num buf =
     put_digits pos i (num div 10)
       (if pos + i + 1 < length buf then buf[pos + i := 48 + of_nat (num mod 10)] else buf)"

definition put_dec :: "int \<Rightarrow> fmt_state \<Rightarrow> fmt_state" where
  "put_dec num st =
     (let st = (if num < 0 then emit 45 st else st); n = nat \<bar>num\<bar>; k = num_digits n in
      st\<lparr>out_buf := put_digits (out_pos st) k n (out_buf st), out_pos := out_pos st + k\<rparr>)"

definition va_num :: "bool \<Rightarrow> u64 \<Rightarrow> u64" where
  "va_num longarg a = (if longarg then a else scast (ucast a :: u32))"

type_synonym string_at = "u64 \<Rightarrow> u8 list option"

fun vsnprintf_loop ::
  "string_at \<Rightarrow> u8 list \<Rightarrow> bool \<Rightarrow> bool \<Rightarrow> u64 list \<Rightarrow> fmt_state \<Rightarrow> fmt_state option" where
  "vsnprintf_loop str [] format longarg args st = Some st"
| "vsnprintf_loop str (c # cs) format longarg args st =
     (if \<not> format then
        (if c = 37 then vsnprintf_loop str cs True longarg args st
         else vsnprintf_loop str cs False longarg args (emit c st))
      else if c = 108 then vsnprintf_loop str cs True True args st
      else if c \<in> {112, 120} then
        (case args of [] \<Rightarrow> None | a # args' \<Rightarrow>
          (let lng = (longarg \<or> c = 112);
               st = (if c = 112 then emit 120 (emit 48 st) else st) in
           vsnprintf_loop str cs False False args' (put_hex (va_num lng a) (if lng then 16 else 8) st)))
      else if c = 100 then
        (case args of [] \<Rightarrow> None | a # args' \<Rightarrow>
          (if longarg \<and> a = 0x8000000000000000 then None
           else vsnprintf_loop str cs False False args' (put_dec (sint (va_num longarg a)) st)))
      else if c = 115 then
        (case args of [] \<Rightarrow> None | a # args' \<Rightarrow>
          (case str a of None \<Rightarrow> None
           | Some s2 \<Rightarrow> vsnprintf_loop str cs False False args' (fold emit s2 st)))
      else if c = 99 then
        (case args of [] \<Rightarrow> None | a # args' \<Rightarrow>
          vsnprintf_loop str cs False False args' (emit (ucast a) st))
      else vsnprintf_loop str cs True longarg args st)"

text \<open>
  The buffer starts with what it happens to hold. The result is the buffer and the number
  of characters of the whole text, an \<^verbatim>\<open>int32\<close>.
\<close>

definition vsnprintf :: "string_at \<Rightarrow> u8 list \<Rightarrow> u8 list \<Rightarrow> u64 list \<Rightarrow> (u8 list \<times> i32) option" where
  "vsnprintf str out s vl =
     (case vsnprintf_loop str s False False vl \<lparr>out_buf = out, out_pos = 0\<rparr> of
        None \<Rightarrow> None
      | Some st \<Rightarrow>
          (let n = length out; pos = out_pos st; buf = out_buf st in
           Some (if pos < n then buf[pos := 0] else if n \<noteq> 0 then buf[n - 1 := 0] else buf, of_nat pos)))"

text \<open>
  \<^verbatim>\<open>vprintk\<close> formats into a local buffer and writes it to the standard error file. The bytes
  of the buffer that \<^verbatim>\<open>vsnprintf\<close> leaves as they were are never written out.
\<close>

function read_cstr :: "u64 \<Rightarrow> u8 list K" where
  "read_cstr p s = kbind (load8 p) (\<lambda>c.
     if c = 0 then kret [] else kbind (read_cstr (p + 1)) (\<lambda>cs. kret (c # cs))) s"
  by pat_completeness auto
termination
  by (relation "measure (\<lambda>(p, s). 0x88000000 - unat p)")
     (auto dest!: load8_bound simp: unat_step kdefs)

declare read_cstr.simps [simp del]

definition string_in :: "kstate \<Rightarrow> string_at" where
  "string_in s a = (case read_cstr a s of Inl e \<Rightarrow> None | Inr (cs, t) \<Rightarrow> Some cs)"

definition spike_file_write_local :: "nat option \<Rightarrow> u8 list \<Rightarrow> u64 K" where
  "spike_file_write_local fp bs =
     kbind (file_kfd fp) (\<lambda>k. kbind (frontend_syscall HTIFSYS_write [k, 0, of_nat (length bs), 0, 0, 0, 0] bs)
       (\<lambda>(r, _). kret r))"

definition vprintk :: "u64 \<Rightarrow> u64 list \<Rightarrow> unit K" where
  "vprintk s vl =
     kbind (read_cstr s) (\<lambda>fmt.
     kbind (kget (\<lambda>st. vsnprintf (string_in st) (replicate 256 0) fmt vl)) (\<lambda>r. case r of
       None \<Rightarrow> kexits (Undef ''va_arg'')
     | Some (out, res) \<Rightarrow>
         (let n = (if (scast res :: u64) < 256 then unat (scast res :: u64) else 256) in
          kbind (spike_file_write_local (Some 2) (take n out)) (\<lambda>_. kret ()))))"

section \<open>The text a format stands for\<close>

fun decimal :: "nat \<Rightarrow> u8 list" where
  "decimal n = (if n < 10 then [48 + of_nat n] else decimal (n div 10) @ [48 + of_nat (n mod 10)])"

declare decimal.simps [simp del]

definition signed_decimal :: "int \<Rightarrow> u8 list" where
  "signed_decimal i = (if i < 0 then 45 # decimal (nat (- i)) else decimal (nat i))"

definition hex :: "nat \<Rightarrow> u64 \<Rightarrow> u8 list" where
  "hex k w = map (\<lambda>i. hex_char (drop_bit (4 * i) w AND 0xF)) (rev [0..<k])"

fun render :: "string_at \<Rightarrow> u8 list \<Rightarrow> bool \<Rightarrow> bool \<Rightarrow> u64 list \<Rightarrow> u8 list option" where
  "render str [] format longarg args = Some []"
| "render str (c # cs) format longarg args =
     (if \<not> format then
        (if c = 37 then render str cs True longarg args
         else map_option (Cons c) (render str cs False longarg args))
      else if c = 108 then render str cs True True args
      else if c \<in> {112, 120, 100, 115, 99} then
        (case args of [] \<Rightarrow> None | a # args' \<Rightarrow>
          (case (if c = 112 then Some (48 # 120 # hex 16 a)
                 else if c = 120 then Some (if longarg then hex 16 a else hex 8 a)
                 else if c = 100 then
                   (if longarg \<and> a = 0x8000000000000000 then None
                    else Some (signed_decimal (sint (va_num longarg a))))
                 else if c = 115 then str a
                 else Some [ucast a]) of
             None \<Rightarrow> None
           | Some text \<Rightarrow> map_option ((@) text) (render str cs False False args')))
      else render str cs True longarg args)"

text \<open>Writing a text into the buffer: what fits before the last byte is stored.\<close>

definition written :: "u8 list \<Rightarrow> fmt_state \<Rightarrow> fmt_state" where
  "written text st = (let n = length (out_buf st); p = out_pos st in
     st\<lparr>out_pos := p + length text,
        out_buf := take p (out_buf st) @ take (n - 1 - p) text @
          drop (p + length (take (n - 1 - p) text)) (out_buf st)\<rparr>)"

lemma written_simps [simp]:
  "out_pos (written text st) = out_pos st + length text"
  "length (out_buf (written text st)) = length (out_buf st)"
  by (auto simp: written_def Let_def)

lemma nth_written:
  assumes "j < length (out_buf st)"
  shows "out_buf (written text st) ! j =
    (if out_pos st \<le> j \<and> j < out_pos st + length text \<and> j + 1 < length (out_buf st)
     then text ! (j - out_pos st) else out_buf st ! j)"
  using assms by (auto simp: written_def Let_def nth_append min_def)

lemma fmt_state_eqI:
  assumes "out_pos st = out_pos st'" and "length (out_buf st) = length (out_buf st')"
    and "\<And>j. j < length (out_buf st) \<Longrightarrow> out_buf st ! j = out_buf st' ! j"
  shows "st = (st' :: fmt_state)"
  using assms by (simp add: fmt_state.equality nth_equalityI)

lemma written_Nil [simp]: "written [] st = st"
  by (rule fmt_state_eqI) (auto simp: nth_written)

lemma written_append: "written (a @ b) st = written b (written a st)"
  by (rule fmt_state_eqI) (auto simp: nth_written nth_append)

lemma length_emit [simp]: "length (out_buf (emit c st)) = length (out_buf st)"
  by (simp add: emit_def Let_def)

lemma emit_written: "emit c st = written [c] st"
  by (rule fmt_state_eqI, simp_all) (auto simp: nth_written emit_def Let_def nth_list_update)

lemma fold_emit_written: "fold emit cs st = written cs st"
proof (induction cs arbitrary: st)
  case (Cons c cs)
  then show ?case using written_append [of "[c]" cs st] by (simp add: emit_written)
qed simp

lemma put_hex_written: "put_hex w k st = written (hex k w) st"
proof (induction k arbitrary: st)
  case (Suc k)
  then show ?case
    using written_append [of "[hex_char (drop_bit (4 * k) w AND 15)]" "hex k w" st]
    by (simp add: emit_written hex_def)
qed (simp add: hex_def)

lemma length_put_digits [simp]: "length (put_digits pos k num buf) = length buf"
  by (induction k arbitrary: num buf) auto

definition dec_digit :: "nat \<Rightarrow> nat \<Rightarrow> u8" where
  "dec_digit n i = 48 + of_nat (n div 10 ^ i mod 10)"

lemma nth_put_digits:
  "j < length buf \<Longrightarrow> put_digits pos k num buf ! j =
    (if pos \<le> j \<and> j < pos + k \<and> j + 1 < length buf then dec_digit num (pos + k - 1 - j) else buf ! j)"
proof (induction k arbitrary: num buf)
  case (Suc k)
  have "dec_digit (num div 10) i = dec_digit num (Suc i)" for i
    by (simp add: dec_digit_def div_mult2_eq)
  moreover have "Suc (pos + k - 1 - j) = pos + k - j" if "j < pos + k"
    using that by arith
  ultimately show ?case
    using Suc by (auto simp: nth_list_update dec_digit_def [of num 0])
qed auto

lemma decimal_digits: "decimal n = map (dec_digit n) (rev [0..<num_digits n])"
proof (induction n rule: decimal.induct)
  case (1 n)
  show ?case
  proof (cases "n < 10")
    case True
    then show ?thesis by (simp add: decimal.simps [of n] num_digits.simps [of n] dec_digit_def)
  next
    case False
    have "map (dec_digit n) (rev [0..<Suc k]) = map (dec_digit (n div 10)) (rev [0..<k]) @ [dec_digit n 0]" for k
      by (induction k) (simp_all add: dec_digit_def div_mult2_eq)
    with False 1 show ?thesis
      by (simp add: decimal.simps [of n] num_digits.simps [of n] dec_digit_def [of n 0] div_eq_0_iff del: upt_Suc)
  qed
qed

lemma put_dec_written: "put_dec i st = written (signed_decimal i) st"
proof -
  have dec: "st\<lparr>out_buf := put_digits (out_pos st) (num_digits n) n (out_buf st),
      out_pos := out_pos st + num_digits n\<rparr> = written (decimal n) st" for n st
    by (rule fmt_state_eqI)
       (auto simp: nth_written nth_put_digits decimal_digits rev_nth intro!: arg_cong [where f = "dec_digit n"])
  show ?thesis
    using written_append [of "[45]" "decimal (nat (- i))" st]
    by (simp add: put_dec_def signed_decimal_def dec emit_written)
qed

lemma bit_15: "bit (15 :: int) n \<longleftrightarrow> n < 4"
proof -
  have "bit (mask 4 :: int) n \<longleftrightarrow> n < 4" by (auto simp: bit_mask_iff simp del: mask_numeral)
  moreover have "mask 4 = (15 :: int)" by (simp add: mask_eq_exp_minus_1)
  ultimately show ?thesis by simp
qed

lemma hex_8: "hex 8 (va_num False a) = hex 8 a"
proof -
  have "drop_bit (4 * i) (scast (ucast a :: u32) :: u64) AND 15 = drop_bit (4 * i) a AND 15" if "i < 8" for i
  proof -
    have "min 31 (4 * i + n) = 4 * i + n" if "n < 4" for n using that \<open>i < 8\<close> by arith
    then show ?thesis using that by (intro bit_word_eqI) (auto simp: bit_simps bit_15)
  qed
  then show ?thesis by (auto simp: hex_def va_num_def)
qed

lemma va_num_True [simp]: "va_num True a = a"
  by (simp add: va_num_def)

text \<open>The loop of the code writes the rendered text.\<close>

lemmas writes = emit_written fold_emit_written put_hex_written put_dec_written written_append [symmetric]

lemma vsnprintf_loop_renders:
  "vsnprintf_loop str cs format longarg args st =
   map_option (\<lambda>xs. written xs st) (render str cs format longarg args)"
proof (induction str cs format longarg args st rule: vsnprintf_loop.induct)
  case (2 str c cs format longarg args st)
  show ?case
  proof (cases "format \<and> c \<in> {112, 120, 100, 115, 99}")
    case True
    then show ?thesis
      using 2
      by (auto simp: writes hex_8 Let_def option.map_comp comp_def split: list.split option.split)
  next
    case False
    then show ?thesis
      using 2 by (auto simp: writes option.map_comp comp_def)
  qed
qed simp

section \<open>Correctness\<close>

definition cut_text :: "u8 list \<Rightarrow> u8 list \<Rightarrow> u8 list" where
  "cut_text xs out = (if out = [] then []
     else (let ys = take (length out - 1) xs in ys @ 0 # drop (length ys + 1) out))"

lemma length_cut_text [simp]: "length (cut_text xs out) = length out"
  by (cases out) (auto simp: cut_text_def Let_def)

lemma nth_cut_text:
  "j < length out \<Longrightarrow> cut_text xs out ! j =
    (if j < length xs \<and> j + 1 < length out then xs ! j
     else if j = min (length xs) (length out - 1) then 0 else out ! j)"
  by (auto simp: cut_text_def Let_def nth_append nth_Cons' min_def)

lemma vsnprintf_eq:
  "vsnprintf str out s vl =
   map_option (\<lambda>xs. (cut_text xs out, of_nat (length xs))) (render str s False False vl)"
proof -
  let ?st = "\<lparr>out_buf = out, out_pos = 0\<rparr>"
  have c: "(if length xs < length out then (out_buf (written xs ?st))[length xs := 0]
      else if length out \<noteq> 0 then (out_buf (written xs ?st))[length out - 1 := 0]
      else out_buf (written xs ?st)) = cut_text xs out" for xs
  proof -
    consider "length xs < length out" | "\<not> length xs < length out" "out \<noteq> []" | "out = []" by auto
    then show ?thesis
      by cases (auto intro!: nth_equalityI simp: nth_cut_text nth_written nth_list_update)
  qed
  show ?thesis
    by (cases "render str s False False vl")
       (simp_all add: vsnprintf_def vsnprintf_loop_renders Let_def c [symmetric])
qed


text \<open>Reading a decimal number, with an optional sign.\<close>

definition dec_value :: "u8 list \<Rightarrow> nat" where
  "dec_value = foldl (\<lambda>v c. 10 * v + (unat c - 48)) 0"

definition signed_value :: "u8 list \<Rightarrow> int" where
  "signed_value xs = (case xs of c # cs \<Rightarrow> if c = 45 then - int (dec_value cs) else int (dec_value xs) | [] \<Rightarrow> 0)"

lemma unat_digit: "k < 10 \<Longrightarrow> unat (48 + of_nat k :: u8) = 48 + k"
  by (simp add: unat_word_ariths unat_of_nat)

lemma dec_value_decimal: "dec_value (decimal n) = n"
proof (induction n rule: decimal.induct)
  case (1 n)
  then show ?case
    by (cases "n < 10") (simp_all add: decimal.simps [of n] dec_value_def unat_digit)
qed

lemma hd_decimal: "hd (decimal n) \<noteq> 45 \<and> decimal n \<noteq> []"
proof (induction n rule: decimal.induct)
  case (1 n)
  have "48 + of_nat n \<noteq> (45 :: u8)" if "n < 10"
    using that unat_digit [of n] by (auto simp: word_unat_eq_iff)
  with 1 show ?case by (cases "n < 10") (auto simp: decimal.simps [of n] hd_append)
qed

lemma signed_value_decimal: "signed_value (signed_decimal i) = i"
  using hd_decimal [of "nat i"] dec_value_decimal [of "nat i"]
  by (cases "decimal (nat i)") (auto simp: signed_value_def signed_decimal_def dec_value_decimal)


end
