(* ===== verification/PKE_Elf.thy ===== *)
theory PKE_Elf
  imports PKE_Process PKE_Print
begin

text \<open>
  The program loader, \<^verbatim>\<open>kernel/elf.c\<close>, and \<^verbatim>\<open>do_exec\<close> of \<^verbatim>\<open>kernel/process.c\<close>, which calls
  it. The ELF headers are read into local variables of the loader; here they are decoded
  from the bytes the host returns. The loader's context (\<^verbatim>\<open>elf_ctx\<close>, \<^verbatim>\<open>elf_info\<close>) is the
  file, the process and the decoded header, passed as arguments.
\<close>

section \<open>ELF headers\<close>

text \<open>The little-endian number in the \<open>n\<close> bytes at offset \<open>k\<close>.\<close>

fun le_word :: "u8 list \<Rightarrow> nat \<Rightarrow> nat \<Rightarrow> u64" where
  "le_word bs k 0 = 0"
| "le_word bs k (Suc n) = ucast (bs ! k) + 256 * le_word bs (Suc k) n"

record elf_header =
  eh_magic :: u32
  eh_type :: u16
  eh_machine :: u16
  eh_version :: u32
  eh_entry :: u64
  eh_phoff :: u64
  eh_shoff :: u64
  eh_flags :: u32
  eh_ehsize :: u16
  eh_phentsize :: u16
  eh_phnum :: u16
  eh_shentsize :: u16
  eh_shnum :: u16
  eh_shstrndx :: u16

definition elf_header_of :: "u8 list \<Rightarrow> elf_header" where
  "elf_header_of bs = \<lparr>eh_magic = ucast (le_word bs 0 4), eh_type = ucast (le_word bs 16 2),
     eh_machine = ucast (le_word bs 18 2), eh_version = ucast (le_word bs 20 4),
     eh_entry = le_word bs 24 8, eh_phoff = le_word bs 32 8, eh_shoff = le_word bs 40 8,
     eh_flags = ucast (le_word bs 48 4), eh_ehsize = ucast (le_word bs 52 2),
     eh_phentsize = ucast (le_word bs 54 2), eh_phnum = ucast (le_word bs 56 2),
     eh_shentsize = ucast (le_word bs 58 2), eh_shnum = ucast (le_word bs 60 2),
     eh_shstrndx = ucast (le_word bs 62 2)\<rparr>"

record elf_prog_header =
  ph_type :: u32
  ph_flags :: u32
  ph_off :: u64
  ph_vaddr :: u64
  ph_paddr :: u64
  ph_filesz :: u64
  ph_memsz :: u64
  ph_align :: u64

definition elf_prog_header_of :: "u8 list \<Rightarrow> elf_prog_header" where
  "elf_prog_header_of bs = \<lparr>ph_type = ucast (le_word bs 0 4), ph_flags = ucast (le_word bs 4 4),
     ph_off = le_word bs 8 8, ph_vaddr = le_word bs 16 8, ph_paddr = le_word bs 24 8,
     ph_filesz = le_word bs 32 8, ph_memsz = le_word bs 40 8, ph_align = le_word bs 48 8\<rparr>"

definition EHDR_SIZE :: u64 where [simp]: "EHDR_SIZE = 64"
definition PHDR_SIZE :: u64 where [simp]: "PHDR_SIZE = 56"
definition ELF_MAGIC :: u32 where [simp]: "ELF_MAGIC = 0x464C457F"
definition ELF_PROG_LOAD :: u32 where [simp]: "ELF_PROG_LOAD = 1"
definition SEGMENT_READABLE :: u32 where [simp]: "SEGMENT_READABLE = 4"
definition SEGMENT_EXECUTABLE :: u32 where [simp]: "SEGMENT_EXECUTABLE = 1"
definition SEGMENT_WRITABLE :: u32 where [simp]: "SEGMENT_WRITABLE = 2"
definition MAX_CMDLINE_ARGS :: nat where [simp]: "MAX_CMDLINE_ARGS = 64"
definition MAXARGS :: nat where [simp]: "MAXARGS = 10"

datatype elf_status = EL_OK | EL_EIO | EL_ENOMEM | EL_NOTELF | EL_ERR

section \<open>Loading the segments\<close>

definition elf_alloc_mb :: "nat \<Rightarrow> u64 \<Rightarrow> u64 \<Rightarrow> u64 \<Rightarrow> u64 K" where
  "elf_alloc_mb i elf_pa elf_va sz =
     kthen (kguard (sz < PGSIZE) (Assert_fail ''size < PGSIZE''))
    (kbind alloc_page (\<lambda>pa.
     kthen (kguard (pa \<noteq> 0) (Panic ''uvmalloc mem alloc falied''))
    (kthen (memset pa 0 PGSIZE)
    (kbind (the_proc i) (\<lambda>p.
     kthen (user_vm_map (pagetable p) elf_va PGSIZE pa
       (prot_to_type (PROT_WRITE OR PROT_READ OR PROT_EXEC) 1))
       (kret pa))))))"

text \<open>\<^verbatim>\<open>elf_fpread\<close> into memory and into a local variable.\<close>

definition elf_fpread :: "nat \<Rightarrow> u64 \<Rightarrow> u64 \<Rightarrow> u64 \<Rightarrow> u64 K" where
  "elf_fpread f dest nb offset = spike_file_pread (Some f) dest nb offset"

definition elf_fpread_local :: "nat \<Rightarrow> u64 \<Rightarrow> u64 \<Rightarrow> (u64 \<times> u8 list) K" where
  "elf_fpread_local f nb offset = spike_file_pread_local (Some f) nb offset"

definition elf_init :: "nat \<Rightarrow> (elf_status \<times> elf_header) K" where
  "elf_init f =
     kbind (elf_fpread_local f EHDR_SIZE 0) (\<lambda>(r, bs).
     (let ehdr = elf_header_of bs in
      if r \<noteq> EHDR_SIZE then kret (EL_EIO, ehdr)
      else if eh_magic ehdr \<noteq> ELF_MAGIC then kret (EL_NOTELF, ehdr)
      else kret (EL_OK, ehdr)))"

text \<open>
  The first entry of the region table whose address is zero; the search may run off the
  end of the page (\<^verbatim>\<open>PGSIZE/sizeof(mapped_region)\<close> is 256), and then gives that number.
\<close>

definition find_region :: "u64 \<Rightarrow> nat K" where
  "find_region mi =
     kbind (kfirst [0..<256] (\<lambda>j. kbind (load64 (region_va mi (of_nat j))) (\<lambda>va.
       kret (if va = 0 then Some j else None)))) (\<lambda>r. case r of
         Some j \<Rightarrow> kret j | None \<Rightarrow> kret 256)"

definition elf_load_segment :: "nat \<Rightarrow> nat \<Rightarrow> elf_prog_header \<Rightarrow> elf_status option K" where
  "elf_load_segment f i ph =
     kbind (elf_alloc_mb i (ph_vaddr ph) (ph_vaddr ph) (ph_memsz ph)) (\<lambda>dest.
     kbind (elf_fpread f dest (ph_memsz ph) (ph_off ph)) (\<lambda>r.
       if r \<noteq> ph_memsz ph then kret (Some EL_EIO)
       else
         kbind (the_proc i) (\<lambda>p.
         kbind (find_region (mapped_info p)) (\<lambda>j.
         kthen (store64 (region_va (mapped_info p) (of_nat j)) (ph_vaddr ph))
        (kthen (store32 (region_npages (mapped_info p) (of_nat j)) 1)
        (kthen
          (if ph_flags ph = SEGMENT_READABLE OR SEGMENT_EXECUTABLE
           then store32 (region_seg_type (mapped_info p) (of_nat j)) CODE_SEGMENT
           else if ph_flags ph = SEGMENT_READABLE OR SEGMENT_WRITABLE
           then store32 (region_seg_type (mapped_info p) (of_nat j)) DATA_SEGMENT
           else kexits (Panic ''unknown program segment encountered''))
        (kthen (set_proc i (\<lambda>p. p\<lparr>total_mapped_region := total_mapped_region p + 1\<rparr>))
           (kret None))))))))"

text \<open>One round of the loop: \<open>Some\<close> status leaves \<^verbatim>\<open>elf_load\<close>.\<close>

definition elf_load_header :: "nat \<Rightarrow> nat \<Rightarrow> i32 \<Rightarrow> elf_status option K" where
  "elf_load_header f i off =
     kbind (elf_fpread_local f PHDR_SIZE (scast off)) (\<lambda>(r, bs).
     (let ph = elf_prog_header_of bs in
      if r \<noteq> PHDR_SIZE then kret (Some EL_EIO)
      else if ph_type ph \<noteq> ELF_PROG_LOAD then kret None
      else if ph_memsz ph < ph_filesz ph then kret (Some EL_ERR)
      else if ph_vaddr ph + ph_memsz ph < ph_vaddr ph then kret (Some EL_ERR)
      else elf_load_segment f i ph))"

definition elf_load :: "nat \<Rightarrow> nat \<Rightarrow> elf_header \<Rightarrow> elf_status K" where
  "elf_load f i ehdr =
     kbind (kfirst [0..<unat (eh_phnum ehdr)] (\<lambda>k.
       elf_load_header f i (ucast (eh_phoff ehdr) + of_nat k * ucast PHDR_SIZE))) (\<lambda>r. case r of
         Some e \<Rightarrow> kret e | None \<Rightarrow> kret EL_OK)"

text \<open>
  What \<^verbatim>\<open>load_bincode_from_host_elf\<close> and \<^verbatim>\<open>load_shell_bincode_from_host_elf\<close> do alike:
  open, load, set the entry point, close. An error pointer below the last page of the
  address space is not recognised as an error, and then dereferenced.
\<close>

definition elf_open_load :: "cpath \<Rightarrow> nat \<Rightarrow> unit K" where
  "elf_open_load path i =
     kbind (spike_file_open path O_RDONLY 0) (\<lambda>fp. case fp of
       FErr e \<Rightarrow> if e \<ge> - 4096 then kexits (Panic ''Fail on openning the input application program.'')
                 else kexits (Wild e)
     | FPtr f \<Rightarrow>
         kbind (elf_init f) (\<lambda>(st, ehdr).
         kthen (kguard (st = EL_OK) (Panic ''fail to init elfloader.''))
        (kbind (elf_load f i ehdr) (\<lambda>st.
         kthen (kguard (st = EL_OK) (Panic ''Fail on loading elf.''))
        (kbind (the_proc i) (\<lambda>p.
         kthen (store64 (trapframe p + TF_EPC) (eh_entry ehdr))
        (kbind (spike_file_close (Some f)) (\<lambda>_. kret ()))))))))"

section \<open>The first program\<close>

text \<open>
  The command line arrives in a local buffer of 64 words: the number of arguments, their
  addresses, and the strings, all within the buffer, whose address is \<open>sym_arg_buf\<close>.
  Dropping the name of the kernel moves the addresses two words down; words the host did
  not write have no value.
\<close>

definition parse_args :: "(u64 \<times> u8 list) K" where
  "parse_args =
     kbind (kget (\<lambda>s. sym_arg_buf (kenv s))) (\<lambda>base.
     kbind (frontend_syscall HTIFSYS_getmainvars [base, 512, 0, 0, 0, 0, 0] []) (\<lambda>(r, bs).
     kthen (kguard (r = 0) (Assert_fail ''r == 0''))
     (let buf = take 512 bs; pk_argc = le_word buf 0 8; k = unat pk_argc - 1 in
      kthen (kguard (8 \<le> length buf \<and> (k = 0 \<or> 16 + 8 * k \<le> length buf)) (Undef ''arg_bug_msg''))
        (kret (pk_argc - 1, take (8 * k) (drop 16 buf) @ drop (8 * k) buf)))))"

text \<open>The string at address \<open>p\<close>, which may lie in the buffer.\<close>

definition arg_path :: "u64 \<Rightarrow> u8 list \<Rightarrow> u64 \<Rightarrow> cpath" where
  "arg_path base buf p =
     (if p - base < 512 then Local (takeWhile (\<lambda>c. c \<noteq> 0) (drop (unat (p - base)) buf)) else At p)"

definition load_bincode_from_host_elf :: "nat \<Rightarrow> unit K" where
  "load_bincode_from_host_elf i =
     kbind parse_args (\<lambda>(argc, buf).
     kthen (kguard (argc \<noteq> 0) (Panic ''You need to specify the application program!''))
    (kbind (kget (\<lambda>s. sym_arg_buf (kenv s))) (\<lambda>base.
     kthen (kguard (le_word buf 0 8 - base < 512 \<longrightarrow> 0 \<in> set (drop (unat (le_word buf 0 8 - base)) buf))
       (Undef ''arg_bug_msg''))
       (elf_open_load (arg_path base buf (le_word buf 0 8)) i))))"

section \<open>Exec\<close>

definition obj_dir :: "u8 list" where
  "obj_dir = [46, 47, 111, 98, 106, 47]"

text \<open>\<^verbatim>\<open>char path[30] = "./obj/"; strcat(path, ...)\<close>\<close>

definition shell_path :: "u64 \<Rightarrow> u8 list K" where
  "shell_path name =
     kbind (read_cstr name) (\<lambda>cs.
     kthen (kguard (length (obj_dir @ cs) < 30) (Undef ''path'')) (kret (obj_dir @ cs)))"

definition arg_pa :: "u64 \<Rightarrow> nat \<Rightarrow> u64 K" where
  "arg_pa argv k =
     kbind cur_proc (\<lambda>p. kbind (load64 (argv + 8 * of_nat k)) (\<lambda>a. user_va_to_pa (pagetable p) a))"

text \<open>
  The arguments up to the first that is not mapped, saved in \<^verbatim>\<open>oldargv[MAXARGS+1]\<close>; the
  first parameter is the number of entries left.
\<close>

fun save_argv :: "nat \<Rightarrow> u64 \<Rightarrow> nat \<Rightarrow> u64 list K" where
  "save_argv 0 argv argc = kbind (arg_pa argv argc) (\<lambda>_. kexits (Undef ''oldargv''))"
| "save_argv (Suc n) argv argc =
     kbind (arg_pa argv argc) (\<lambda>pa.
       if pa = 0 then kret []
       else kbind (save_argv n argv (Suc argc)) (\<lambda>r. kret (pa # r)))"

text \<open>
  The user stack of the new program: the strings, eight bytes apart whatever their
  length, a zero, and the array of their addresses, last one first.
\<close>

definition push_arg :: "u64 \<Rightarrow> u64 list \<Rightarrow> nat \<Rightarrow> unit K" where
  "push_arg sp oldargv i =
     kbind cur_proc (\<lambda>p.
     kbind (user_va_to_pa (pagetable p) (sp - 8 * of_nat (Suc i))) (\<lambda>d.
       if i \<noteq> length oldargv then kbind (strcpy d (oldargv ! i)) (\<lambda>_. kret ())
       else store64 d 0))"

definition push_ptr :: "u64 \<Rightarrow> nat \<Rightarrow> nat \<Rightarrow> unit K" where
  "push_ptr sp argc i =
     kbind cur_proc (\<lambda>p.
     kbind (user_va_to_pa (pagetable p) (sp - 8 * of_nat (argc + 1 + Suc i))) (\<lambda>d.
       store64 d (sp - 8 * of_nat (Suc (argc - i)))))"

definition build_ustack :: "u64 list \<Rightarrow> unit K" where
  "build_ustack oldargv =
     kbind cur_proc (\<lambda>p.
     kbind (load64 (trapframe p + TF_SP)) (\<lambda>sp.
     (let argc = length oldargv; sp' = sp - 8 * of_nat (2 * (argc + 1)) in
      kthen (kfor [0..<argc + 1] (push_arg sp oldargv))
     (kthen (kfor [0..<argc + 1] (push_ptr sp argc))
     (kthen (store64 (trapframe p + TF_SP) sp')
     (kthen (store64 (trapframe p + TF_A0) (of_nat argc))
        (store64 (trapframe p + TF_A1) sp')))))))"

definition load_shell_bincode_from_host_elf :: "u64 \<Rightarrow> unit K" where
  "load_shell_bincode_from_host_elf argv =
     kbind (arg_pa argv 0) (\<lambda>name.
     kbind (shell_path name) (\<lambda>path.
     kbind (save_argv (MAXARGS + 1) argv 0) (\<lambda>oldargv.
     kbind cur_proc (\<lambda>p.
     kthen (kguard (unat (pid p) < NPROC) (Undef ''procs''))
    (kthen (realloc_process (unat (pid p)))
    (kthen (build_ustack oldargv)
    (kbind (kget current) (\<lambda>c. case c of
       None \<Rightarrow> kexits (Wild 0)
     | Some i \<Rightarrow> elf_open_load (Local path) i))))))))"

definition do_exec :: "u64 \<Rightarrow> u64 \<Rightarrow> int K" where
  "do_exec path argv =
     kbind cur_proc (\<lambda>p.
     kbind (user_va_to_pa (pagetable p) argv) (\<lambda>a.
     kthen (load_shell_bincode_from_host_elf a) (kret 1)))"

end
