(* ===== verification/PKE_Syscall.thy ===== *)
theory PKE_Syscall
  imports PKE_Elf
begin

text \<open>
  The system calls, \<^verbatim>\<open>kernel/syscall.c\<close>. Arguments and results are the 64-bit registers;
  a parameter the code declares \<^verbatim>\<open>int\<close> is the low half of its register, and a result it
  declares \<^verbatim>\<open>int\<close> is sign extended. \<^verbatim>\<open>current\<close> is null only before the first process runs;
  the calls that dereference it without an assertion trap then.
\<close>

definition SYS_user_base :: u64 where [simp]: "SYS_user_base = 64"
definition SYS_user_print :: u64 where [simp]: "SYS_user_print = SYS_user_base + 0"
definition SYS_user_exit :: u64 where [simp]: "SYS_user_exit = SYS_user_base + 1"
definition SYS_user_allocate_page :: u64 where [simp]: "SYS_user_allocate_page = SYS_user_base + 2"
definition SYS_user_free_page :: u64 where [simp]: "SYS_user_free_page = SYS_user_base + 3"
definition SYS_user_fork :: u64 where [simp]: "SYS_user_fork = SYS_user_base + 4"
definition SYS_user_yield :: u64 where [simp]: "SYS_user_yield = SYS_user_base + 5"
definition SYS_user_wait :: u64 where [simp]: "SYS_user_wait = SYS_user_base + 14"
definition SYS_user_getline :: u64 where [simp]: "SYS_user_getline = SYS_user_base + 15"
definition SYS_user_exec :: u64 where [simp]: "SYS_user_exec = SYS_user_base + 16"
definition SYS_user_open :: u64 where [simp]: "SYS_user_open = SYS_user_base + 17"
definition SYS_user_read :: u64 where [simp]: "SYS_user_read = SYS_user_base + 18"
definition SYS_user_write :: u64 where [simp]: "SYS_user_write = SYS_user_base + 19"
definition SYS_user_close :: u64 where [simp]: "SYS_user_close = SYS_user_base + 20"
definition SYS_user_getinfo :: u64 where [simp]: "SYS_user_getinfo = SYS_user_base + 21"

definition cur_index :: "nat K" where
  "cur_index = kbind (kget current) (\<lambda>c. case c of None \<Rightarrow> kexits (Wild 0) | Some i \<Rightarrow> kret i)"

definition assert_current :: "unit K" where
  "assert_current = kbind (kget current) (\<lambda>c. kguard (c \<noteq> None) (Assert_fail ''current''))"

definition sys_user_print :: "u64 \<Rightarrow> u64 \<Rightarrow> u64 K" where
  "sys_user_print buf n =
     kthen assert_current
    (kbind cur_proc (\<lambda>p.
     kbind (user_va_to_pa (pagetable p) buf) (\<lambda>pa.
     kthen (vprintk pa []) (kret 0))))"

definition sys_user_exit :: "u64 \<Rightarrow> u64 K" where
  "sys_user_exit code =
     kbind cur_index (\<lambda>i. kbind (free_process i) (\<lambda>_. schedule))"

definition sys_user_allocate_page :: "u64 K" where
  "sys_user_allocate_page =
     kbind alloc_page (\<lambda>pa.
     kbind (kget g_ufree_page) (\<lambda>va.
     kthen (kmod (\<lambda>s. s\<lparr>g_ufree_page := g_ufree_page s + PGSIZE\<rparr>))
    (kbind cur_proc (\<lambda>p.
     kthen (user_vm_map (pagetable p) va PGSIZE pa (prot_to_type (PROT_WRITE OR PROT_READ) 1))
       (kret va)))))"

definition sys_user_free_page :: "u64 \<Rightarrow> u64 K" where
  "sys_user_free_page va =
     kbind cur_proc (\<lambda>p. kthen (user_vm_unmap (pagetable p) va PGSIZE True) (kret 0))"

definition sys_user_fork :: "u64 K" where
  "sys_user_fork = kbind cur_index (\<lambda>i. kbind (do_fork i) (\<lambda>r. kret (scast r)))"

definition sys_user_yield :: "u64 K" where
  "sys_user_yield = kbind cur_index (\<lambda>i. kthen (insert_to_ready_queue i) schedule)"

definition sys_user_wait :: "i32 \<Rightarrow> u64 K" where
  "sys_user_wait n = kbind (do_wait n) (\<lambda>r. kret (scast r))"

definition sys_user_getline :: "u64 \<Rightarrow> i32 \<Rightarrow> u64 K" where
  "sys_user_getline dst sz =
     kthen assert_current
    (kbind cur_proc (\<lambda>p.
     kbind (user_va_to_pa (pagetable p) dst) (\<lambda>pa.
     kthen (sgetline pa sz) (kret 0))))"

definition sys_user_exec :: "u64 \<Rightarrow> u64 \<Rightarrow> u64 K" where
  "sys_user_exec path argv = kbind (do_exec path argv) (\<lambda>_. kret 0)"

definition sys_user_open :: "u64 \<Rightarrow> u32 \<Rightarrow> u64 K" where
  "sys_user_open pathva flags =
     kbind cur_proc (\<lambda>p. kbind (user_va_to_pa (pagetable p) pathva) (\<lambda>pathpa.
     kbind (do_open pathpa flags) (\<lambda>r. kret (scast r))))"

text \<open>
  The transfer loops of \<^verbatim>\<open>sys_user_read\<close> and \<^verbatim>\<open>sys_user_write\<close>, which differ only in the
  operation they call. \<^verbatim>\<open>i\<close> is an \<^verbatim>\<open>int\<close> and \<^verbatim>\<open>r\<close> an \<^verbatim>\<open>uint64\<close>, as in the source; both
  operations return \<open>- 1\<close>, so \<^verbatim>\<open>i\<close> goes down by one and the loop ends at the latest when it
  is \<open>- 1\<close>.
\<close>

definition page_offset :: "u64 \<Rightarrow> u64" where
  "page_offset addr = addr - ROUNDDOWN addr PGSIZE"

definition chunk_len :: "u64 \<Rightarrow> u64 \<Rightarrow> i32 \<Rightarrow> u64" where
  "chunk_len bufva count i =
     (if count - scast i < PGSIZE - page_offset (bufva + scast i) then count - scast i
      else PGSIZE - page_offset (bufva + scast i))"

lemma unat_pred: "(i :: i32) \<noteq> - 1 \<Longrightarrow> unat i < unat (i + 1)"
  by (metis add_diff_cancel_right' eq_neg_iff_add_eq_0 unat_minus_one word_neq_0_conv measure_unat)

lemma ucast_minus_1: "ucast (- 1 :: u64) = (- 1 :: u32)"
  by (rule bit_word_eqI) (simp add: bit_simps)

function read_loop :: "i32 \<Rightarrow> u64 \<Rightarrow> u64 \<Rightarrow> i32 \<Rightarrow> u64 K" where
  "read_loop fd bufva count i s =
     (if scast i < count then
        kbind cur_proc (\<lambda>p.
        kbind (lookup_pa (pagetable p) (bufva + scast i)) (\<lambda>pa.
        kbind (do_read fd (pa + page_offset (bufva + scast i)) (chunk_len bufva count i)) (\<lambda>rd.
          if (scast rd :: u64) < chunk_len bufva count i then kret (scast (i + ucast (scast rd :: u64)))
          else read_loop fd bufva count (i + ucast (scast rd :: u64))))) s
      else Inr (count, s))"
  by pat_completeness auto
termination
proof (relation "measure (\<lambda>(fd, bufva, count, i, s). unat (i + 1))", goal_cases)
  case (2 fd bufva count i s p s' pa t rd u)
  then have "rd = - 1" and "i \<noteq> - 1"
    by (auto simp: do_read_def kdefs)
  then show ?case by (simp add: ucast_minus_1 unat_pred)
qed simp

declare read_loop.simps [simp del]

function write_loop :: "i32 \<Rightarrow> u64 \<Rightarrow> u64 \<Rightarrow> i32 \<Rightarrow> u64 K" where
  "write_loop fd bufva count i s =
     (if scast i < count then
        kbind cur_proc (\<lambda>p.
        kbind (lookup_pa (pagetable p) (bufva + scast i)) (\<lambda>pa.
        kbind (do_write fd (pa + page_offset (bufva + scast i)) (chunk_len bufva count i)) (\<lambda>rd.
          if (scast rd :: u64) < chunk_len bufva count i then kret (scast (i + ucast (scast rd :: u64)))
          else write_loop fd bufva count (i + ucast (scast rd :: u64))))) s
      else Inr (count, s))"
  by pat_completeness auto
termination
proof (relation "measure (\<lambda>(fd, bufva, count, i, s). unat (i + 1))", goal_cases)
  case (2 fd bufva count i s p s' pa t rd u)
  then have "rd = - 1" and "i \<noteq> - 1"
    by (auto simp: do_write_def kdefs)
  then show ?case by (simp add: ucast_minus_1 unat_pred)
qed simp

declare write_loop.simps [simp del]

definition sys_user_read :: "i32 \<Rightarrow> u64 \<Rightarrow> u64 \<Rightarrow> u64 K" where
  "sys_user_read fd bufva count = read_loop fd bufva count 0"

definition sys_user_write :: "i32 \<Rightarrow> u64 \<Rightarrow> u64 \<Rightarrow> u64 K" where
  "sys_user_write fd bufva count = write_loop fd bufva count 0"

definition sys_user_close :: "i32 \<Rightarrow> u64 K" where
  "sys_user_close fd = kbind (do_close fd) (\<lambda>r. kret (scast r))"

definition sys_user_getinfo :: "u64 K" where
  "sys_user_getinfo = kbind do_getinfo (\<lambda>(r, _). kret (of_int r))"

definition do_syscall :: "u64 \<Rightarrow> u64 \<Rightarrow> u64 \<Rightarrow> u64 \<Rightarrow> u64 K" where
  "do_syscall a0 a1 a2 a3 =
     (if a0 = SYS_user_print then sys_user_print a1 a2
      else if a0 = SYS_user_exit then sys_user_exit a1
      else if a0 = SYS_user_allocate_page then sys_user_allocate_page
      else if a0 = SYS_user_free_page then sys_user_free_page a1
      else if a0 = SYS_user_fork then sys_user_fork
      else if a0 = SYS_user_yield then sys_user_yield
      else if a0 = SYS_user_wait then sys_user_wait (ucast a1)
      else if a0 = SYS_user_getline then sys_user_getline a1 (ucast a2)
      else if a0 = SYS_user_exec then sys_user_exec a1 a2
      else if a0 = SYS_user_open then sys_user_open a1 (ucast a2)
      else if a0 = SYS_user_read then sys_user_read (ucast a1) a2 a3
      else if a0 = SYS_user_write then sys_user_write (ucast a1) a2 a3
      else if a0 = SYS_user_close then sys_user_close (ucast a1)
      else if a0 = SYS_user_getinfo then sys_user_getinfo
      else kexits (Panic ''Unknown syscall''))"

end
