(* ===== verification/PKE_Strap.thy ===== *)
theory PKE_Strap
  imports PKE_Syscall
begin

text \<open>
  Traps from user mode: the vector of \<^verbatim>\<open>kernel/strap_vector.S\<close> with the register save of
  \<^verbatim>\<open>util/load_store.S\<close>, the handlers of \<^verbatim>\<open>kernel/strap.c\<close>, and the start of the kernel in
  \<^verbatim>\<open>kernel/kernel.c\<close>.

  The register file is the list of the 31 registers in the order of \<^verbatim>\<open>struct riscv_regs\<close>
  (\<^verbatim>\<open>a0\<close> is number 9, \<^verbatim>\<open>t6\<close> number 30). The trapframe and the code of the vector are mapped
  at their physical addresses in every user address space, so the vector's accesses, made
  under the user's page table, are accesses to those physical addresses.
\<close>

section \<open>The trap vector\<close>

definition REG_A0 :: nat where [simp]: "REG_A0 = 9"
definition REG_T6 :: nat where [simp]: "REG_T6 = 30"

definition store_all_registers :: "regs \<Rightarrow> u64 \<Rightarrow> unit K" where
  "store_all_registers rs t6 = kfor [0..<31] (\<lambda>k. store64 (t6 + TF_REG k) (rs ! k))"

section \<open>Handlers\<close>

definition CAUSE_USER_ECALL :: u64 where [simp]: "CAUSE_USER_ECALL = 8"
definition CAUSE_LOAD_PAGE_FAULT :: u64 where [simp]: "CAUSE_LOAD_PAGE_FAULT = 0xd"
definition CAUSE_STORE_PAGE_FAULT :: u64 where [simp]: "CAUSE_STORE_PAGE_FAULT = 0xf"
definition CAUSE_MTIMER_S_TRAP :: u64 where [simp]: "CAUSE_MTIMER_S_TRAP = 0x8000000000000001"
definition SIP_SSIP :: u64 where "SIP_SSIP = push_bit 1 1"
definition TIME_SLICE_LEN :: i32 where [simp]: "TIME_SLICE_LEN = 2"

definition handle_syscall :: "u64 \<Rightarrow> unit K" where
  "handle_syscall tf =
     kbind (load64 (tf + TF_EPC)) (\<lambda>epc.
     kthen (store64 (tf + TF_EPC) (epc + 4))
    (kbind (load64 (tf + TF_REG 9)) (\<lambda>a0. kbind (load64 (tf + TF_REG 10)) (\<lambda>a1.
     kbind (load64 (tf + TF_REG 11)) (\<lambda>a2. kbind (load64 (tf + TF_REG 12)) (\<lambda>a3.
     kbind (do_syscall a0 a1 a2 a3) (\<lambda>r.
       store64 (tf + TF_REG 9) r)))))))"

definition handle_mtimer_trap :: "unit K" where
  "handle_mtimer_trap =
     kthen (kmod (\<lambda>s. s\<lparr>g_ticks := g_ticks s + 1\<rparr>))
       (kmod (\<lambda>s. s\<lparr>csr := (csr s)\<lparr>sip := sip (csr s) AND NOT SIP_SSIP\<rparr>\<rparr>))"

definition handle_user_page_fault :: "u64 \<Rightarrow> u64 \<Rightarrow> u64 \<Rightarrow> unit K" where
  "handle_user_page_fault mcause pc va =
     (if mcause = CAUSE_STORE_PAGE_FAULT then
        kbind alloc_page (\<lambda>newpage.
        kbind cur_proc (\<lambda>p.
          user_vm_map (pagetable p) (ROUNDDOWN va PGSIZE) PGSIZE newpage
            (prot_to_type (PROT_WRITE OR PROT_READ) 1)))
      else kret ())"

definition rrsched :: "unit K" where
  "rrsched =
     kbind cur_index (\<lambda>i.
     kthen (set_proc i (\<lambda>p. p\<lparr>tick_count := tick_count p + 1, total_tick_count := total_tick_count p + 1\<rparr>))
    (kbind (the_proc i) (\<lambda>p.
       if TIME_SLICE_LEN \<le>s tick_count p then
         kthen (set_proc i (\<lambda>p. p\<lparr>tick_count := 0\<rparr>))
        (kthen (insert_to_ready_queue i) schedule)
       else kret ())))"

definition smode_trap_handler :: "'a K" where
  "smode_trap_handler =
     kbind (kget csr) (\<lambda>c.
     kthen (kguard (sstatus c AND SSTATUS_SPP = 0) (Panic ''usertrap: not from user mode''))
    (kthen assert_current
    (kbind cur_proc (\<lambda>p.
     kthen (store64 (trapframe p + TF_EPC) (sepc c))
    (kthen
      (if scause c = CAUSE_USER_ECALL then handle_syscall (trapframe p)
       else if scause c = CAUSE_MTIMER_S_TRAP then kthen handle_mtimer_trap rrsched
       else if scause c = CAUSE_STORE_PAGE_FAULT \<or> scause c = CAUSE_LOAD_PAGE_FAULT
       then handle_user_page_fault (scause c) (sepc c) (stval c)
       else kexits (Panic ''unexpected exception happened.''))
    (kbind (kget current) switch_to))))))"

definition save_context :: "regs \<Rightarrow> u64 K" where
  "save_context rs =
     kbind (kget (\<lambda>s. sscratch (csr s))) (\<lambda>tf.
     kthen (kmod (\<lambda>s. s\<lparr>csr := (csr s)\<lparr>sscratch := rs ! REG_A0\<rparr>\<rparr>))
    (kthen (store_all_registers (rs[REG_A0 := tf, REG_T6 := tf]) tf)
    (kthen (store64 (tf + TF_REG REG_A0) (rs ! REG_A0))
       (kret tf))))"

definition smode_trap_vector :: "regs \<Rightarrow> 'a K" where
  "smode_trap_vector rs =
     kbind (save_context rs) (\<lambda>tf.
     kbind (load64 (tf + TF_KERNEL_SP)) (\<lambda>sp.
     kbind (load64 (tf + TF_KERNEL_TRAP)) (\<lambda>handler.
     kbind (load64 (tf + TF_KERNEL_SATP)) (\<lambda>ksatp.
     kthen (kmod (\<lambda>s. s\<lparr>csr := (csr s)\<lparr>satp := ksatp\<rparr>\<rparr>))
    (kbind (kget (\<lambda>s. sym_smode_trap_handler (kenv s))) (\<lambda>f.
       if handler = f then smode_trap_handler else kexits (Wild handler)))))))"

section \<open>Start of the kernel\<close>

definition enable_paging :: "unit K" where
  "enable_paging = kmod (\<lambda>s. s\<lparr>csr := (csr s)\<lparr>satp := MAKE_SATP (g_kernel_pagetable s)\<rparr>\<rparr>)"

definition load_user_program :: "nat K" where
  "load_user_program =
     kbind alloc_process (\<lambda>i. kthen (load_bincode_from_host_elf i) (kret i))"

definition s_start :: "'a K" where
  "s_start =
     kthen (kmod (\<lambda>s. s\<lparr>csr := (csr s)\<lparr>satp := 0\<rparr>\<rparr>))
    (kthen pmm_init
    (kthen kern_vm_init
    (kthen enable_paging
    (kthen init_proc_pool
    (kthen fs_init
    (kbind load_user_program (\<lambda>i.
     kthen (insert_to_ready_queue i) schedule)))))))"

end
