(* ===== verification/PKE_Frame.thy ===== *)
theory PKE_Frame
  imports PKE_Strap
begin

text \<open>
  What the memory, file and loader code of the kernel leaves alone. The locale
  \<open>frame_inv\<close> is the contract of an invariant that does not look at the memory, the free
  list, the host's files or the accounting; every operation outside the scheduler is shown
  once, inside the locale, to keep such an invariant on every path, and to stay in the kernel. The interpretations
  are the view the scheduler has of the state and the constants fixed at boot.
\<close>

section \<open>Invariants of a single run\<close>

definition kept :: "(kstate \<Rightarrow> bool) \<Rightarrow> kstate kexit + 'a \<times> kstate \<Rightarrow> bool" where
  "kept I r \<longleftrightarrow> (case r of Inl e \<Rightarrow> run_over e | Inr (x, t) \<Rightarrow> I t)"

named_theorems kept_intros "composition rules for runs that keep an invariant"
named_theorems frames "operations that keep every frame invariant"

lemma stays_kept: "stays I m \<Longrightarrow> I s \<Longrightarrow> kept I (m s)"
  by (simp add: preserves_def kept_def wp_def)

lemma kept_stays: "(\<And>s. I s \<Longrightarrow> kept I (m s)) \<Longrightarrow> stays I m"
  by (simp add: preserves_def kept_def wp_def)

lemma kept_Inr [kept_intros]: "I t \<Longrightarrow> kept I (Inr (x, t))"
  by (simp add: kept_def)

lemma kept_kbind [kept_intros]:
  assumes "kept I (m s)" and "\<And>x t. m s = Inr (x, t) \<Longrightarrow> I t \<Longrightarrow> kept I (f x t)"
  shows "kept I (kbind m f s)"
  using assms by (auto simp: kept_def kbind_eq split: sum.splits)

lemma kept_kthen [kept_intros]:
  assumes "kept I (m s)" and "\<And>x t. m s = Inr (x, t) \<Longrightarrow> I t \<Longrightarrow> kept I (n t)"
  shows "kept I (kthen m n s)"
  using assms by (auto simp: kthen_def intro: kept_kbind)

lemma kept_kret [kept_intros]: "I s \<Longrightarrow> kept I (kret x s)"
  by (simp add: kept_def kdefs)

lemma kept_kexits [kept_intros]: "run_over e \<Longrightarrow> kept I (kexits e s)"
  by (cases e) (simp_all add: kept_def kdefs)

lemma kept_if [kept_intros]:
  "(b \<Longrightarrow> kept I (m s)) \<Longrightarrow> (\<not> b \<Longrightarrow> kept I (n s)) \<Longrightarrow> kept I ((if b then m else n) s)"
  "(b \<Longrightarrow> kept I r) \<Longrightarrow> (\<not> b \<Longrightarrow> kept I r') \<Longrightarrow> kept I (if b then r else r')"
  by simp_all

section \<open>The contract\<close>

text \<open>The fields of a process that the scheduler and the family tree are made of.\<close>

definition sched_part :: "process \<Rightarrow> proc_status \<times> nat option \<times> u64 \<times> nat option" where
  "sched_part p = (status p, queue_next p, pid p, parent p)"

locale frame_inv =
  fixes I :: "kstate \<Rightarrow> bool"
  assumes upd_mem: "I s \<Longrightarrow> I (s\<lparr>mem := m\<rparr>)"
    and upd_free_list: "I s \<Longrightarrow> I (s\<lparr>g_free_mem_list := a\<rparr>)"
    and upd_host_log: "I s \<Longrightarrow> I (s\<lparr>host_log := lg\<rparr>)"
    and upd_spike_files: "I s \<Longrightarrow> I (s\<lparr>spike_files := fs\<rparr>)"
    and upd_spike_fds: "I s \<Longrightarrow> I (s\<lparr>spike_fds := fds\<rparr>)"
    and upd_ufree: "I s \<Longrightarrow> I (s\<lparr>g_ufree_page := a\<rparr>)"
    and upd_ticks: "I s \<Longrightarrow> I (s\<lparr>g_ticks := a\<rparr>)"
    and upd_csr: "I s \<Longrightarrow> I (s\<lparr>csr := c\<rparr>)"
    and upd_vdev: "I s \<Longrightarrow> I (s\<lparr>vdev_list := vs\<rparr>)"
    and upd_ramdisk: "I s \<Longrightarrow> I (s\<lparr>RAMDISK0_BASE_ADDR := a\<rparr>)"
    and upd_uregs: "I s \<Longrightarrow> I (s\<lparr>uregs := rs\<rparr>)"
    and upd_kpt: "I s \<Longrightarrow> I (s\<lparr>g_kernel_pagetable := a\<rparr>)"
    and upd_space: "I s \<Longrightarrow> (\<And>p. sched_part (f p) = sched_part p) \<Longrightarrow> I (upd_proc i f s)"
begin

text \<open>Memory, string and allocator code.\<close>

lemma stays_access [frames]: "stays I (access n a)"
  by (auto simp: preserves_def wp_def access_eq)

lemma stays_load [frames]: "stays I (load64 a)" "stays I (load32 a)" "stays I (load8 a)"
  by (auto simp: load64_def load32_def load8_def intro!: keeps_intros frames)

lemma stays_store [frames]: "stays I (store64 a v)" "stays I (store32 a w)" "stays I (store8 a b)"
  by (auto simp: store64_def store32_def store8_def intro!: keeps_intros frames upd_mem)

lemmas kept_mem = kept_intros stays_load [THEN stays_kept] stays_store [THEN stays_kept]

lemma stays_memcpy_words [frames]: "stays I (memcpy_words d a lim)"
proof (rule kept_stays)
  show "I s \<Longrightarrow> kept I (memcpy_words d a lim s)" for s
    by (induction d a lim s rule: memcpy_words.induct) (subst memcpy_words.simps, auto intro!: kept_mem)
qed

lemma stays_memcpy_bytes [frames]: "stays I (memcpy_bytes d a lim)"
proof (rule kept_stays)
  show "I s \<Longrightarrow> kept I (memcpy_bytes d a lim s)" for s
    by (induction d a lim s rule: memcpy_bytes.induct) (subst memcpy_bytes.simps, auto intro!: kept_mem)
qed

lemma stays_memset_words [frames]: "stays I (memset_words d lim w)"
proof (rule kept_stays)
  show "I s \<Longrightarrow> kept I (memset_words d lim w s)" for s
    by (induction d lim w s rule: memset_words.induct) (subst memset_words.simps, auto intro!: kept_mem)
qed

lemma stays_memset_bytes [frames]: "stays I (memset_bytes d lim b)"
proof (rule kept_stays)
  show "I s \<Longrightarrow> kept I (memset_bytes d lim b s)" for s
    by (induction d lim b s rule: memset_bytes.induct) (subst memset_bytes.simps, auto intro!: kept_mem)
qed

lemma stays_strlen_loop [frames]: "stays I (strlen_loop a)"
proof (rule kept_stays)
  show "I s \<Longrightarrow> kept I (strlen_loop a s)" for s
    by (induction a s rule: strlen_loop.induct) (subst strlen_loop.simps, auto intro!: kept_mem)
qed

lemma stays_strcmp [frames]: "stays I (strcmp a b)"
proof (rule kept_stays)
  show "I s \<Longrightarrow> kept I (strcmp a b s)" for s
    by (induction a b s rule: strcmp.induct) (subst strcmp.simps, auto intro!: kept_mem)
qed

lemma stays_strcpy_loop [frames]: "stays I (strcpy_loop d a)"
proof (rule kept_stays)
  show "I s \<Longrightarrow> kept I (strcpy_loop d a s)" for s
    by (induction d a s rule: strcpy_loop.induct) (subst strcpy_loop.simps, auto intro!: kept_mem)
qed

lemma stays_find_colon [frames]: "stays I (find_colon a)"
proof (rule kept_stays)
  show "I s \<Longrightarrow> kept I (find_colon a s)" for s
    by (induction a s rule: find_colon.induct) (subst find_colon.simps, auto intro!: kept_mem)
qed

lemma stays_read_cstr [frames]: "stays I (read_cstr a)"
proof (rule kept_stays)
  show "I s \<Longrightarrow> kept I (read_cstr a s)" for s
    by (induction a s rule: read_cstr.induct) (subst read_cstr.simps, auto intro!: kept_mem)
qed

lemma stays_mem_routines [frames]:
  "stays I (memcpy d a n)" "stays I (memset d w n)" "stays I (strlen a)" "stays I (strcpy d a)"
  by (auto simp: memcpy_def memset_def strlen_def strcpy_def intro!: keeps_intros frames)

lemma upd_bump: "I s \<Longrightarrow> I (bump_mem_count d s)"
  using upd_space [of s "\<lambda>p. p\<lparr>total_mem_count := total_mem_count p + d\<rparr>"]
  by (auto simp: bump_mem_count_def upd_proc_def sched_part_def split: option.split)

lemma stays_set_proc [frames]: "(\<And>p. sched_part (f p) = sched_part p) \<Longrightarrow> stays I (set_proc i f)"
  by (auto simp: set_proc_def intro!: keeps_intros upd_space)

lemma stays_alloc_page [frames]: "stays I alloc_page"
  by (auto simp: alloc_page_def intro!: keeps_intros frames upd_free_list upd_bump)

lemma stays_free_page [frames]: "stays I (free_page a)"
  by (auto simp: free_page_def intro!: keeps_intros frames upd_free_list upd_bump)

lemma stays_the_proc [frames]: "stays I (the_proc i)" "stays I cur_proc"
  by (auto simp: the_proc_def cur_proc_def intro!: keeps_intros)

text \<open>Address spaces.\<close>

lemma stays_page_walk [frames]: "stays I (page_walk pd va al)"
  by (auto simp: page_walk_def walk_level_def Let_def intro!: keeps_intros frames)

lemmas kept_walk = kept_mem stays_page_walk [THEN stays_kept] stays_free_page [THEN stays_kept]

lemma stays_map_pages_loop [frames]: "stays I (map_pages_loop pd a lst pa perm)"
proof (rule kept_stays)
  show "I s \<Longrightarrow> kept I (map_pages_loop pd a lst pa perm s)" for s
    by (induction pd a lst pa perm s rule: map_pages_loop.induct)
       (subst map_pages_loop.simps, auto intro!: kept_walk)
qed

lemma stays_unmap_loop [frames]: "stays I (unmap_loop pd a lim fr)"
proof (rule kept_stays)
  show "I s \<Longrightarrow> kept I (unmap_loop pd a lim fr s)" for s
    by (induction pd a lim fr s rule: unmap_loop.induct)
       (subst unmap_loop.simps, auto intro!: kept_walk)
qed

lemma stays_vm [frames]:
  "stays I (map_pages pd va n pa perm)" "stays I (user_vm_map pd va n pa perm)"
  "stays I (user_vm_unmap pd va n fr)" "stays I (lookup_pa pd va)" "stays I (user_va_to_pa pd va)"
  "stays I (kern_vm_map pd va pa n perm)" "stays I kern_vm_init"
  by (auto simp: map_pages_def user_vm_map_def user_vm_unmap_def lookup_pa_def user_va_to_pa_def
      kern_vm_map_def kern_vm_init_def intro!: keeps_intros frames upd_kpt)

text \<open>Host files and printing.\<close>

lemma stays_frontend [frames]: "stays I (frontend_syscall n args bs)"
  by (rule preservesI) (simp add: frontend_syscall_def wp_def Let_def upd_host_log)

lemma stays_store_bytes [frames]: "stays I (store_bytes a bs)"
  by (induction bs arbitrary: a) (auto intro!: keeps_intros frames)

lemma upd_upd_file: "I s \<Longrightarrow> I (upd_file i f s)"
  by (simp add: upd_file_def upd_spike_files)

lemma stays_file_refs [frames]:
  "stays I (spike_file_decref f)" "stays I (spike_file_incref f)" "stays I spike_file_get_free"
  "stays I (spike_file_get fd)" "stays I (file_kfd fp)"
  by (auto simp: spike_file_decref_def spike_file_incref_def spike_file_get_free_def spike_file_get_def
      file_kfd_def split: option.split intro!: keeps_intros frames upd_upd_file)

lemma stays_files [frames]:
  "stays I (spike_file_close fp)" "stays I (spike_file_dup f)" "stays I (spike_file_open p fl md)"
  "stays I (spike_file_pread fp b n off)" "stays I (spike_file_pread_local fp n off)"
  "stays I (spike_file_read fp b n)" "stays I (spike_file_write fp b n)"
  "stays I (spike_file_write_local fp bs)"
  by (auto simp: spike_file_close_def spike_file_dup_def spike_file_open_def spike_file_openat_def
      spike_file_pread_def spike_file_pread_local_def spike_file_read_def spike_file_write_def
      spike_file_write_local_def path_len_def split: option.split cpath.split
      intro!: keeps_intros frames upd_upd_file upd_spike_fds)

lemma stays_host_io [frames]:
  "stays I (host_open p fl)" "stays I (sgetline d n)" "stays I (vprintk a vl)"
  by (auto simp: host_open_def sgetline_def vprintk_def Let_def split: fptr.split
      intro!: keeps_intros frames)

text \<open>File systems.\<close>

lemma stays_ramdisk [frames]:
  "stays I (ramdisk0_input b n)" "stays I (ramdisk0_output b n)"
  by (auto simp: ramdisk0_input_def ramdisk0_output_def intro!: keeps_intros frames)

lemma stays_rfs_blocks [frames]:
  "stays I (call_dev fp b n)" "stays I (rfs_r1block f n)" "stays I (rfs_w1block f n)"
  "stays I (w1block_or_panic f n msg)"
  by (auto simp: call_dev_def rfs_r1block_def rfs_w1block_def w1block_or_panic_def
      intro!: keeps_intros frames)

lemma stays_rfs_mount [frames]: "stays I (rfs_do_mount d a)"
  by (auto simp: rfs_do_mount_def alloc_fs_def build_superblock_def build_bitmap_def build_inodes_def
      build_root_dir_def Let_def intro!: keeps_intros frames)

lemma stays_rfs_inodes [frames]:
  "stays I (rfs_create_inode f d n)" "stays I (rfs_get_root f)" "stays I (rfs_fstat nd)"
  by (auto simp: rfs_create_inode_def alloc_inode_def copy32_def copy64_def rfs_get_ops_def
      rfs_get_root_def rfs_load_dinode_def rfs_fstat_def intro!: keeps_intros frames)

lemma stays_rfs_lookup [frames]: "stays I (rfs_lookup nd p)"
  by (auto simp: rfs_lookup_def lookup_entry_def intro!: keeps_intros frames)

lemma stays_find_dev [frames]: "stays I (find_dev ps p name)"
  by (induction ps arbitrary: p) (auto intro!: keeps_intros frames)

lemma stays_vfs [frames]:
  "stays I (vfs_get_root name)" "stays I (vop_lookup nd p)" "stays I (vop_fstat nd)"
  "stays I (get_device p)" "stays I (vfs_lookup p)" "stays I (vfs_open p fl)" "stays I rfs_init"
  by (auto simp: vfs_get_root_def fsop_get_root_def vop_lookup_def vop_fstat_def load_op_def get_device_def
      vfs_lookup_def vfs_open_def rfs_init_def rfs_mount_def vfs_mount_def intro!: keeps_intros frames)

lemma stays_fs_init [frames]: "stays I fs_init"
  by (auto simp: fs_init_def dev_init_def init_ramdisk0_def dev_init_ramdisk0_def
      intro!: keeps_intros frames upd_ramdisk upd_vdev)

lemma stays_file_table [frames]:
  "stays I (do_open p fl)" "stays I files_create"
  by (auto simp: do_open_def find_entry_def open_host_entry_def open_ram_entry_def add32_def Let_def
      files_create_def save_host_entry_def clear_entry_def intro!: keeps_intros frames)

text \<open>Building address spaces and loading programs.\<close>

lemma stays_regions [frames]:
  "stays I (map_initial_regions i us)" "stays I (alloc_space i)"
  "stays I (unmap_regions i)" "stays I (realloc_process i)"
  by (auto simp: map_initial_regions_def set_region_def alloc_space_def unmap_regions_def unmap_region_def
      realloc_process_def sched_part_def intro!: keeps_intros frames)

lemma stays_fork_region [frames]: "stays I (fork_region pi ci j)"
  by (auto simp: fork_region_def copy_trapframe_def copy64_def fork_pages_def fork_code_page_def
      fork_data_page_def fork_register_def sched_part_def Let_def intro!: keeps_intros frames)

lemma stays_save_argv [frames]: "stays I (save_argv n argv k)"
  by (induction n argv k rule: save_argv.induct) (auto simp: arg_pa_def intro!: keeps_intros frames)

lemma stays_elf [frames]:
  "stays I (elf_open_load path i)"
  by (auto simp: elf_open_load_def elf_init_def elf_load_def elf_load_header_def elf_load_segment_def
      elf_alloc_mb_def elf_fpread_def elf_fpread_local_def find_region_def sched_part_def Let_def
      split: fptr.split intro!: keeps_intros frames)

lemma stays_loaders [frames]:
  "stays I (load_bincode_from_host_elf i)" "stays I (do_exec path argv)"
  by (auto simp: load_bincode_from_host_elf_def parse_args_def do_exec_def
      load_shell_bincode_from_host_elf_def arg_pa_def shell_path_def build_ustack_def push_arg_def
      push_ptr_def Let_def intro!: keeps_intros frames)

text \<open>The system calls and handlers that do not touch the scheduler.\<close>

lemmas kept_io = kept_mem stays_the_proc [THEN stays_kept] stays_vm [THEN stays_kept]

lemma stays_transfer [frames]: "stays I (read_loop fd b n i)" "stays I (write_loop fd b n i)"
proof -
  have "I s \<Longrightarrow> kept I (read_loop fd b n i s)" for s
    by (induction fd b n i s rule: read_loop.induct)
       (subst read_loop.simps, auto simp: do_read_def intro!: kept_io)
  then show "stays I (read_loop fd b n i)" by (rule kept_stays)
  have "I s \<Longrightarrow> kept I (write_loop fd b n i s)" for s
    by (induction fd b n i s rule: write_loop.induct)
       (subst write_loop.simps, auto simp: do_write_def intro!: kept_io)
  then show "stays I (write_loop fd b n i)" by (rule kept_stays)
qed

lemma stays_quiet_syscalls [frames]:
  "stays I (sys_user_print b n)" "stays I sys_user_allocate_page" "stays I (sys_user_free_page va)"
  "stays I (sys_user_getline d k)" "stays I (sys_user_exec p av)" "stays I (sys_user_open p fl)"
  "stays I (sys_user_read fd b n)" "stays I (sys_user_write fd b n)" "stays I (sys_user_close fd)"
  "stays I sys_user_getinfo"
  by (auto simp: sys_user_print_def assert_current_def sys_user_allocate_page_def sys_user_free_page_def
      sys_user_getline_def sys_user_exec_def sys_user_open_def sys_user_read_def sys_user_write_def
      sys_user_close_def do_close_def sys_user_getinfo_def do_getinfo_def intro!: keeps_intros frames upd_ufree)

lemma stays_load_words [frames]: "stays I (load_words as)"
  by (induction as) (auto intro!: keeps_intros frames)

lemma stays_context [frames]: "stays I (save_context rs)" "stays I (restore_all_registers tf)"
  by (auto simp: save_context_def store_all_registers_def restore_all_registers_def
      intro!: keeps_intros frames upd_csr)

lemma keeps_return_to_user: "keeps I (return_to_user tf sa)"
  by (rule preservesI) (auto intro!: return_to_user_wp upd_uregs [OF upd_csr])

lemma stays_quiet_handlers [frames]:
  "stays I handle_mtimer_trap" "stays I (handle_user_page_fault c pc va)" "stays I enable_paging"
  by (auto simp: handle_mtimer_trap_def handle_user_page_fault_def enable_paging_def
      intro!: keeps_intros frames upd_ticks upd_csr)

end

section \<open>Interpretations\<close>

text \<open>What the scheduler sees of the state.\<close>

definition sched_view :: "kstate \<Rightarrow> (proc_status \<times> nat option \<times> u64 \<times> nat option) list \<times> nat option \<times> nat option" where
  "sched_view s = (map sched_part (procs s), current s, ready_queue_head s)"

lemma map_update_same: "(map f xs)[i := f (xs ! i)] = map f xs"
  by (cases "i < length xs") (simp_all add: list_update_same_conv list_update_beyond)

interpretation sv: frame_inv "\<lambda>s. sched_view s = v" for v
  by unfold_locales (auto simp: sched_view_def upd_proc_def map_update map_update_same)

text \<open>What stays as boot left it.\<close>

definition boot_view :: "kstate \<Rightarrow> u64 \<times> u64 \<times> u64 \<times> kenv \<times> nat" where
  "boot_view s = (free_mem_start_addr s, free_mem_end_addr s, g_mem_size s, kenv s, length (procs s))"

interpretation bv: frame_inv "\<lambda>s. boot_view s = v" for v
  by unfold_locales (auto simp: boot_view_def upd_proc_def)

end
