(* ===== verification/PKE_Kernel.thy ===== *)
theory PKE_Kernel
  imports PKE_Frame
begin

text \<open>
  The kernel as a whole: the invariant of the process pool and the ready queue, that
  every system call and trap handler keeps it. The parts of the kernel that do not
  schedule keep the invariant because they keep what the scheduler sees
  (\<^verbatim>\<open>frame_inv\<close>); here are the parts that do.
\<close>

section \<open>The invariant\<close>

text \<open>
  The pool: slot \<open>i\<close> has process number \<open>i\<close>; a process is free, ready or a zombie, never
  in the states running and blocked; a free slot has no parent.
\<close>

definition proc_ok :: "nat \<Rightarrow> process \<Rightarrow> bool" where
  "proc_ok i p \<longleftrightarrow> pid p = of_nat i \<and> status p \<in> {FREE, READY, ZOMBIE} \<and>
     (status p = FREE \<longrightarrow> parent p = None) \<and> (\<forall>j. parent p = Some j \<longrightarrow> j < NPROC)"

definition pool_inv :: "kstate \<Rightarrow> bool" where
  "pool_inv s \<longleftrightarrow> length (procs s) = NPROC \<and> (\<forall>i < NPROC. proc_ok i (procs s ! i))"

text \<open>
  The queue: it is well formed and holds ready processes, the current process is ready and
  not in it, and every live process is current or in the queue, except for those in \<open>X\<close>,
  which an operation is about to enter.
\<close>

definition queue_inv :: "nat set \<Rightarrow> kstate \<Rightarrow> nat list \<Rightarrow> nat \<Rightarrow> bool" where
  "queue_inv X s q c \<longleftrightarrow> queued s q \<and> current s = Some c \<and> c < NPROC \<and> c \<notin> set q \<and>
     status (procs s ! c) = READY \<and> (\<forall>x \<in> X. x < NPROC \<and> x \<notin> set q \<and> x \<noteq> c) \<and>
     (\<forall>i < NPROC. live (procs s ! i) \<longrightarrow> i \<in> set q \<or> i = c \<or> i \<in> X)"

definition kernel_inv_but :: "nat set \<Rightarrow> kstate \<Rightarrow> bool" where
  "kernel_inv_but X s \<longleftrightarrow> pool_inv s \<and> (\<exists>q c. queue_inv X s q c)"

abbreviation kernel_inv :: "kstate \<Rightarrow> bool" where
  "kernel_inv \<equiv> kernel_inv_but {}"

text \<open>Before the first process runs, the pool is empty.\<close>

definition idle :: "kstate \<Rightarrow> bool" where
  "idle s \<longleftrightarrow> pool_inv s \<and> current s = None \<and> ready_queue_head s = None \<and>
     (\<forall>i < NPROC. status (procs s ! i) = FREE)"

lemma sched_view_nth:
  assumes "sched_view s = sched_view t"
  shows "length (procs s) = length (procs t)" "current s = current t" "ready_queue_head s = ready_queue_head t"
    and "i < length (procs t) \<Longrightarrow> status (procs s ! i) = status (procs t ! i) \<and>
      queue_next (procs s ! i) = queue_next (procs t ! i) \<and> pid (procs s ! i) = pid (procs t ! i) \<and>
      parent (procs s ! i) = parent (procs t ! i)"
proof -
  from assms have m: "map sched_part (procs s) = map sched_part (procs t)"
    by (simp add: sched_view_def)
  then show l: "length (procs s) = length (procs t)" by (rule map_eq_imp_length_eq)
  show "current s = current t" "ready_queue_head s = ready_queue_head t"
    using assms by (simp_all add: sched_view_def)
  assume i: "i < length (procs t)"
  with l have "sched_part (procs s ! i) = sched_part (procs t ! i)"
    using arg_cong [where f = "\<lambda>xs. xs ! i", OF m] by simp
  then show "status (procs s ! i) = status (procs t ! i) \<and>
      queue_next (procs s ! i) = queue_next (procs t ! i) \<and> pid (procs s ! i) = pid (procs t ! i) \<and>
      parent (procs s ! i) = parent (procs t ! i)"
    by (simp add: sched_part_def)
qed

lemma queued_view:
  assumes "sched_view s = sched_view t" and "queued t q"
  shows "queued s q"
proof -
  have "chain (\<lambda>i. queue_next (procs s ! i)) (ready_queue_head t) q =
      chain (\<lambda>i. queue_next (procs t ! i)) (ready_queue_head t) q"
    using assms sched_view_nth [OF assms(1)] by (intro chain_cong) (auto simp: queued_def ready_queue_def)
  with assms show ?thesis
    using sched_view_nth [OF assms(1)] by (simp add: queued_def ready_queue_def)
qed

lemma pool_inv_view: "sched_view s = sched_view t \<Longrightarrow> pool_inv t \<Longrightarrow> pool_inv s"
  using sched_view_nth [of s t] by (simp add: pool_inv_def proc_ok_def)

lemma kernel_inv_view: "sched_view s = sched_view t \<Longrightarrow> kernel_inv_but X t \<Longrightarrow> kernel_inv_but X s"
proof -
  assume v: "sched_view s = sched_view t" and "kernel_inv_but X t"
  then obtain q c where "pool_inv t" and q: "queue_inv X t q c" by (auto simp: kernel_inv_but_def)
  moreover from this have "queue_inv X s q c"
    using sched_view_nth [OF v] queued_view [OF v]
    by (auto simp: queue_inv_def live_def pool_inv_def)
  ultimately show "kernel_inv_but X s" using pool_inv_view [OF v] by (auto simp: kernel_inv_but_def)
qed

lemma kernel_inv_length: "kernel_inv_but X s \<Longrightarrow> length (procs s) = NPROC"
  by (simp add: kernel_inv_but_def pool_inv_def)

lemma idle_view: "sched_view s = sched_view t \<Longrightarrow> idle t \<Longrightarrow> idle s"
  using sched_view_nth [of s t] pool_inv_view [of s t] by (auto simp: idle_def pool_inv_def)

lemma view_updates:
  "sched_view (s\<lparr>mem := m\<rparr>) = sched_view s" "sched_view (s\<lparr>g_free_mem_list := a\<rparr>) = sched_view s"
  "sched_view (s\<lparr>host_log := lg\<rparr>) = sched_view s" "sched_view (s\<lparr>spike_files := fs\<rparr>) = sched_view s"
  "sched_view (s\<lparr>spike_fds := fds\<rparr>) = sched_view s" "sched_view (s\<lparr>g_ufree_page := a\<rparr>) = sched_view s"
  "sched_view (s\<lparr>g_ticks := a\<rparr>) = sched_view s" "sched_view (s\<lparr>csr := r\<rparr>) = sched_view s"
  "sched_view (s\<lparr>vdev_list := vs\<rparr>) = sched_view s" "sched_view (s\<lparr>RAMDISK0_BASE_ADDR := a\<rparr>) = sched_view s"
  "sched_view (s\<lparr>g_kernel_pagetable := a\<rparr>) = sched_view s" "sched_view (s\<lparr>uregs := rs\<rparr>) = sched_view s"
  "(\<And>p. sched_part (f p) = sched_part p) \<Longrightarrow> sched_view (upd_proc i f s) = sched_view s"
  by (auto simp: sched_view_def upd_proc_def map_update map_update_same)

interpretation ki: frame_inv "kernel_inv_but X" for X
  by unfold_locales (erule kernel_inv_view [rotated]; simp add: view_updates)+

interpretation idle: frame_inv idle
  by unfold_locales (erule idle_view [rotated]; simp add: view_updates)+

section \<open>Dispatching\<close>

lemmas stays_keeps = stays_preserves [OF _ run_over_exit_keeps]

lemma stays_wp: "stays I m \<Longrightarrow> I s \<Longrightarrow> wp m (\<lambda>_. I) (exit_keeps J) s"
  by (erule wp_preserves [OF stays_preserves [OF _ run_over_exit_keeps]])

lemma switch_to_kernel_inv:
  assumes "kernel_inv (s\<lparr>current := Some i\<rparr>)"
  shows "wp (switch_to (Some i)) (\<lambda>_. kernel_inv) (exit_keeps kernel_inv) s"
  unfolding switch_to_def option.case
  by (subst wp_kthen, subst wp_kmod, rule wp_preserves [where I = kernel_inv])
     (use assms in \<open>auto intro!: keeps_intros frames [THEN stays_keeps] ki.keeps_return_to_user ki.upd_csr\<close>)

text \<open>\<^verbatim>\<open>schedule\<close> establishes the invariant once every live process is in the queue.\<close>

lemma schedule_kernel_inv:
  assumes "pool_inv s" and "covered s"
  shows "wp schedule (\<lambda>_. kernel_inv) (exit_keeps kernel_inv) s"
proof -
  from assms(2) obtain q where q: "queued s q" "\<forall>i < NPROC. live (procs s ! i) \<longrightarrow> i \<in> set q"
    by (auto simp: covered_def)
  show ?thesis
  proof (cases q)
    case Nil
    with q show ?thesis
      by (auto simp: schedule_def wp_eqs queued_def ready_queue_def live_def)
  next
    case (Cons i q')
    let ?u = "s\<lparr>ready_queue_head := queue_next (procs s ! i), current := Some i\<rparr>"
    have "queue_inv {} ?u q' i"
      using q Cons rq.queue_distinct [OF q(1)] assms(1)
      by (auto simp: queue_inv_def queued_def ready_queue_def pool_inv_def)
    then have "kernel_inv ?u"
      using assms(1) by (auto simp: kernel_inv_but_def pool_inv_def)
    with q Cons show ?thesis
      by (auto simp: schedule_def wp_eqs queued_def ready_queue_def intro!: switch_to_kernel_inv)
  qed
qed

text \<open>Entering a process, the current one before it gives up the processor or a new one.\<close>

text \<open>What entering a process that is not queued does to the invariant's ingredients.\<close>

lemma insert_spec:
  assumes "pool_inv s" and "queued s q" and "i < NPROC" and "i \<notin> set q" and "status (procs s ! i) = READY"
  obtains t where "insert_to_ready_queue i s = Inr ((), t)" and "pool_inv t" and "queued t (q @ [i])"
    and "current t = current s" and "\<And>j. status (procs t ! j) = status (procs s ! j)"
proof -
  obtain t where t: "insert_to_ready_queue i s = Inr ((), t)" "ready_queue t (q @ [i])"
      "length (procs t) = length (procs s)" "current t = current s"
      "\<forall>j. status (procs t ! j) = (if j = i then READY else status (procs s ! j))"
      "\<forall>j. (procs t ! j)\<lparr>status := READY, queue_next := None\<rparr> =
         (procs s ! j)\<lparr>status := READY, queue_next := None\<rparr>"
    using insert_new [of s q i] assms by (auto simp: queued_def pool_inv_def)
  have "pid (procs t ! j) = pid (procs s ! j) \<and> parent (procs t ! j) = parent (procs s ! j)" for j
    using t(6) by (metis process.select_convs(6,8) process.surjective process.update_convs(7,9))
  with t assms have "pool_inv t" by (auto simp: pool_inv_def proc_ok_def)
  with t assms show thesis by (intro that [of t]) (auto simp: queued_def)
qed

lemma insert_yields:
  assumes "kernel_inv s" and "current s = Some c"
  shows "wp (insert_to_ready_queue c) (\<lambda>_ t. pool_inv t \<and> covered t) E s"
proof -
  from assms obtain q where q: "pool_inv s" "queue_inv {} s q c"
    by (auto simp: kernel_inv_but_def queue_inv_def)
  then have "queued s q" "c < NPROC" "c \<notin> set q" "status (procs s ! c) = READY"
    by (simp_all add: queue_inv_def)
  with q(1) obtain t where "insert_to_ready_queue c s = Inr ((), t)" "pool_inv t" "queued t (q @ [c])"
      "current t = current s" "\<And>j. status (procs t ! j) = status (procs s ! j)"
    by (rule insert_spec) blast
  with q show ?thesis
    by (auto simp: wp_def covered_def queue_inv_def live_def pool_inv_def intro!: exI [of _ "q @ [c]"])
qed

lemma insert_enters:
  assumes "kernel_inv_but {i} s" and "status (procs s ! i) = READY"
  shows "wp (insert_to_ready_queue i) (\<lambda>_. kernel_inv) E s"
proof -
  from assms obtain q c where q: "pool_inv s" "queue_inv {i} s q c"
    by (auto simp: kernel_inv_but_def)
  then obtain t where t: "insert_to_ready_queue i s = Inr ((), t)" "pool_inv t" "queued t (q @ [i])"
      "current t = current s" "\<And>j. status (procs t ! j) = status (procs s ! j)"
    using insert_spec [of s q i] assms(2) by (auto simp: queue_inv_def)
  moreover from t q have "queue_inv {} t (q @ [i]) c"
    by (auto simp: queue_inv_def live_def)
  ultimately show ?thesis by (auto simp: wp_def kernel_inv_but_def)
qed

section \<open>The operations that schedule\<close>

lemma procs_upd_proc: "i \<noteq> j \<Longrightarrow> procs (upd_proc i f s) ! j = procs s ! j"
  "i < length (procs s) \<Longrightarrow> procs (upd_proc i f s) ! i = f (procs s ! i)"
  "length (procs (upd_proc i f s)) = length (procs s)" "current (upd_proc i f s) = current s"
  by (simp_all add: upd_proc_def)

text \<open>Updates of a process outside the queue.\<close>

lemma queued_upd_proc:
  assumes "queued s q" and "i \<notin> set q"
  shows "queued (upd_proc i f s) q"
proof -
  have "procs (upd_proc i f s) ! j = procs s ! j" if "j \<in> set q" for j
    using that assms(2) by (intro procs_upd_proc) auto
  moreover from this have "chain (\<lambda>j. queue_next (procs (upd_proc i f s) ! j)) (ready_queue_head s) q =
      chain (\<lambda>j. queue_next (procs s ! j)) (ready_queue_head s) q"
    by (intro chain_cong) simp
  ultimately show ?thesis
    using assms(1) by (simp add: queued_def ready_queue_def) (simp add: upd_proc_def)
qed

lemma pool_inv_upd_proc:
  assumes "pool_inv s" and "i < NPROC \<Longrightarrow> proc_ok i (f (procs s ! i))"
  shows "pool_inv (upd_proc i f s)"
proof -
  have "proc_ok j (procs (upd_proc i f s) ! j)" if "j < NPROC" for j
    using that assms by (cases "j = i") (auto simp: procs_upd_proc pool_inv_def)
  with assms(1) show ?thesis by (simp add: pool_inv_def procs_upd_proc)
qed

lemma queue_inv_upd_proc:
  assumes "pool_inv s" and "queue_inv X s q c" and "i \<notin> set q" and "i \<noteq> c"
    and "live (f (procs s ! i)) \<Longrightarrow> i \<in> X"
  shows "queue_inv X (upd_proc i f s) q c"
proof -
  have "live (procs (upd_proc i f s) ! j) \<longrightarrow> j \<in> set q \<or> j = c \<or> j \<in> X" if "j < NPROC" for j
    using that assms by (cases "j = i") (auto simp: procs_upd_proc queue_inv_def pool_inv_def)
  with assms show ?thesis
    by (simp add: queue_inv_def queued_upd_proc procs_upd_proc)
qed

lemma yield_at:
  assumes "current s = Some c" and "kernel_inv s"
  shows "wp (kthen (insert_to_ready_queue c) schedule) (\<lambda>_. kernel_inv) (exit_keeps kernel_inv) s"
  unfolding wp_kthen
  by (rule wp_weaken [OF insert_yields [OF assms(2,1)]]) (auto intro: schedule_kernel_inv)

lemma keeps_yield: "keeps kernel_inv sys_user_yield"
proof (rule preservesI)
  fix s assume s: "kernel_inv s"
  then obtain c where c: "current s = Some c" by (auto simp: kernel_inv_but_def queue_inv_def)
  with yield_at [OF c s] show "wp sys_user_yield (\<lambda>_. kernel_inv) (exit_keeps kernel_inv) s"
    by (simp add: sys_user_yield_def cur_index_def wp_eqs)
qed

lemma keeps_rrsched: "keeps kernel_inv rrsched"
proof (rule preservesI)
  fix s assume s: "kernel_inv s"
  then obtain c where c: "current s = Some c" by (auto simp: kernel_inv_but_def queue_inv_def)
  let ?f = "\<lambda>p. p\<lparr>tick_count := tick_count p + 1, total_tick_count := total_tick_count p + 1\<rparr>"
  let ?g = "\<lambda>p :: process. p\<lparr>tick_count := 0\<rparr>"
  have k: "kernel_inv (upd_proc c ?f s)" "kernel_inv (upd_proc c ?g (upd_proc c ?f s))"
    using s by (auto intro!: ki.upd_space simp: sched_part_def)
  have "current (upd_proc c ?f s) = Some c" and cu: "current (upd_proc c ?g (upd_proc c ?f s)) = Some c"
    using c by (simp_all add: upd_proc_def)
  from k(1) yield_at [OF cu k(2), where 'a = unit] show "wp rrsched (\<lambda>_. kernel_inv) (exit_keeps kernel_inv) s"
    using c by (simp add: rrsched_def cur_index_def set_proc_def the_proc_def wp_eqs)
qed

lemma keeps_exit: "keeps kernel_inv (sys_user_exit code)"
proof (rule preservesI)
  fix s assume "kernel_inv s"
  then obtain q c where s: "pool_inv s" "queue_inv {} s q c" by (auto simp: kernel_inv_but_def)
  let ?t = "upd_proc c (\<lambda>p. p\<lparr>status := ZOMBIE\<rparr>) s"
  have "pool_inv ?t"
    using s by (intro pool_inv_upd_proc) (auto simp: pool_inv_def proc_ok_def)
  moreover have "live (procs ?t ! i) \<longrightarrow> i \<in> set q" if "i < NPROC" for i
    using s that by (cases "i = c") (auto simp: procs_upd_proc queue_inv_def pool_inv_def live_def)
  moreover have "queued ?t q"
    using s by (intro queued_upd_proc) (auto simp: queue_inv_def)
  ultimately have "covered ?t" unfolding covered_def pool_inv_def by blast
  with \<open>pool_inv ?t\<close> have "wp schedule (\<lambda>_. kernel_inv) (exit_keeps kernel_inv) ?t"
    by (rule schedule_kernel_inv)
  with s show "wp (sys_user_exit code) (\<lambda>_. kernel_inv) (exit_keeps kernel_inv) s"
    by (simp add: sys_user_exit_def cur_index_def free_process_def set_proc_def wp_eqs queue_inv_def)
qed

text \<open>Fork: the child is outside the queue until it is entered.\<close>

lemma alloc_process_wp:
  assumes "\<And>i. i < NPROC \<Longrightarrow> status (procs s ! i) = FREE \<Longrightarrow>
      frame_inv (I i) \<and> I i s \<and> (\<forall>t. I i t \<longrightarrow> Q i t)"
  shows "wp alloc_process Q (exit_keeps J) s"
proof (cases "find (\<lambda>i. status (procs s ! i) = FREE) [0..<NPROC]")
  case None
  then show ?thesis by (simp add: alloc_process_def wp_eqs)
next
  case (Some i)
  then have i: "i < NPROC" "status (procs s ! i) = FREE" by (auto simp: find_Some_iff)
  then have "frame_inv (I i)" and s: "I i s" and Q: "\<And>t. I i t \<Longrightarrow> Q i t" using assms by auto
  note fr = this(1) [THEN frame_inv.stays_regions(2)] this(1) [THEN frame_inv.stays_file_table(2)]
    this(1) [THEN frame_inv.stays_set_proc]
  have "stays (I i) (kthen (alloc_space i) (kbind files_create (\<lambda>pfs. set_proc i (\<lambda>p. p\<lparr>pfiles := pfs\<rparr>))))"
    by (intro keeps_intros fr) (simp add: sched_part_def)
  then have "wp (kthen (alloc_space i) (kbind files_create (\<lambda>pfs. set_proc i (\<lambda>p. p\<lparr>pfiles := pfs\<rparr>))))
      (\<lambda>_. I i) (exit_keeps J) s"
    using s by (rule stays_wp)
  with Some Q show ?thesis by (auto simp: alloc_process_def wp_eqs elim!: wp_weaken)
qed

lemma alloc_process_inv:
  assumes "kernel_inv s"
  shows "wp alloc_process (\<lambda>i. kernel_inv_but {i}) (exit_keeps J) s"
proof (rule alloc_process_wp [where I = "\<lambda>i. kernel_inv_but {i}"], intro conjI)
  fix i assume i: "i < NPROC" "status (procs s ! i) = FREE"
  from assms obtain q c where s: "pool_inv s" "queue_inv {} s q c" by (auto simp: kernel_inv_but_def)
  moreover from this i have "queue_inv {i} s q c" by (auto simp: queue_inv_def queued_def)
  ultimately show "kernel_inv_but {i} s" by (auto simp: kernel_inv_but_def)
qed (rule ki.frame_inv_axioms, simp)

text \<open>A process about to be entered: ready, and outside the queue.\<close>

definition entering :: "nat \<Rightarrow> kstate \<Rightarrow> bool" where
  "entering i s \<longleftrightarrow> kernel_inv_but {i} s \<and> status (procs s ! i) = READY"

lemma entering_view: "sched_view s = sched_view t \<Longrightarrow> entering i t \<Longrightarrow> entering i s"
  using sched_view_nth [of s t] kernel_inv_view [of s t "{i}"]
  by (auto simp: entering_def kernel_inv_but_def pool_inv_def queue_inv_def)

interpretation en: frame_inv "entering i" for i
  by unfold_locales (erule entering_view [rotated]; simp add: view_updates)+

lemma entering_upd_proc:
  assumes "kernel_inv_but {i} s" and "proc_ok i (f (procs s ! i))" and "status (f (procs s ! i)) = READY"
  shows "entering i (upd_proc i f s)"
proof -
  from assms(1) obtain q c where s: "pool_inv s" "queue_inv {i} s q c" by (auto simp: kernel_inv_but_def)
  then have i: "i < NPROC" "i \<notin> set q" "i \<noteq> c" by (auto simp: queue_inv_def)
  with s have "queue_inv {i} (upd_proc i f s) q c" by (intro queue_inv_upd_proc) auto
  moreover have "pool_inv (upd_proc i f s)" using s assms(2) by (intro pool_inv_upd_proc)
  ultimately show ?thesis
    using assms(3) s(1) i(1) by (auto simp: entering_def kernel_inv_but_def procs_upd_proc pool_inv_def)
qed

lemma entering_proc_ok: "kernel_inv_but {i} s \<Longrightarrow> proc_ok i (procs s ! i)"
  by (auto simp: kernel_inv_but_def pool_inv_def queue_inv_def)

lemma fork_enters:
  assumes "entering i s" and "par < NPROC"
  shows "wp (kthen (set_proc i (\<lambda>c. c\<lparr>parent := Some par, tick_count := 0, total_tick_count := 0,
           total_mem_count := total_mapped_region c\<rparr>))
        (kthen (insert_to_ready_queue i) (kbind (the_proc i) (\<lambda>c. kret (ucast (pid c))))))
      (\<lambda>_. kernel_inv) (exit_keeps J) s"
proof -
  let ?f = "\<lambda>c :: process. c\<lparr>parent := Some par, tick_count := 0, total_tick_count := 0,
           total_mem_count := total_mapped_region c\<rparr>"
  have "entering i (upd_proc i ?f s)"
    using assms entering_proc_ok [of i s]
    by (intro entering_upd_proc) (auto simp: entering_def proc_ok_def)
  then have "wp (insert_to_ready_queue i) (\<lambda>_. kernel_inv) (exit_keeps J) (upd_proc i ?f s)"
    by (auto simp: entering_def intro: insert_enters)
  then show ?thesis
    by (simp add: wp_eqs set_proc_def the_proc_def) (erule wp_weaken; simp add: wp_eqs)
qed

lemma do_fork_inv:
  assumes "kernel_inv s" and "par < NPROC"
  shows "wp (do_fork par) (\<lambda>_. kernel_inv) (exit_keeps J) s"
proof -
  have "wp (kbind (the_proc par) (\<lambda>p.
       kthen (kfor [0..<nat (sint (total_mapped_region p))] (\<lambda>j. fork_region par i (of_nat j)))
      (kthen (set_proc i (\<lambda>c. c\<lparr>status := READY\<rparr>))
      (kbind (the_proc i) (\<lambda>c. kthen (store64 (trapframe c + TF_A0) 0) m)))))
      (\<lambda>_. kernel_inv) (exit_keeps J) t"
    if "kernel_inv_but {i} t" and m: "\<And>u. entering i u \<Longrightarrow> wp m (\<lambda>_. kernel_inv) (exit_keeps J) u"
    for i t and m :: "i32 K"
  proof -
    have "wp (kbind (the_proc par) (\<lambda>p. kfor [0..<nat (sint (total_mapped_region p))] (\<lambda>j. fork_region par i (of_nat j))))
        (\<lambda>_. kernel_inv_but {i}) (exit_keeps J) t"
      using that(1) by (intro stays_wp keeps_intros frames)
    moreover have "wp (kthen (set_proc i (\<lambda>c. c\<lparr>status := READY\<rparr>))
        (kbind (the_proc i) (\<lambda>c. kthen (store64 (trapframe c + TF_A0) 0) m)))
        (\<lambda>_. kernel_inv) (exit_keeps J) u" if "kernel_inv_but {i} u" for u
    proof -
      have "entering i (upd_proc i (\<lambda>c. c\<lparr>status := READY\<rparr>) u)"
        using that entering_proc_ok [OF that] by (intro entering_upd_proc) (auto simp: proc_ok_def)
      then have "wp (kbind (the_proc i) (\<lambda>c. store64 (trapframe c + TF_A0) 0)) (\<lambda>_. entering i) (exit_keeps J)
          (upd_proc i (\<lambda>c. c\<lparr>status := READY\<rparr>) u)"
        by (intro stays_wp keeps_intros frames)
      with m show ?thesis
        by (auto simp: wp_kbind wp_kthen set_proc_def wp_kmod elim!: wp_weaken)
    qed
    ultimately show ?thesis
      by (auto simp: wp_kbind wp_kthen elim!: wp_weaken)
  qed
  note step = this
  show ?thesis
    unfolding do_fork_def fork_into_def wp_kbind [of alloc_process]
    by (rule wp_weaken [OF alloc_process_inv [OF assms(1)]]) (assumption | rule step fork_enters assms(2))+
qed

text \<open>Wait: a zombie is outside the queue, so its slot can be freed.\<close>

definition dead :: "nat \<Rightarrow> kstate \<Rightarrow> bool" where
  "dead i s \<longleftrightarrow> kernel_inv s \<and> i < NPROC \<and> status (procs s ! i) = ZOMBIE"

lemma dead_view: "sched_view s = sched_view t \<Longrightarrow> dead i t \<Longrightarrow> dead i s"
  using sched_view_nth [of s t] kernel_inv_view [of s t "{}"] unfolding dead_def
  by (simp add: kernel_inv_length)

interpretation de: frame_inv "dead i" for i
  by unfold_locales (erule dead_view [rotated]; simp add: view_updates)+

lemma dead_freed:
  assumes "dead i s"
  shows "kernel_inv (upd_proc i (\<lambda>p. p\<lparr>status := FREE, parent := None, queue_next := None,
       tick_count := 0, total_mem_count := 0, total_tick_count := 0\<rparr>) s)" (is "kernel_inv (upd_proc i ?f s)")
proof -
  from assms obtain q c where s: "pool_inv s" "queue_inv {} s q c" and i: "i < NPROC" "status (procs s ! i) = ZOMBIE"
    unfolding dead_def kernel_inv_but_def by blast
  then have "i \<notin> set q" "i \<noteq> c" by (auto simp: queue_inv_def queued_def)
  then have "queue_inv {} (upd_proc i ?f s) q c"
    by (rule queue_inv_upd_proc [OF s]) (simp add: live_def)
  moreover have "pool_inv (upd_proc i ?f s)"
    using s(1) by (rule pool_inv_upd_proc) (use s(1) in \<open>simp add: pool_inv_def proc_ok_def\<close>)
  ultimately show ?thesis unfolding kernel_inv_but_def by blast
qed

lemma reclaim_inv:
  assumes "dead i s"
  shows "wp (reclaim i) (\<lambda>_. kernel_inv) (exit_keeps J) s"
proof -
  have "wp (kbind (the_proc i) (\<lambda>p. kthen (free_page (kstack p - PGSIZE)) (kthen (unmap_regions i)
      (kthen (free_page (mapped_info p)) (free_page (pagetable p)))))) (\<lambda>_. dead i) (exit_keeps J) s"
    using assms by (intro stays_wp keeps_intros frames)
  then show ?thesis
    by (auto simp: reclaim_def wp_eqs set_proc_def dead_freed elim!: wp_weaken)
qed

lemma do_wait_inv:
  assumes "kernel_inv s"
  shows "wp (do_wait n) (\<lambda>_. kernel_inv) (exit_keeps J) s"
proof (cases "find (\<lambda>i. wanted n (current s) (procs s ! i) \<and> status (procs s ! i) = ZOMBIE) [0..<NPROC]")
  case None
  with assms show ?thesis by (simp add: do_wait_def wp_eqs)
next
  case (Some i)
  then have "i < NPROC" "status (procs s ! i) = ZOMBIE" by (auto simp: find_Some_iff)
  with assms have "dead i s" by (simp add: dead_def)
  then have "wp (reclaim i) (\<lambda>_. kernel_inv) (exit_keeps J) s" by (rule reclaim_inv)
  with Some show ?thesis by (auto simp: do_wait_def wp_eqs elim!: wp_weaken)
qed

section \<open>Traps\<close>

lemma current_inv: "kernel_inv s \<Longrightarrow> \<exists>c < NPROC. current s = Some c"
  by (auto simp: kernel_inv_but_def queue_inv_def)

lemma keeps_fork_wait: "keeps kernel_inv sys_user_fork" "keeps kernel_inv (sys_user_wait n)"
proof -
  show "keeps kernel_inv sys_user_fork"
  proof (rule preservesI)
    fix s assume s: "kernel_inv s"
    with current_inv obtain c where "c < NPROC" "current s = Some c" by blast
    with do_fork_inv [OF s, of c, where J = kernel_inv] show "wp sys_user_fork (\<lambda>_. kernel_inv) (exit_keeps kernel_inv) s"
      by (auto simp: sys_user_fork_def cur_index_def wp_eqs elim!: wp_weaken)
  qed
  have "keeps kernel_inv (do_wait n)" by (intro preservesI do_wait_inv)
  then show "keeps kernel_inv (sys_user_wait n)"
    unfolding sys_user_wait_def by (intro keeps_intros)
qed

lemma keeps_do_syscall: "keeps kernel_inv (do_syscall a0 a1 a2 a3)"
  unfolding do_syscall_def
  by (intro keeps_intros keeps_exit keeps_yield keeps_fork_wait frames [THEN stays_keeps]) simp_all

lemma keeps_handle_syscall: "keeps kernel_inv (handle_syscall tf)"
  unfolding handle_syscall_def
  by (intro keeps_intros keeps_do_syscall frames [THEN stays_keeps])

lemma keeps_switch_current: "keeps kernel_inv (kbind (kget current) switch_to)"
proof (rule preservesI)
  fix s assume s: "kernel_inv s"
  with current_inv obtain c where c: "current s = Some c" by blast
  with s have "kernel_inv (s\<lparr>current := Some c\<rparr>)"
    by (intro kernel_inv_view [OF _ s]) (simp add: sched_view_def)
  from switch_to_kernel_inv [OF this] c
  show "wp (kbind (kget current) switch_to) (\<lambda>_. kernel_inv) (exit_keeps kernel_inv) s"
    by (simp add: wp_eqs)
qed

lemma keeps_trap_handler: "keeps kernel_inv smode_trap_handler"
  unfolding smode_trap_handler_def assert_current_def
  by (intro keeps_intros keeps_handle_syscall keeps_rrsched keeps_switch_current frames [THEN stays_keeps]) simp_all

lemma keeps_trap_vector: "keeps kernel_inv (smode_trap_vector rs)"
  unfolding smode_trap_vector_def
  by (intro keeps_intros keeps_trap_handler frames [THEN stays_keeps] ki.upd_csr) simp_all

end
