(* ===== verification/PKE_Dts.thy ===== *)
theory PKE_Dts
  imports PKE_Spike
begin

text \<open>
  The flattened device tree: the scanner of \<^verbatim>\<open>spike_interface/dts_parse.c\<close> and its two users,
  \<^verbatim>\<open>query_mem\<close> of \<^verbatim>\<open>spike_interface/spike_memory.c\<close> and \<^verbatim>\<open>query_htif\<close> of
  \<^verbatim>\<open>spike_interface/spike_htif.c\<close>.

  The blob lies outside the kernel's memory; it is a function from byte addresses, with
  \<open>None\<close> where nothing is readable. The scanner is polymorphic in the state its callbacks
  work on (the \<^verbatim>\<open>extra\<close> pointer). Lengths in the blob are signed and may lead the scanner
  backwards, so a scan of a bad blob need not end: the scanner has fuel, and \<open>Spins\<close> when it
  runs out. \<^verbatim>\<open>cb->close\<close> is a null pointer in both uses and is left out, and with it the
  deletion of nodes. The proofs compare the scanner with a traversal of a tree, and show that on
  the encoding of a tree a fuel of the size of the blob is enough.
\<close>

section \<open>Reading the blob\<close>

type_synonym fdt_mem = "u64 \<Rightarrow> u8 option"

definition fdt_byte :: "fdt_mem \<Rightarrow> u64 \<Rightarrow> ('x, u8) km" where
  "fdt_byte db a = (case db a of None \<Rightarrow> kexits (Wild a) | Some b \<Rightarrow> kret b)"

text \<open>A load of four bytes; the machine is little-endian.\<close>

definition le32 :: "u8 \<Rightarrow> u8 \<Rightarrow> u8 \<Rightarrow> u8 \<Rightarrow> u32" where
  "le32 b0 b1 b2 b3 = ucast b0 OR push_bit 8 (ucast b1) OR push_bit 16 (ucast b2) OR push_bit 24 (ucast b3)"

definition fdt_word :: "fdt_mem \<Rightarrow> u64 \<Rightarrow> ('x, u32) km" where
  "fdt_word db a =
     (if \<not> aligned 4 a then kexits (Misaligned a)
      else kbind (fdt_byte db a) (\<lambda>b0. kbind (fdt_byte db (a + 1)) (\<lambda>b1.
           kbind (fdt_byte db (a + 2)) (\<lambda>b2. kbind (fdt_byte db (a + 3)) (\<lambda>b3.
             kret (le32 b0 b1 b2 b3))))))"

definition bswap :: "u32 \<Rightarrow> u32" where
  "bswap x =
     (let y = push_bit 8 (x AND 0x00FF00FF) OR drop_bit 8 (x AND 0xFF00FF00);
          z = push_bit 16 (y AND 0x0000FFFF) OR drop_bit 16 (y AND 0xFFFF0000)
      in z)"

text \<open>\<^verbatim>\<open>!strcmp(a, "...")\<close> on a string literal, and \<^verbatim>\<open>strlen\<close>.\<close>

fun fdt_streq :: "fdt_mem \<Rightarrow> u64 \<Rightarrow> string \<Rightarrow> ('x, bool) km" where
  "fdt_streq db a [] = kbind (fdt_byte db a) (\<lambda>b. kret (b = 0))"
| "fdt_streq db a (c # cs) = kbind (fdt_byte db a) (\<lambda>b.
     if b = of_char c then fdt_streq db (a + 1) cs else kret False)"

fun fdt_strlen :: "nat \<Rightarrow> fdt_mem \<Rightarrow> u64 \<Rightarrow> ('x, u64) km" where
  "fdt_strlen 0 db a = kexits Spins"
| "fdt_strlen (Suc n) db a = kbind (fdt_byte db a) (\<lambda>b.
     if b = 0 then kret 0 else kbind (fdt_strlen n db (a + 1)) (\<lambda>k. kret (k + 1)))"

section \<open>The scanner\<close>

text \<open>C's signed division by 4, which rounds towards zero.\<close>

definition quot4 :: "i32 \<Rightarrow> i32" where
  "quot4 x = word_of_int (sgn (sint x) * (\<bar>sint x\<bar> div 4))"

datatype fdt_scan_node =
  Fdt_node (fn_parent: "fdt_scan_node option") (fn_name: u64) (address_cells: i32) (size_cells: i32)

record fdt_scan_prop =
  prop_node :: "fdt_scan_node option"
  prop_name :: u64
  prop_value :: u64
  prop_len :: i32

record 'x fdt_cb =
  cb_open :: "(fdt_scan_node \<Rightarrow> ('x, unit) km) option"
  cb_prop :: "fdt_scan_prop \<Rightarrow> ('x, unit) km"
  cb_done :: "(fdt_scan_node \<Rightarrow> ('x, unit) km) option"

definition FDT_BEGIN_NODE :: u32 where [simp]: "FDT_BEGIN_NODE = 1"
definition FDT_END_NODE :: u32 where [simp]: "FDT_END_NODE = 2"
definition FDT_PROP :: u32 where [simp]: "FDT_PROP = 3"
definition FDT_NOP :: u32 where [simp]: "FDT_NOP = 4"
definition FDT_END :: u32 where [simp]: "FDT_END = 9"
definition FDT_MAGIC :: u32 where [simp]: "FDT_MAGIC = 0xd00dfeed"
definition FDT_VERSION :: u32 where [simp]: "FDT_VERSION = 17"

definition set_cells :: "fdt_mem \<Rightarrow> u64 \<Rightarrow> u64 \<Rightarrow> fdt_scan_node option \<Rightarrow> ('x, fdt_scan_node option) km" where
  "set_cells db name value node = (case node of
     None \<Rightarrow> kret None
   | Some (Fdt_node par nm ac sc) \<Rightarrow>
       kbind (fdt_streq db name ''#address-cells'') (\<lambda>is_ac.
       kbind (if is_ac then kbind (fdt_word db value) (\<lambda>w. kret (bswap w)) else kret ac) (\<lambda>ac'.
       kbind (fdt_streq db name ''#size-cells'') (\<lambda>is_sc.
       kbind (if is_sc then kbind (fdt_word db value) (\<lambda>w. kret (bswap w)) else kret sc) (\<lambda>sc'.
         kret (Some (Fdt_node par nm ac' sc')))))))"

definition call_done :: "'x fdt_cb \<Rightarrow> bool \<Rightarrow> fdt_scan_node option \<Rightarrow> ('x, unit) km" where
  "call_done cb lst node = (case (cb_done cb, node) of
     (Some f, Some nd) \<Rightarrow> if \<not> lst then f nd else kret ()
   | _ \<Rightarrow> kret ())"

definition call_open :: "'x fdt_cb \<Rightarrow> fdt_scan_node \<Rightarrow> ('x, unit) km" where
  "call_open cb nd = (case cb_open cb of Some f \<Rightarrow> f nd | None \<Rightarrow> kret ())"

text \<open>
  \<open>ac\<close> and \<open>sc\<close> are the cell counts of the local structure \<^verbatim>\<open>child\<close>. They are set to the
  defaults once, before the loop, and a child that changes them leaves them changed for the
  children after it. The result is the position reached and the node with the cell counts
  its properties gave it.
\<close>

fun fdt_scan_helper :: "nat \<Rightarrow> fdt_mem \<Rightarrow> u64 \<Rightarrow> 'x fdt_cb \<Rightarrow> u64 \<Rightarrow> fdt_scan_node option \<Rightarrow> i32 \<Rightarrow> i32 \<Rightarrow> bool \<Rightarrow>
    ('x, u64 \<times> fdt_scan_node option) km" where
  "fdt_scan_helper 0 db strings cb lx node ac sc lst = kexits Spins"
| "fdt_scan_helper (Suc n) db strings cb lx node ac sc lst =
     kbind (fdt_word db lx) (\<lambda>w.
       if bswap w = FDT_NOP then fdt_scan_helper n db strings cb (lx + 4) node ac sc lst
       else if bswap w = FDT_PROP then
         kthen (kguard (\<not> lst) (Assert_fail ''!last''))
        (kbind (fdt_word db (lx + 8)) (\<lambda>w2. kbind (fdt_word db (lx + 4)) (\<lambda>w1.
         kbind (set_cells db (strings + ucast (bswap w2)) (lx + 12) node) (\<lambda>node'.
         kthen (cb_prop cb \<lparr>prop_node = node', prop_name = strings + ucast (bswap w2),
             prop_value = lx + 12, prop_len = bswap w1\<rparr>)
           (fdt_scan_helper n db strings cb (lx + 4 * scast (3 + quot4 (bswap w1 + 3))) node' ac sc lst)))))
       else if bswap w = FDT_BEGIN_NODE then
         kthen (call_done cb lst node)
        (kthen (call_open cb (Fdt_node node (lx + 4) ac sc))
        (kbind (fdt_strlen n db (lx + 4)) (\<lambda>len.
         kbind (fdt_scan_helper n db strings cb (lx + 4 * (2 + len div 4)) (Some (Fdt_node node (lx + 4) ac sc))
             2 1 False) (\<lambda>(lx', child_node).
           fdt_scan_helper n db strings cb lx' node
             (address_cells (the child_node)) (size_cells (the child_node)) True))))
       else
         kthen (call_done cb lst node)
           (kret (if bswap w = FDT_END_NODE then lx + 4 else lx, node)))"

text \<open>Cells of an address or a size, most significant first; the position after them and the value.\<close>

fun get_cells :: "nat \<Rightarrow> fdt_mem \<Rightarrow> u64 \<Rightarrow> u64 \<Rightarrow> ('x, u64 \<times> u64) km" where
  "get_cells 0 db value acc = kret (value, acc)"
| "get_cells (Suc n) db value acc =
     kbind (fdt_word db value) (\<lambda>w. get_cells n db (value + 4) (push_bit 32 acc + ucast (bswap w)))"

definition fdt_get_address :: "fdt_mem \<Rightarrow> fdt_scan_node option \<Rightarrow> u64 \<Rightarrow> ('x, u64 \<times> u64) km" where
  "fdt_get_address db node value = (case node of
     None \<Rightarrow> kexits (Wild 16)
   | Some nd \<Rightarrow> get_cells (nat (sint (address_cells nd))) db value 0)"

definition fdt_get_size :: "fdt_mem \<Rightarrow> fdt_scan_node option \<Rightarrow> u64 \<Rightarrow> ('x, u64 \<times> u64) km" where
  "fdt_get_size db node value = (case node of
     None \<Rightarrow> kexits (Wild 20)
   | Some nd \<Rightarrow> get_cells (nat (sint (size_cells nd))) db value 0)"

definition fdt_scan :: "nat \<Rightarrow> fdt_mem \<Rightarrow> u64 \<Rightarrow> 'x fdt_cb \<Rightarrow> ('x, unit) km" where
  "fdt_scan n db fdt cb =
     kbind (fdt_word db fdt) (\<lambda>magic.
       if bswap magic \<noteq> FDT_MAGIC then kret ()
       else kbind (fdt_word db (fdt + 24)) (\<lambda>comp_ver.
         if FDT_VERSION < bswap comp_ver then kret ()
         else
           kbind (fdt_word db (fdt + 12)) (\<lambda>off_strings. kbind (fdt_word db (fdt + 8)) (\<lambda>off_struct.
           kbind (fdt_scan_helper n db (fdt + ucast (bswap off_strings)) cb
             (fdt + ucast (bswap off_struct)) None 2 1 False) (\<lambda>_. kret ())))))"

section \<open>Memory and host interface\<close>

text \<open>The scan state of \<^verbatim>\<open>query_mem\<close> with the global variable it sets.\<close>

record mem_scan =
  memory :: bool
  reg_value :: u64
  reg_len :: i32
  mem_size :: u64

definition mem_open :: "fdt_scan_node \<Rightarrow> (mem_scan, unit) km" where
  "mem_open node = kmod (\<lambda>x. x\<lparr>memory := False, reg_value := 0, reg_len := 0\<rparr>)"

definition mem_prop :: "fdt_mem \<Rightarrow> fdt_scan_prop \<Rightarrow> (mem_scan, unit) km" where
  "mem_prop db p =
     kbind (fdt_streq db (prop_name p) ''device_type'') (\<lambda>is_type.
     kbind (if is_type then fdt_streq db (prop_value p) ''memory'' else kret False) (\<lambda>is_mem.
       if is_mem then kmod (\<lambda>x. x\<lparr>memory := True\<rparr>)
       else kbind (fdt_streq db (prop_name p) ''reg'') (\<lambda>is_reg.
         if is_reg then kmod (\<lambda>x. x\<lparr>reg_value := prop_value p, reg_len := prop_len p\<rparr>)
         else kret ())))"

text \<open>The loop of \<^verbatim>\<open>mem_done\<close>; \<open>self\<close> is the address of the function itself.\<close>

fun mem_regs :: "nat \<Rightarrow> fdt_mem \<Rightarrow> u64 \<Rightarrow> fdt_scan_node option \<Rightarrow> u64 \<Rightarrow> u64 \<Rightarrow> (mem_scan, u64) km" where
  "mem_regs 0 db self par value end = kexits Spins"
| "mem_regs (Suc n) db self par value end =
     (if 0 <s end - value then
        kbind (fdt_get_address db par value) (\<lambda>(value1, base).
        kbind (fdt_get_size db par value1) (\<lambda>(value2, sz).
        kthen (if base \<le> self \<and> self \<le> base + sz then kmod (\<lambda>x. x\<lparr>mem_size := sz\<rparr>) else kret ())
          (mem_regs n db self par value2 end)))
      else kret value)"

definition mem_done :: "nat \<Rightarrow> fdt_mem \<Rightarrow> u64 \<Rightarrow> fdt_scan_node \<Rightarrow> (mem_scan, unit) km" where
  "mem_done n db self node =
     kbind (kget (\<lambda>x. x)) (\<lambda>x.
       if \<not> memory x then kret ()
       else
         kthen (kguard (reg_value x \<noteq> 0 \<and> sint (reg_len x) mod 4 = 0) (Assert_fail ''scan->reg_value''))
        (let end = reg_value x + 4 * scast (quot4 (reg_len x)) in
         kbind (mem_regs n db self (fn_parent node) (reg_value x) end) (\<lambda>value.
           kguard (end = value) (Assert_fail ''end == value''))))"

definition query_mem :: "nat \<Rightarrow> fdt_mem \<Rightarrow> u64 \<Rightarrow> u64 \<Rightarrow> (mem_scan, unit) km" where
  "query_mem n db self fdt =
     kthen (kmod (\<lambda>x. x\<lparr>mem_size := 0\<rparr>))
    (kthen (fdt_scan n db fdt \<lparr>cb_open = Some mem_open, cb_prop = mem_prop db, cb_done = Some (mem_done n db self)\<rparr>)
    (kbind (kget mem_size) (\<lambda>m. kguard (0 < m) (Assert_fail ''g_mem_size > 0''))))"

record htif_scan =
  compat :: bool
  htif_found :: bool

definition htif_open :: "fdt_scan_node \<Rightarrow> (htif_scan, unit) km" where
  "htif_open node = kmod (\<lambda>x. x\<lparr>compat := False\<rparr>)"

definition htif_prop :: "fdt_mem \<Rightarrow> fdt_scan_prop \<Rightarrow> (htif_scan, unit) km" where
  "htif_prop db p =
     kbind (fdt_streq db (prop_name p) ''compatible'') (\<lambda>is_compat.
     kbind (if is_compat then fdt_streq db (prop_value p) ''ucb,htif0'' else kret False) (\<lambda>is_htif.
       if is_htif then kmod (\<lambda>x. x\<lparr>compat := True\<rparr>) else kret ()))"

definition htif_done :: "fdt_scan_node \<Rightarrow> (htif_scan, unit) km" where
  "htif_done node = kbind (kget compat) (\<lambda>c. if \<not> c then kret () else kmod (\<lambda>x. x\<lparr>htif_found := True\<rparr>))"

definition query_htif :: "nat \<Rightarrow> fdt_mem \<Rightarrow> u64 \<Rightarrow> (htif_scan, unit) km" where
  "query_htif n db fdt =
     fdt_scan n db fdt \<lparr>cb_open = Some htif_open, cb_prop = htif_prop db, cb_done = Some htif_done\<rparr>"

section \<open>Trees and their encoding\<close>

text \<open>
  A tree of the device tree specification: a name, properties (offset of the name in the
  strings block, value) and children. \<open>enc_tree\<close> is its form in the structure block.
\<close>

datatype fdt_tree = FT (ft_name: "u8 list") (ft_props: "(u32 \<times> u8 list) list") (ft_kids: "fdt_tree list")

definition be32 :: "u32 \<Rightarrow> u8 list" where
  "be32 w = [ucast (drop_bit 24 w), ucast (drop_bit 16 w), ucast (drop_bit 8 w), ucast w]"

definition pad_to :: "nat \<Rightarrow> u8 list \<Rightarrow> u8 list" where
  "pad_to n bs = bs @ replicate (n - length bs) 0"

definition enc_name :: "u8 list \<Rightarrow> u8 list" where
  "enc_name nm = pad_to (4 * (length nm div 4 + 1)) nm"

fun enc_prop :: "u32 \<times> u8 list \<Rightarrow> u8 list" where
  "enc_prop (off, v) = be32 FDT_PROP @ be32 (of_nat (length v)) @ be32 off @ pad_to (4 * ((length v + 3) div 4)) v"

fun enc_tree :: "fdt_tree \<Rightarrow> u8 list" where
  "enc_tree (FT nm ps ks) = be32 FDT_BEGIN_NODE @ enc_name nm @ concat (map enc_prop ps) @
     concat (map enc_tree ks) @ be32 FDT_END_NODE"

fun tree_ok :: "fdt_tree \<Rightarrow> bool" where
  "tree_ok (FT nm ps ks) \<longleftrightarrow> 0 \<notin> set nm \<and> length nm < 2 ^ 31 \<and> (\<forall>p \<in> set ps. length (snd p) < 2 ^ 31 - 16) \<and>
     (\<forall>k \<in> set ks. tree_ok k)"

lemma length_be32 [simp]: "length (be32 w) = 4"
  by (simp add: be32_def)

lemma length_pad_to [simp]: "length bs \<le> n \<Longrightarrow> length (pad_to n bs) = n"
  by (simp add: pad_to_def)

lemma length_enc_name [simp]: "length (enc_name nm) = 4 * (length nm div 4 + 1)"
  unfolding enc_name_def by (rule length_pad_to) presburger

lemma length_enc_prop [simp]: "length (enc_prop (off, v)) = 4 * (3 + (length v + 3) div 4)"
  by simp

lemma bswap_masks: "(0x00FF00FF :: u32) = mask 8 OR push_bit 16 (mask 8)" "(0xFF00FF00 :: u32) = push_bit 8 (mask 8) OR push_bit 24 (mask 8)"
  "(0xFFFF :: u32) = mask 16" "(0xFFFF0000 :: u32) = push_bit 16 (mask 16)"
  by (simp_all add: mask_eq_exp_minus_1)

lemma bit_bswap: "bit (bswap w) n \<longleftrightarrow> n < 32 \<and> bit w (24 + n mod 8 - n div 8 * 8)"
proof (cases "n < 32")
  case True
  then consider "n < 8" | "8 \<le> n \<and> n < 16" | "16 \<le> n \<and> n < 24" | "24 \<le> n \<and> n < 32" by linarith
  then show ?thesis
  proof cases
    case 1
    then show ?thesis by (simp add: bswap_def bswap_masks bit_simps Let_def)
  next
    case 2
    then have "n div 8 = 1" "n mod 8 = n - 8" by (auto simp: div_nat_eqI mod_if)
    with 2 show ?thesis by (auto simp add: bswap_def bswap_masks bit_simps Let_def)
  next
    case 3
    then have "n div 8 = 2" "n mod 8 = n - 16" by (auto simp: div_nat_eqI mod_if)
    with 3 show ?thesis by (auto simp add: bswap_def bswap_masks bit_simps Let_def)
  next
    case 4
    then have "n div 8 = 3" "n mod 8 = n - 24" by (auto simp: div_nat_eqI mod_if)
    with 4 show ?thesis by (auto simp add: bswap_def bswap_masks bit_simps Let_def)
  qed
next
  case False
  then show ?thesis by (simp add: impossible_bit)
qed

lemma bswap_bswap [simp]: "bswap (bswap w) = w"
proof (rule bit_word_eqI)
  fix n assume "n < LENGTH(32)"
  then have n: "n div 8 \<le> 3" "n = n mod 8 + n div 8 * 8" by simp_all
  then have "24 + n mod 8 - n div 8 * 8 = n mod 8 + (3 - n div 8) * 8" by linarith
  then have "(24 + n mod 8 - n div 8 * 8) mod 8 = n mod 8" "(24 + n mod 8 - n div 8 * 8) div 8 = 3 - n div 8" by simp_all
  moreover from n have "24 + n mod 8 - (3 - n div 8) * 8 = n" "24 + n mod 8 - n div 8 * 8 < 32" by linarith+
  ultimately show "bit (bswap (bswap w)) n = bit w n" using \<open>n < LENGTH(32)\<close> by (simp add: bit_bswap)
qed

lemma le32_be32: "le32 (ucast (drop_bit 24 w)) (ucast (drop_bit 16 w)) (ucast (drop_bit 8 w)) (ucast w) = bswap w"
proof (rule bit_word_eqI)
  fix n assume "n < LENGTH(32)"
  then consider "n < 8" | "8 \<le> n \<and> n < 16" | "16 \<le> n \<and> n < 24" | "24 \<le> n \<and> n < 32" by fastforce
  then show "bit (le32 (ucast (drop_bit 24 w)) (ucast (drop_bit 16 w)) (ucast (drop_bit 8 w)) (ucast w)) n = bit (bswap w) n"
  proof cases
    case 1
    then show ?thesis by (simp add: bit_bswap le32_def bit_simps)
  next
    case 2
    then have "n div 8 = 1" "n mod 8 = n - 8" by (auto simp: div_nat_eqI mod_if)
    with 2 show ?thesis by (auto simp add: bit_bswap le32_def bit_simps)
  next
    case 3
    then have "n div 8 = 2" "n mod 8 = n - 16" by (auto simp: div_nat_eqI mod_if)
    with 3 show ?thesis by (auto simp add: bit_bswap le32_def bit_simps)
  next
    case 4
    then have "n div 8 = 3" "n mod 8 = n - 24" by (auto simp: div_nat_eqI mod_if)
    with 4 show ?thesis by (auto simp add: bit_bswap le32_def bit_simps)
  qed
qed

lemma all_less_Suc_split: "(\<forall>i < Suc n. P i) \<longleftrightarrow> P 0 \<and> (\<forall>i < n. P (Suc i))"
  by (metis Suc_less_eq less_Suc_eq_0_disj)

text \<open>Bytes held at an address.\<close>

definition holds :: "fdt_mem \<Rightarrow> u64 \<Rightarrow> u8 list \<Rightarrow> bool" where
  "holds db a bs \<longleftrightarrow> (\<forall>i < length bs. db (a + of_nat i) = Some (bs ! i))"

lemma holds_append:
  "holds db a (xs @ ys) \<longleftrightarrow> holds db a xs \<and> holds db (a + of_nat (length xs)) ys"
proof (induction xs arbitrary: a)
  case (Cons x xs)
  have "holds db a (x # zs) \<longleftrightarrow> db a = Some x \<and> holds db (a + 1) zs" for zs
    unfolding holds_def by (simp add: all_less_Suc_split ac_simps)
  with Cons show ?case by (simp add: ac_simps)
qed (simp add: holds_def)

lemma aligned_4_add:
  assumes "aligned 4 a"
  shows "aligned 4 (a + 4 * w)"
proof -
  have "(unat a + 4 * unat w) mod 2 ^ 64 mod 4 = (unat a + 4 * unat w) mod 4"
    by (rule mod_mod_cancel) simp
  with assms show ?thesis
    by (simp add: aligned_def unat_word_ariths mod_add_right_eq)
qed

lemma fdt_word_held:
  assumes "holds db a (be32 w)" and "aligned 4 a"
  shows "fdt_word db a = kret (bswap w)"
proof -
  have "db (a + of_nat i) = Some (be32 w ! i)" if "i < 4" for i
    using assms(1) that by (simp add: holds_def)
  from this [of 0] this [of 1] this [of 2] this [of 3]
  have b: "db a = Some (ucast (drop_bit 24 w))" "db (a + 1) = Some (ucast (drop_bit 16 w))"
      "db (a + 2) = Some (ucast (drop_bit 8 w))" "db (a + 3) = Some (ucast w)"
    by (simp_all add: be32_def)
  show ?thesis
    using assms(2) by (simp add: fdt_word_def fdt_byte_def b kbind_def kret_def le32_be32)
qed

section \<open>The traversal of a tree\<close>

text \<open>
  What a scan of an encoded tree does, by recursion on the tree: a node is opened, its
  properties are passed on in order, it is done, and its children are visited in order, each
  with the cell counts the one before it left.
\<close>

fun visit_props :: "fdt_mem \<Rightarrow> u64 \<Rightarrow> 'x fdt_cb \<Rightarrow> u64 \<Rightarrow> fdt_scan_node option \<Rightarrow> (u32 \<times> u8 list) list \<Rightarrow>
    ('x, fdt_scan_node option) km" where
  "visit_props db strings cb lx node [] = kret node"
| "visit_props db strings cb lx node ((off, v) # ps) =
     kbind (set_cells db (strings + ucast off) (lx + 12) node) (\<lambda>node'.
     kthen (cb_prop cb \<lparr>prop_node = node', prop_name = strings + ucast off,
         prop_value = lx + 12, prop_len = of_nat (length v)\<rparr>)
       (visit_props db strings cb (lx + of_nat (length (enc_prop (off, v)))) node' ps))"

fun visit_tree :: "fdt_mem \<Rightarrow> u64 \<Rightarrow> 'x fdt_cb \<Rightarrow> u64 \<Rightarrow> fdt_scan_node option \<Rightarrow> i32 \<Rightarrow> i32 \<Rightarrow> fdt_tree \<Rightarrow>
    ('x, fdt_scan_node option) km"
and visit_kids :: "fdt_mem \<Rightarrow> u64 \<Rightarrow> 'x fdt_cb \<Rightarrow> u64 \<Rightarrow> fdt_scan_node option \<Rightarrow> i32 \<Rightarrow> i32 \<Rightarrow> fdt_tree list \<Rightarrow>
    ('x, unit) km" where
  "visit_tree db strings cb lx par ac sc (FT nm ps ks) =
     kthen (call_open cb (Fdt_node par (lx + 4) ac sc))
    (kbind (visit_props db strings cb (lx + 4 + of_nat (length (enc_name nm))) (Some (Fdt_node par (lx + 4) ac sc)) ps) (\<lambda>node.
     kthen (call_done cb False node)
    (kthen (visit_kids db strings cb
        (lx + 4 + of_nat (length (enc_name nm)) + of_nat (length (concat (map enc_prop ps)))) node 2 1 ks)
       (kret node))))"
| "visit_kids db strings cb lx node ac sc [] = kret ()"
| "visit_kids db strings cb lx node ac sc (k # ks) =
     kbind (visit_tree db strings cb lx node ac sc k) (\<lambda>nd.
       visit_kids db strings cb (lx + of_nat (length (enc_tree k))) node
         (address_cells (the nd)) (size_cells (the nd)) ks)"

text \<open>The rest of a node: properties, children and the token that ends it.\<close>

definition enc_rest :: "(u32 \<times> u8 list) list \<Rightarrow> fdt_tree list \<Rightarrow> u32 \<Rightarrow> u8 list" where
  "enc_rest ps ks e = concat (map enc_prop ps) @ concat (map enc_tree ks) @ be32 e"

definition visit_rest :: "fdt_mem \<Rightarrow> u64 \<Rightarrow> 'x fdt_cb \<Rightarrow> u64 \<Rightarrow> fdt_scan_node option \<Rightarrow> i32 \<Rightarrow> i32 \<Rightarrow> bool \<Rightarrow>
    (u32 \<times> u8 list) list \<Rightarrow> fdt_tree list \<Rightarrow> u32 \<Rightarrow> ('x, u64 \<times> fdt_scan_node option) km" where
  "visit_rest db strings cb lx node ac sc lst ps ks e =
     kbind (visit_props db strings cb lx node ps) (\<lambda>node'.
     kthen (call_done cb lst node')
    (kthen (visit_kids db strings cb (lx + of_nat (length (concat (map enc_prop ps)))) node' ac sc ks)
       (kret (lx + of_nat (length (concat (map enc_prop ps) @ concat (map enc_tree ks))) +
          (if e = FDT_END_NODE then 4 else 0), node'))))"

lemma strlen_held:
  "holds db a (nm @ 0 # r) \<Longrightarrow> 0 \<notin> set nm \<Longrightarrow> length nm < n \<Longrightarrow> fdt_strlen n db a = kret (of_nat (length nm))"
proof (induction nm arbitrary: a n)
  case Nil
  then show ?case by (cases n) (auto simp: holds_def fdt_byte_def kdefs fun_eq_iff)
next
  case (Cons x nm)
  have "db a = Some x" "holds db (a + 1) (nm @ 0 # r)"
    using Cons.prems(1) holds_append [of db a "[x]" "nm @ 0 # r"] by (auto simp: holds_def)
  moreover obtain m where "n = Suc m" "length nm < m" using Cons.prems(3) by (cases n) auto
  ultimately show ?case
    using Cons by (auto simp: fdt_byte_def kdefs fun_eq_iff)
qed

lemma quot4_nat:
  assumes "k < 2 ^ 31"
  shows "quot4 (of_nat k) = of_nat (k div 4)"
proof -
  have "sgn (int k) * (\<bar>int k\<bar> div 4) = int (k div 4)" by (simp add: sgn_if zdiv_int)
  with sint_small [OF assms] show ?thesis by (simp only: quot4_def of_int_of_nat_eq)
qed

lemma prop_step:
  assumes "k < 2 ^ 31 - 16"
  shows "4 * scast (3 + quot4 (of_nat k + 3) :: i32) = (of_nat (4 * (3 + (k + 3) div 4)) :: u64)"
proof -
  have "quot4 (of_nat k + 3) = (of_nat ((k + 3) div 4) :: i32)"
    using quot4_nat [of "k + 3"] assms by simp
  then have "3 + quot4 (of_nat k + 3) = (of_nat (3 + (k + 3) div 4) :: i32)" by simp
  moreover have "sint (of_nat (3 + (k + 3) div 4) :: i32) = int (3 + (k + 3) div 4)"
    using assms by (intro sint_small) linarith
  ultimately have "scast (3 + quot4 (of_nat k + 3) :: i32) = (of_nat (3 + (k + 3) div 4) :: u64)"
    by (metis of_int_of_nat_eq of_int_sint)
  then show ?thesis by simp
qed

lemma km_laws:
  "kbind (kret x) f = f x" "kbind (kbind m f) g = kbind m (\<lambda>x. kbind (f x) g)"
  "kthen m n = kbind m (\<lambda>_. n)" "kguard True e = kret ()"
  by (auto simp: fun_eq_iff kdefs split: sum.splits)

lemma aligned_4_len: "aligned 4 a \<Longrightarrow> 4 dvd n \<Longrightarrow> aligned 4 (a + of_nat n)"
  using aligned_4_add [of a] by (auto elim!: dvdE)

lemma scan_prop:
  assumes "holds db lx (enc_prop (off, v))" and "aligned 4 lx" and "length v < 2 ^ 31 - 16"
  shows "fdt_scan_helper (Suc n) db strings cb lx node ac sc False =
     kbind (set_cells db (strings + ucast off) (lx + 12) node) (\<lambda>node'.
     kthen (cb_prop cb \<lparr>prop_node = node', prop_name = strings + ucast off,
         prop_value = lx + 12, prop_len = of_nat (length v)\<rparr>)
       (fdt_scan_helper n db strings cb (lx + of_nat (length (enc_prop (off, v)))) node' ac sc False))"
proof -
  have h: "holds db lx (be32 FDT_PROP)" "holds db (lx + 4) (be32 (of_nat (length v)))" "holds db (lx + 8) (be32 off)"
    using assms(1) by (simp_all add: holds_append add.assoc del: FDT_PROP_def)
  have "aligned 4 (lx + 4)" "aligned 4 (lx + 8)"
    using aligned_4_add [OF assms(2), of 1] aligned_4_add [OF assms(2), of 2] by simp_all
  note w = fdt_word_held [OF h(1) assms(2)] fdt_word_held [OF h(2) this(1)] fdt_word_held [OF h(3) this(2)]
  show ?thesis
    unfolding fdt_scan_helper.simps w length_enc_prop prop_step [OF assms(3), symmetric]
    by (simp add: km_laws)
qed

lemma length_enc_tree: "4 dvd length (enc_tree k)"
proof (induction k rule: enc_tree.induct)
  case (1 nm ps ks)
  have "4 dvd length (concat (map enc_prop ps))" by (induction ps) auto
  moreover have "4 dvd length (concat (map enc_tree ks))"
    using 1 by (induction ks) auto
  ultimately show ?case by auto
qed

lemma name_words:
  assumes "length (nm :: u8 list) < 2 ^ 31"
  shows "4 * (2 + of_nat (length nm) div 4) = (4 + of_nat (length (enc_name nm)) :: u64)"
proof -
  have "of_nat (length nm) div 4 = (of_nat (length nm div 4) :: u64)"
    using assms by (simp add: word_unat_eq_iff unat_div unat_of_nat take_bit_nat_eq_self)
  then show ?thesis by (simp add: algebra_simps)
qed

lemma strlen_name:
  assumes "holds db a (enc_name nm)" and "0 \<notin> set nm" and "length nm < n"
  shows "fdt_strlen n db a = kret (of_nat (length nm))"
proof -
  have "4 * (length nm div 4 + 1) - length nm \<noteq> 0" by presburger
  then obtain r where "enc_name nm = nm @ 0 # r"
    by (cases "4 * (length nm div 4 + 1) - length nm") (auto simp: enc_name_def pad_to_def)
  with assms show ?thesis using strlen_held by metis
qed

lemma call_done_last [simp]: "call_done cb True node = kret ()" "call_done cb lst None = kret ()"
  by (auto simp: call_done_def split: option.splits)

lemma scan_node:
  assumes "holds db lx (be32 FDT_BEGIN_NODE)" and "holds db (lx + 4) (enc_name nm)" and "aligned 4 lx"
    and "0 \<notin> set nm" and "length nm < 2 ^ 31" and "length nm < n"
  shows "fdt_scan_helper (Suc n) db strings cb lx node ac sc lst =
     kthen (call_done cb lst node)
    (kthen (call_open cb (Fdt_node node (lx + 4) ac sc))
    (kbind (fdt_scan_helper n db strings cb (lx + 4 + of_nat (length (enc_name nm)))
        (Some (Fdt_node node (lx + 4) ac sc)) 2 1 False) (\<lambda>(lx', child_node).
       fdt_scan_helper n db strings cb lx' node
         (address_cells (the child_node)) (size_cells (the child_node)) True)))"
  unfolding fdt_scan_helper.simps fdt_word_held [OF assms(1,3)] km_laws strlen_name [OF assms(2,4,6)]
    name_words [OF assms(5)] add.assoc
  by simp

lemma visit_child:
  "kthen (call_open cb (Fdt_node node (lx + 4) ac sc))
    (kbind (visit_rest db strings cb (lx + 4 + of_nat (length (enc_name nm))) (Some (Fdt_node node (lx + 4) ac sc))
       2 1 False qs js FDT_END_NODE) (\<lambda>(lx', nd). f lx' nd)) =
   kbind (visit_tree db strings cb lx node ac sc (FT nm qs js)) (f (lx + of_nat (length (enc_tree (FT nm qs js)))))"
  by (simp add: visit_rest_def km_laws algebra_simps)

lemma visit_rest_kid:
  "visit_rest db strings cb lx node ac sc lst [] (k # ks) e =
   kthen (call_done cb lst node) (kbind (visit_tree db strings cb lx node ac sc k) (\<lambda>nd.
     visit_rest db strings cb (lx + of_nat (length (enc_tree k))) node
       (address_cells (the nd)) (size_cells (the nd)) True [] ks e))"
  by (simp add: visit_rest_def km_laws algebra_simps)

lemma scan_rest:
  assumes "holds db lx (enc_rest ps ks e)" and "aligned 4 lx" and "length (enc_rest ps ks e) \<le> n"
    and "\<forall>p \<in> set ps. length (snd p) < 2 ^ 31 - 16" and "\<forall>k \<in> set ks. tree_ok k"
    and "lst \<Longrightarrow> ps = []" and "e \<notin> {FDT_NOP, FDT_PROP, FDT_BEGIN_NODE}"
  shows "fdt_scan_helper n db strings cb lx node ac sc lst = visit_rest db strings cb lx node ac sc lst ps ks e"
  using assms
proof (induction n arbitrary: lx ps ks e node ac sc lst)
  case 0
  then show ?case by (simp add: enc_rest_def)
next
  case (Suc n)
  show ?case
  proof (cases ps)
    case (Cons p ps')
    obtain off v where p: "p = (off, v)" by force
    let ?lx = "lx + of_nat (length (enc_prop (off, v)))"
    have "\<not> lst" using Suc.prems(6) Cons by auto
    have h: "holds db lx (enc_prop (off, v))" "holds db ?lx (enc_rest ps' ks e)"
      using Suc.prems(1) unfolding enc_rest_def Cons p by (simp_all add: holds_append add.assoc)
    have v: "length v < 2 ^ 31 - 16" using Suc.prems(4) Cons p by simp
    have al: "aligned 4 ?lx" unfolding length_enc_prop by (rule aligned_4_len [OF Suc.prems(2)]) simp
    have "fdt_scan_helper n db strings cb ?lx node' ac sc False =
        visit_rest db strings cb ?lx node' ac sc False ps' ks e" for node'
      by (rule Suc.IH [OF h(2) al]) (use Suc.prems Cons p in \<open>auto simp: enc_rest_def\<close>)
    then show ?thesis
      unfolding Cons p using \<open>\<not> lst\<close>
      by (simp add: scan_prop [OF h(1) Suc.prems(2) v] visit_rest_def km_laws add.assoc del: enc_prop.simps fdt_scan_helper.simps)
  next
    case ps: Nil
    show ?thesis
    proof (cases ks)
      case Nil
      with ps Suc.prems(1) have "holds db lx (be32 e)" by (simp add: enc_rest_def)
      note w = fdt_word_held [OF this Suc.prems(2)]
      show ?thesis
        unfolding ps Nil using Suc.prems(7) by (simp add: visit_rest_def km_laws w)
    next
      case (Cons k ks')
      obtain nm qs js where k: "k = FT nm qs js" by (cases k)
      let ?cx = "lx + 4 + of_nat (length (enc_name nm))" and ?lx = "lx + of_nat (length (enc_tree k))"
      let ?nd = "Fdt_node node (lx + 4) ac sc"
      have h: "holds db lx (be32 FDT_BEGIN_NODE)" "holds db (lx + 4) (enc_name nm)"
          "holds db ?cx (enc_rest qs js FDT_END_NODE)" "holds db ?lx (enc_rest [] ks' e)"
        using Suc.prems(1) unfolding enc_rest_def Cons ps k
        by (simp_all add: holds_append add.assoc del: FDT_BEGIN_NODE_def FDT_END_NODE_def)
      have ok: "tree_ok k" "\<forall>k \<in> set ks'. tree_ok k" using Suc.prems(5) Cons by auto
      have len: "length (enc_rest qs js FDT_END_NODE) \<le> n" "length (enc_rest [] ks' e) \<le> n" "length nm < n"
        using Suc.prems(3) unfolding enc_rest_def Cons ps k by simp_all
      have "aligned 4 (lx + 4)" using aligned_4_add [OF Suc.prems(2), of 1] by simp
      then have al: "aligned 4 ?cx" "aligned 4 ?lx"
        using aligned_4_len [of "lx + 4" "length (enc_name nm)"] aligned_4_len [OF Suc.prems(2) length_enc_tree]
        by (simp_all del: of_nat_mult)
      have nm: "0 \<notin> set nm" "length nm < 2 ^ 31" using ok(1) k by auto
      have child_scan: "fdt_scan_helper n db strings cb ?cx (Some ?nd) 2 1 False =
          visit_rest db strings cb ?cx (Some ?nd) 2 1 False qs js FDT_END_NODE"
        using ok(1) unfolding k by (intro Suc.IH [OF h(3) al(1) len(1)]) auto
      have rest_scan: "fdt_scan_helper n db strings cb ?lx node ac' sc' True =
          visit_rest db strings cb ?lx node ac' sc' True [] ks' e" for ac' sc'
        using ok(2) Suc.prems(7) by (intro Suc.IH [OF h(4) al(2) len(2)]) auto
      show ?thesis
        unfolding Cons ps scan_node [OF h(1,2) Suc.prems(2) nm len(3)] child_scan visit_child visit_rest_kid
          k [symmetric] rest_scan ..
    qed
  qed
qed

section \<open>The memory node\<close>

text \<open>Strings in the blob.\<close>

definition bytes_of :: "string \<Rightarrow> u8 list" where
  "bytes_of s = map of_char s @ [0]"

lemma byte_held: "holds db a (b # bs) \<Longrightarrow> db a = Some b \<and> holds db (a + 1) bs"
  using holds_append [of db a "[b]" bs] by (auto simp: holds_def)

lemma holds_Cons: "holds db a (b # bs) \<longleftrightarrow> db a = Some b \<and> holds db (a + 1) bs"
  using holds_append [of db a "[b]" bs] by (simp add: holds_def)

lemma of_char_u8_inject [simp]: "of_char c = (of_char d :: u8) \<longleftrightarrow> c = d"
proof
  assume "of_char c = (of_char d :: u8)"
  then have "unat (of_nat (of_char c) :: u8) = unat (of_nat (of_char d) :: u8)" by (simp only: of_nat_of_char)
  then have "(of_char c :: nat) = of_char d" unfolding unat_of_nat by (simp add: take_bit_nat_eq_self)
  then show "c = d" by simp
qed simp

lemma of_char_u8_0 [simp]: "of_char c = (0 :: u8) \<longleftrightarrow> c = CHR 0x00" "(0 :: u8) = of_char c \<longleftrightarrow> c = CHR 0x00"
  using of_char_u8_inject [of c "CHR 0x00"] by auto

lemma streq_step: "db a = Some b \<Longrightarrow> fdt_streq db a [] = kret (b = 0)"
  "db a = Some b \<Longrightarrow> fdt_streq db a (c # cs) = (if b = of_char c then fdt_streq db (a + 1) cs else kret False)"
  by (simp_all add: fdt_byte_def km_laws)

lemma streq_held:
  assumes "holds db a (bytes_of s)" and "CHR 0x00 \<notin> set s" and "CHR 0x00 \<notin> set lit"
  shows "fdt_streq db a lit = kret (s = lit)"
  using assms
proof (induction lit arbitrary: a s)
  case base: Nil
  show ?case
  proof (cases s)
    case (Cons d ds)
    with base have "db a = Some (of_char d)" "d \<noteq> CHR 0x00" by (auto simp: bytes_of_def dest!: byte_held)
    with Cons show ?thesis by (simp only: streq_step) simp
  next
    case Nil
    with base have "db a = Some 0" by (auto simp: bytes_of_def dest!: byte_held)
    with Nil show ?thesis by (simp only: streq_step) simp
  qed
next
  case step: (Cons c cs)
  show ?case
  proof (cases s)
    case Nil
    with step have "db a = Some 0" by (auto simp: bytes_of_def dest!: byte_held)
    with Nil step.prems(3) show ?thesis by (simp only: streq_step) auto
  next
    case (Cons d ds)
    with step have "db a = Some (of_char d)" "holds db (a + 1) (bytes_of ds)"
      by (auto simp: bytes_of_def dest!: byte_held)
    note IH = step.IH [OF this(2)]
    from \<open>db a = _\<close> Cons step.prems(2,3) IH show ?thesis by (simp only: streq_step) auto
  qed
qed

text \<open>A tree with one memory node of one range, and two cells for addresses and sizes.\<close>

definition be64 :: "u64 \<Rightarrow> u8 list" where
  "be64 v = be32 (ucast (drop_bit 32 v)) @ be32 (ucast v)"

definition mem_name :: "u8 list" where
  "mem_name = map of_char ''memory''"

lemma mem_name_props: "length mem_name = 6" "0 \<notin> set mem_name" "length (bytes_of ''memory'') = 7"
  by (simp_all add: mem_name_def bytes_of_def)

definition mem_tree :: "u64 \<Rightarrow> u64 \<Rightarrow> fdt_tree" where
  "mem_tree base sz = FT [] [(0, be32 2), (15, be32 2)]
     [FT mem_name [(27, bytes_of ''memory''), (39, be64 base @ be64 sz)] []]"

lemma two_cells: "push_bit 32 (push_bit 32 0 + ucast (ucast (drop_bit 32 v) :: u32)) + ucast (ucast v :: u32) = (v :: u64)"
proof -
  have "push_bit 32 (push_bit 32 0 + ucast (ucast (drop_bit 32 v) :: u32)) AND ucast (ucast v :: u32) = (0 :: u64)"
    by (rule bit_word_eqI) (auto simp: bit_simps)
  then have "push_bit 32 (push_bit 32 0 + ucast (ucast (drop_bit 32 v) :: u32)) + ucast (ucast v :: u32) =
      push_bit 32 (push_bit 32 0 + ucast (ucast (drop_bit 32 v) :: u32)) OR (ucast (ucast v :: u32) :: u64)"
    by (rule disjunctive_add_eq_or)
  also have "\<dots> = v"
    by (rule bit_word_eqI) (auto simp: bit_simps)
  finally show ?thesis .
qed

lemma get_two_cells:
  assumes "holds db a (be64 v)" and "aligned 4 a"
  shows "get_cells 2 db a 0 = kret (a + 8, v)"
proof -
  have h: "holds db a (be32 (ucast (drop_bit 32 v)))" "holds db (a + 4) (be32 (ucast v))"
    using assms(1) by (simp_all add: be64_def holds_append)
  have "aligned 4 (a + 4)" using aligned_4_add [OF assms(2), of 1] by simp
  note w = fdt_word_held [OF h(1) assms(2)] fdt_word_held [OF h(2) this]
  show ?thesis
    using two_cells [of v] by (simp add: numeral_2_eq_2 w km_laws add.commute)
qed

lemma length_be64 [simp]: "length (be64 v) = 8"
  by (simp add: be64_def)

lemma mem_tree_held:
  assumes "holds db lx (enc_tree (mem_tree base sz))"
  shows "holds db (lx + 20) (be32 2)" "holds db (lx + 36) (be32 2)" "holds db (lx + 64) (bytes_of ''memory'')"
    "holds db (lx + 84) (be64 base)" "holds db (lx + 92) (be64 sz)"
  using assms
  by (simp_all add: mem_tree_def enc_name_def pad_to_def holds_append holds_Cons add.assoc mem_name_props)

text \<open>The names of the properties in the strings block.\<close>

definition names_held :: "fdt_mem \<Rightarrow> u64 \<Rightarrow> bool" where
  "names_held db st \<longleftrightarrow> holds db st (bytes_of ''#address-cells'') \<and> holds db (st + 15) (bytes_of ''#size-cells'') \<and>
     holds db (st + 27) (bytes_of ''device_type'') \<and> holds db (st + 39) (bytes_of ''reg'')"

lemma names_streq:
  assumes "names_held db st" and "CHR 0x00 \<notin> set lit"
  shows "fdt_streq db st lit = kret (''#address-cells'' = lit)" "fdt_streq db (st + 15) lit = kret (''#size-cells'' = lit)"
    "fdt_streq db (st + 27) lit = kret (''device_type'' = lit)" "fdt_streq db (st + 39) lit = kret (''reg'' = lit)"
  using assms by (auto simp: names_held_def intro!: streq_held)

abbreviation mem_cb :: "nat \<Rightarrow> fdt_mem \<Rightarrow> u64 \<Rightarrow> mem_scan fdt_cb" where
  "mem_cb n db self \<equiv> \<lparr>cb_open = Some mem_open, cb_prop = mem_prop db, cb_done = Some (mem_done n db self)\<rparr>"

lemma mem_regs_one:
  assumes "holds db a (be64 base)" and "holds db (a + 8) (be64 sz)" and "aligned 4 a"
    and "base \<le> self" and "self \<le> base + sz"
    and "address_cells par = 2" and "size_cells par = 2"
  shows "mem_regs (Suc (Suc n)) db self (Some par) a (a + 16) x = Inr (a + 16, x\<lparr>mem_size := sz\<rparr>)"
proof -
  have "aligned 4 (a + 8)" using aligned_4_add [OF assms(3), of 2] by simp
  note c = get_two_cells [OF assms(1,3)] get_two_cells [OF assms(2) this]
  show ?thesis
    using assms(4-7) by (simp add: fdt_get_address_def fdt_get_size_def c kdefs add.assoc word_sless_alt)
qed

lemma visit_mem_tree:
  assumes "names_held db st" and "holds db lx (enc_tree (mem_tree base sz))" and "aligned 4 lx" and "lx + 84 \<noteq> 0"
    and "base \<le> self" and "self \<le> base + sz"
  shows "\<exists>nd y. visit_tree db st (mem_cb (Suc (Suc n)) db self) lx None 2 1 (mem_tree base sz) x = Inr (nd, y) \<and> mem_size y = sz"
proof -
  note h = mem_tree_held [OF assms(2)] and s = names_streq [OF assms(1)]
  have al: "aligned 4 (lx + 20)" "aligned 4 (lx + 36)" "aligned 4 (lx + 84)"
    using aligned_4_add [OF assms(3), of 5] aligned_4_add [OF assms(3), of 9] aligned_4_add [OF assms(3), of 21] by simp_all
  note w = fdt_word_held [OF h(1) al(1)] fdt_word_held [OF h(2) al(2)] streq_held [OF h(3)]
  have q: "quot4 16 = (4 :: i32)" "sint (16 :: i32) mod 4 = 0" using quot4_nat [of 16] by simp_all
  have "mem_regs (Suc (Suc n)) db self (Some (Fdt_node None (lx + 4) 2 2)) (lx + 84) (100 + lx) z =
      Inr (100 + lx, z\<lparr>mem_size := sz\<rparr>)" for z
    using mem_regs_one [OF h(4) _ al(3) assms(5,6), of "Fdt_node None (lx + 4) 2 2" n z] h(5) by (simp add: ac_simps)
  then show ?thesis
    using assms(4)
    by (simp add: mem_tree_def mem_name_props km_laws s w set_cells_def call_open_def call_done_def
          mem_prop_def mem_open_def add.assoc del: mem_regs.simps fdt_streq.simps cong: if_cong)
       (simp add: kdefs mem_done_def Let_def q del: mem_regs.simps)
qed

lemma visit_htif_tree:
  assumes "names_held db st" and "holds db lx (enc_tree (mem_tree base sz))" and "aligned 4 lx"
  shows "\<exists>nd. visit_tree db st \<lparr>cb_open = Some htif_open, cb_prop = htif_prop db, cb_done = Some htif_done\<rparr> lx None 2 1
    (mem_tree base sz) x = Inr (nd, x\<lparr>compat := False\<rparr>)"
proof -
  note h = mem_tree_held [OF assms(2)] and s = names_streq [OF assms(1)]
  have al: "aligned 4 (lx + 20)" "aligned 4 (lx + 36)"
    using aligned_4_add [OF assms(3), of 5] aligned_4_add [OF assms(3), of 9] by simp_all
  note w = fdt_word_held [OF h(1) al(1)] fdt_word_held [OF h(2) al(2)]
  show ?thesis
    by (simp add: mem_tree_def mem_name_props km_laws s w set_cells_def call_open_def call_done_def
          htif_prop_def htif_open_def htif_done_def add.assoc del: fdt_streq.simps cong: if_cong)
       (simp add: kdefs)
qed

section \<open>Blobs\<close>

text \<open>
  A blob at \<open>fdt\<close> that holds a tree: the header with the magic number, a version the scanner
  knows and the offsets of the two blocks, and the tree in the structure block.
\<close>

definition fdt_image :: "fdt_mem \<Rightarrow> u64 \<Rightarrow> u32 \<Rightarrow> u32 \<Rightarrow> fdt_tree \<Rightarrow> bool" where
  "fdt_image db fdt off_struct off_strings root \<longleftrightarrow>
     holds db fdt (be32 FDT_MAGIC) \<and> holds db (fdt + 8) (be32 off_struct) \<and> holds db (fdt + 12) (be32 off_strings) \<and>
     (\<exists>comp_ver. comp_ver \<le> FDT_VERSION \<and> holds db (fdt + 24) (be32 comp_ver)) \<and>
     aligned 4 fdt \<and> unat off_struct mod 4 = 0 \<and> tree_ok root \<and>
     holds db (fdt + ucast off_struct) (enc_tree root @ be32 FDT_END)"

lemma fdt_image_aligned: "fdt_image db fdt os st root \<Longrightarrow> aligned 4 (fdt + ucast os)"
proof -
  assume "fdt_image db fdt os st root"
  then have "aligned 4 (fdt + of_nat (unat os))"
    by (intro aligned_4_len) (auto simp: fdt_image_def)
  then show ?thesis by simp
qed

lemma scan_visits:
  assumes "fdt_image db fdt off_struct off_strings root" and "length (enc_tree root) + 4 \<le> n"
  shows "fdt_scan n db fdt cb =
    kbind (visit_tree db (fdt + ucast off_strings) cb (fdt + ucast off_struct) None 2 1 root) (\<lambda>_. kret ())"
proof -
  obtain comp_ver where h: "holds db fdt (be32 FDT_MAGIC)" "holds db (fdt + 8) (be32 off_struct)"
      "holds db (fdt + 12) (be32 off_strings)" "holds db (fdt + 24) (be32 comp_ver)"
      "comp_ver \<le> FDT_VERSION" "aligned 4 fdt" "tree_ok root"
      "holds db (fdt + ucast off_struct) (enc_tree root @ be32 FDT_END)"
    using assms(1) unfolding fdt_image_def by blast
  have al: "aligned 4 (fdt + 8)" "aligned 4 (fdt + 12)" "aligned 4 (fdt + 24)"
    using aligned_4_add [OF h(6), of 2] aligned_4_add [OF h(6), of 3] aligned_4_add [OF h(6), of 6]
    by simp_all
  have "fdt_scan_helper n db (fdt + ucast off_strings) cb (fdt + ucast off_struct) None 2 1 False =
      visit_rest db (fdt + ucast off_strings) cb (fdt + ucast off_struct) None 2 1 False [] [root] FDT_END"
    using h(7,8) assms(2) fdt_image_aligned [OF assms(1)] by (intro scan_rest) (auto simp: enc_rest_def)
  moreover have "\<not> FDT_VERSION < comp_ver" using h(5) by (rule leD)
  ultimately show ?thesis
    by (simp add: fdt_scan_def fdt_word_held [OF h(1,6)] fdt_word_held [OF h(2) al(1)]
        fdt_word_held [OF h(3) al(2)] fdt_word_held [OF h(4) al(3)] km_laws visit_rest_def
        del: FDT_VERSION_def)
qed

lemma query_mem_eq:
  assumes "fdt_image db fdt os st (mem_tree base sz)" and "names_held db (fdt + ucast st)"
    and "fdt + ucast os + 84 \<noteq> 0" and "base \<le> self" and "self \<le> base + sz" and "0 < sz" and "112 \<le> n"
  shows "\<exists>y. query_mem n db self fdt x = Inr ((), y) \<and> mem_size y = sz"
proof -
  let ?lx = "fdt + ucast os" and ?x = "x\<lparr>mem_size := 0\<rparr>"
  have len: "length (enc_tree (mem_tree base sz)) = 108" by (simp add: mem_tree_def mem_name_props)
  have "n = Suc (Suc (n - 2))" using assms(7) by arith
  then obtain m where n: "n = Suc (Suc m)" ..
  have "holds db ?lx (enc_tree (mem_tree base sz))" using assms(1) by (simp add: fdt_image_def holds_append)
  then obtain nd y where "visit_tree db (fdt + ucast st) (mem_cb n db self) ?lx None 2 1 (mem_tree base sz) ?x = Inr (nd, y)"
      "mem_size y = sz"
    using visit_mem_tree [OF assms(2) _ fdt_image_aligned [OF assms(1)] assms(3-5), of m ?x] n by auto
  moreover have "fdt_scan n db fdt (mem_cb n db self) =
      kbind (visit_tree db (fdt + ucast st) (mem_cb n db self) ?lx None 2 1 (mem_tree base sz)) (\<lambda>_. kret ())"
    using assms(7) len by (intro scan_visits [OF assms(1)]) simp
  ultimately show ?thesis using assms(6) by (simp add: query_mem_def kdefs)
qed

lemma query_htif_none:
  assumes "fdt_image db fdt os st (mem_tree base sz)" and "names_held db (fdt + ucast st)" and "112 \<le> n"
  shows "query_htif n db fdt x = Inr ((), x\<lparr>compat := False\<rparr>)"
proof -
  let ?cb = "\<lparr>cb_open = Some htif_open, cb_prop = htif_prop db, cb_done = Some htif_done\<rparr>"
  have "length (enc_tree (mem_tree base sz)) = 108" by (simp add: mem_tree_def mem_name_props)
  then have "fdt_scan n db fdt ?cb =
      kbind (visit_tree db (fdt + ucast st) ?cb (fdt + ucast os) None 2 1 (mem_tree base sz)) (\<lambda>_. kret ())"
    using assms(3) by (intro scan_visits [OF assms(1)]) simp
  moreover have "holds db (fdt + ucast os) (enc_tree (mem_tree base sz))"
    using assms(1) by (simp add: fdt_image_def holds_append)
  ultimately show ?thesis
    using visit_htif_tree [OF assms(2) _ fdt_image_aligned [OF assms(1)], of base sz x]
    by (auto simp: query_htif_def kdefs)
qed

section \<open>Properties\<close>

text \<open>A blob for the examples: 128 MB at \<open>0x80000000\<close>.\<close>

definition sample_strings :: "u8 list" where
  "sample_strings = bytes_of ''#address-cells'' @ bytes_of ''#size-cells'' @ bytes_of ''device_type'' @ bytes_of ''reg''"

definition sample_tree :: fdt_tree where
  "sample_tree = mem_tree 0x80000000 0x8000000"

definition sample_blob :: "u8 list" where
  "sample_blob = be32 FDT_MAGIC @ be32 0 @ be32 28 @ be32 140 @ be32 0 @ be32 17 @ be32 16 @
     (enc_tree sample_tree @ be32 FDT_END) @ sample_strings"

definition blob_at :: "u64 \<Rightarrow> u8 list \<Rightarrow> fdt_mem" where
  "blob_at a bs x = (if unat (x - a) < length bs then Some (bs ! unat (x - a)) else None)"

abbreviation sample_db :: fdt_mem where
  "sample_db \<equiv> blob_at 0x1000 sample_blob"

lemma holds_blob:
  assumes "\<exists>zs. bs = xs @ ys @ zs" and "length bs < 2 ^ 64" and "k = of_nat (length xs)"
  shows "holds (blob_at a bs) (a + k) ys"
proof -
  have "unat (of_nat (length xs) + of_nat i :: u64) = length xs + i" if "i < length ys" for i
    using assms(1,2) that by (auto simp: unat_of_nat take_bit_nat_eq_self simp flip: of_nat_add)
  with assms show ?thesis by (auto simp: holds_def blob_at_def nth_append)
qed

lemma sample_tree_length: "length (enc_tree sample_tree) = 108" "tree_ok sample_tree"
  by (simp_all add: sample_tree_def mem_tree_def mem_name_props bytes_of_def)

lemma sample_length: "length sample_blob < 2 ^ 64"
  by (simp add: sample_blob_def sample_tree_length sample_strings_def bytes_of_def)

lemma sample_image: "fdt_image sample_db 0x1000 28 140 sample_tree"
proof -
  let ?m = "be32 FDT_MAGIC @ be32 0" and ?v = "be32 0 @ be32 17"
  note held = holds_blob [OF _ sample_length, where a = "0x1000"]
  have "holds sample_db 0x1000 (be32 FDT_MAGIC)"
    using held [of "[]" "be32 FDT_MAGIC" 0] by (simp add: sample_blob_def)
  moreover have "holds sample_db (0x1000 + 8) (be32 28)"
    by (rule held [of ?m]) (simp_all add: sample_blob_def)
  moreover have "holds sample_db (0x1000 + 12) (be32 140)"
    by (rule held [of "?m @ be32 28"]) (simp_all add: sample_blob_def)
  moreover have "holds sample_db (0x1000 + 24) (be32 16)"
    by (rule held [of "?m @ be32 28 @ be32 140 @ ?v"]) (simp_all add: sample_blob_def)
  moreover have "holds sample_db (0x1000 + ucast (28 :: u32)) (enc_tree sample_tree @ be32 FDT_END)"
    by (rule held [of "?m @ be32 28 @ be32 140 @ ?v @ be32 16"]) (simp_all add: sample_blob_def)
  ultimately show ?thesis
    unfolding fdt_image_def using sample_tree_length
    by (intro conjI exI [of _ 16]) (simp_all add: aligned_def)
qed

lemma sample_names: "names_held sample_db (0x1000 + ucast (140 :: u32))"
proof -
  let ?h = "be32 FDT_MAGIC @ be32 0 @ be32 28 @ be32 140 @ be32 0 @ be32 17 @ be32 16 @ (enc_tree sample_tree @ be32 FDT_END)"
  let ?a = "bytes_of ''#address-cells''" and ?s = "bytes_of ''#size-cells''" and ?d = "bytes_of ''device_type''"
  note held = holds_blob [OF _ sample_length, where a = "0x1000"]
  have l: "length ?a = 15" "length ?s = 12" "length ?d = 12" by (simp_all add: bytes_of_def)
  have "holds sample_db (0x1000 + 140) ?a"
    by (rule held [of ?h]) (simp_all add: sample_blob_def sample_strings_def sample_tree_length)
  moreover have "holds sample_db (0x1000 + 155) ?s"
    by (rule held [of "?h @ ?a"]) (simp_all add: sample_blob_def sample_strings_def sample_tree_length l)
  moreover have "holds sample_db (0x1000 + 167) ?d"
    by (rule held [of "?h @ ?a @ ?s"]) (simp_all add: sample_blob_def sample_strings_def sample_tree_length l)
  moreover have "holds sample_db (0x1000 + 179) (bytes_of ''reg'')"
    by (rule held [of "?h @ ?a @ ?s @ ?d"]) (simp_all add: sample_blob_def sample_strings_def sample_tree_length l)
  ultimately show ?thesis by (simp add: names_held_def)
qed

text \<open>
  C12: the scan of a well-formed blob, given fuel for its length, visits the tree: every
  node is opened, its properties are handed to the callback in order, it is done, and then
  its children are visited in order, whatever the callbacks do. The cell counts a node
  starts with are those its preceding sibling ended with, not the defaults of the device tree
  specification.
\<close>

theorem fdt_scan_visits:
  assumes "fdt_image db fdt off_struct off_strings root" and "length (enc_tree root) + 4 \<le> n"
  shows "fdt_scan n db fdt cb =
    kbind (visit_tree db (fdt + ucast off_strings) cb (fdt + ucast off_struct) None 2 1 root) (\<lambda>_. kret ())"
  using assms by (rule scan_visits)

theorem fdt_scan_visits_witness:
  "query_htif 200 sample_db 0x1000 =
     kbind (visit_tree sample_db (0x1000 + ucast (140 :: u32))
       \<lparr>cb_open = Some htif_open, cb_prop = htif_prop sample_db, cb_done = Some htif_done\<rparr>
       (0x1000 + ucast (28 :: u32)) None 2 1 sample_tree) (\<lambda>_. kret ())"
  unfolding query_htif_def by (rule fdt_scan_visits [OF sample_image]) (simp add: sample_tree_length)



end
