(* ===== verification/PKE_Mmode.thy ===== *)
theory PKE_Mmode
  imports PKE_Dts PKE_Strap
begin

text \<open>
  Machine mode: the entry of \<^verbatim>\<open>kernel/machine/mentry.S\<close>, the start-up of
  \<^verbatim>\<open>kernel/machine/minit.c\<close>, and the machine-mode traps of \<^verbatim>\<open>kernel/machine/mtrap_vector.S\<close>
  and \<^verbatim>\<open>kernel/machine/mtrap.c\<close>. The state is that of the kernel with the machine-mode
  registers, the timer of the core local interruptor and the frame the interrupted
  registers are saved in. Which bits of the two delegation registers can be set is a matter
  of the hardware and a field of the state; so are the addresses the linker chooses.
\<close>

section \<open>Registers\<close>

definition MSTATUS_MPP_MASK :: u64 where "MSTATUS_MPP_MASK = push_bit 11 3"
definition MSTATUS_MPP_S :: u64 where "MSTATUS_MPP_S = push_bit 11 1"
definition MSTATUS_MIE :: u64 where "MSTATUS_MIE = push_bit 3 1"
definition MIP_SEIP :: u64 where "MIP_SEIP = push_bit 9 1"
definition MIP_SSIP :: u64 where "MIP_SSIP = push_bit 1 1"
definition MIP_STIP :: u64 where "MIP_STIP = push_bit 5 1"
definition SIE_SEIE :: u64 where "SIE_SEIE = push_bit 9 1"
definition SIE_STIE :: u64 where "SIE_STIE = push_bit 5 1"
definition SIE_SSIE :: u64 where "SIE_SSIE = push_bit 1 1"
definition MIE_MTIE :: u64 where "MIE_MTIE = push_bit 7 1"

definition CAUSE_MISALIGNED_FETCH :: u64 where [simp]: "CAUSE_MISALIGNED_FETCH = 0x0"
definition CAUSE_FETCH_ACCESS :: u64 where [simp]: "CAUSE_FETCH_ACCESS = 0x1"
definition CAUSE_ILLEGAL_INSTRUCTION :: u64 where [simp]: "CAUSE_ILLEGAL_INSTRUCTION = 0x2"
definition CAUSE_BREAKPOINT :: u64 where [simp]: "CAUSE_BREAKPOINT = 0x3"
definition CAUSE_MISALIGNED_LOAD :: u64 where [simp]: "CAUSE_MISALIGNED_LOAD = 0x4"
definition CAUSE_LOAD_ACCESS :: u64 where [simp]: "CAUSE_LOAD_ACCESS = 0x5"
definition CAUSE_MISALIGNED_STORE :: u64 where [simp]: "CAUSE_MISALIGNED_STORE = 0x6"
definition CAUSE_STORE_ACCESS :: u64 where [simp]: "CAUSE_STORE_ACCESS = 0x7"
definition CAUSE_FETCH_PAGE_FAULT :: u64 where [simp]: "CAUSE_FETCH_PAGE_FAULT = 0xc"
definition CAUSE_MTIMER :: u64 where [simp]: "CAUSE_MTIMER = 0x8000000000000007"

definition TIMER_INTERVAL :: u64 where [simp]: "TIMER_INTERVAL = 1000000"

text \<open>What the linker decides: addresses of the symbols machine-mode code names.\<close>

record mimage =
  addr_stack0 :: u64
  addr_itrframe :: u64
  addr_mtrapvec :: u64
  addr_s_start :: u64
  addr_mem_done :: u64

record mstate =
  kst :: kstate
  htif :: bool
  misa :: u64
  mstatus :: u64
  mepc :: u64
  mtvec :: u64
  mscratch :: u64
  mideleg :: u64
  medeleg :: u64
  mideleg_bits :: u64
  medeleg_bits :: u64
  mie :: u64
  sie :: u64
  mcause :: u64
  mtime :: u64
  mtimecmp :: "u64 \<Rightarrow> u64"
  msp :: u64
  g_itrframe :: "nat \<Rightarrow> u64"

type_synonym 'a M = "(mstate, 'a) km"

text \<open>Kernel code run from machine mode, and a scan of the device tree.\<close>

definition in_kernel :: "'a K \<Rightarrow> 'a M" where
  "in_kernel m st = (case m (kst st) of
     Inl e \<Rightarrow> Inl (map_kexit (\<lambda>k. st\<lparr>kst := k\<rparr>) e)
   | Inr (x, k) \<Rightarrow> Inr (x, st\<lparr>kst := k\<rparr>))"

definition scan_with :: "('x, unit) km \<Rightarrow> (mstate \<Rightarrow> 'x) \<Rightarrow> ('x \<Rightarrow> mstate \<Rightarrow> mstate) \<Rightarrow> unit M" where
  "scan_with m get put st = (case m (get st) of
     Inl e \<Rightarrow> Inl (map_kexit (\<lambda>x. put x st) e)
   | Inr (u, x) \<Rightarrow> Inr ((), put x st))"

section \<open>Start-up\<close>

text \<open>\<open>n\<close> is the fuel of the scans, \<open>db\<close> the memory the device tree blob lies in.\<close>

definition init_dtb :: "nat \<Rightarrow> fdt_mem \<Rightarrow> mimage \<Rightarrow> u64 \<Rightarrow> unit M" where
  "init_dtb n db im dtb =
     kthen (scan_with (query_htif n db dtb)
        (\<lambda>st. \<lparr>compat = False, htif_found = htif st\<rparr>) (\<lambda>x st. st\<lparr>htif := htif_found x\<rparr>))
       (scan_with (query_mem n db (addr_mem_done im) dtb)
        (\<lambda>st. \<lparr>memory = False, reg_value = 0, reg_len = 0, mem_size = g_mem_size (kst st)\<rparr>)
        (\<lambda>x st. st\<lparr>kst := (kst st)\<lparr>g_mem_size := mem_size x\<rparr>\<rparr>))"

definition supports_extension :: "char \<Rightarrow> mstate \<Rightarrow> bool" where
  "supports_extension ext st \<longleftrightarrow> misa st AND push_bit (of_char ext - 65) 1 \<noteq> 0"

definition delegate_traps :: "unit M" where
  "delegate_traps =
     kbind (kget (supports_extension CHR ''S'')) (\<lambda>ok.
       if \<not> ok then kret ()
       else
        (let interrupts = MIP_SSIP OR MIP_STIP OR MIP_SEIP;
             exceptions = push_bit (unat CAUSE_MISALIGNED_FETCH) 1 OR push_bit (unat CAUSE_FETCH_PAGE_FAULT) 1 OR
               push_bit (unat CAUSE_BREAKPOINT) 1 OR push_bit (unat CAUSE_LOAD_PAGE_FAULT) 1 OR
               push_bit (unat CAUSE_STORE_PAGE_FAULT) 1 OR push_bit (unat CAUSE_USER_ECALL) 1 in
         kthen (kmod (\<lambda>st. st\<lparr>mideleg := interrupts AND mideleg_bits st\<rparr>))
        (kthen (kmod (\<lambda>st. st\<lparr>medeleg := exceptions AND medeleg_bits st\<rparr>))
        (kbind (kget mideleg) (\<lambda>d. kthen (kguard (d = interrupts) (Assert_fail ''read_csr(mideleg) == interrupts''))
        (kbind (kget medeleg) (\<lambda>d. kguard (d = exceptions) (Assert_fail ''read_csr(medeleg) == exceptions''))))))))"

definition timerinit :: "u64 \<Rightarrow> unit M" where
  "timerinit hartid =
     kthen (kmod (\<lambda>st. st\<lparr>mtimecmp := (mtimecmp st)(hartid := mtime st + TIMER_INTERVAL)\<rparr>))
       (kmod (\<lambda>st. st\<lparr>mie := mie st OR MIE_MTIE\<rparr>))"

text \<open>
  \<^verbatim>\<open>mret\<close> ends \<^verbatim>\<open>m_start\<close>: the result is the privilege, the field MPP of \<^verbatim>\<open>mstatus\<close> (1 is
  supervisor mode), and the address execution goes on at.
\<close>

definition mpp :: "u64 \<Rightarrow> u64" where
  "mpp w = drop_bit 11 (w AND MSTATUS_MPP_MASK)"

definition mret :: "(u64 \<times> u64) M" where
  "mret = kget (\<lambda>st. (mpp (mstatus st), mepc st))"

definition m_start :: "nat \<Rightarrow> fdt_mem \<Rightarrow> mimage \<Rightarrow> u64 \<Rightarrow> u64 \<Rightarrow> (u64 \<times> u64) M" where
  "m_start n db im hartid dtb =
     kthen (in_kernel spike_file_init)
    (kthen (init_dtb n db im dtb)
    (kthen (kmod (\<lambda>st. st\<lparr>mscratch := addr_itrframe im\<rparr>))
    (kthen (kmod (\<lambda>st. st\<lparr>mstatus := (mstatus st AND NOT MSTATUS_MPP_MASK) OR MSTATUS_MPP_S\<rparr>))
    (kthen (kmod (\<lambda>st. st\<lparr>mepc := addr_s_start im\<rparr>))
    (kthen (kmod (\<lambda>st. st\<lparr>mtvec := addr_mtrapvec im\<rparr>))
    (kthen (kmod (\<lambda>st. st\<lparr>mstatus := mstatus st OR MSTATUS_MIE\<rparr>))
    (kthen delegate_traps
    (kthen (kmod (\<lambda>st. st\<lparr>sie := sie st OR SIE_SEIE OR SIE_STIE OR SIE_SSIE\<rparr>))
    (kthen (timerinit hartid)
       mret)))))))))"

definition mentry :: "nat \<Rightarrow> fdt_mem \<Rightarrow> mimage \<Rightarrow> u64 \<Rightarrow> u64 \<Rightarrow> (u64 \<times> u64) M" where
  "mentry n db im hartid dtb =
     kthen (kmod (\<lambda>st. st\<lparr>mscratch := 0, msp := addr_stack0 im + 4096 * (hartid + 1)\<rparr>))
       (m_start n db im hartid dtb)"

section \<open>Machine-mode traps\<close>

definition handle_instruction_access_fault :: "unit M" where
  "handle_instruction_access_fault = kexits (Panic ''Instruction access fault!'')"

definition handle_load_access_fault :: "unit M" where
  "handle_load_access_fault = kexits (Panic ''Load access fault!'')"

definition handle_store_access_fault :: "unit M" where
  "handle_store_access_fault = kexits (Panic ''Store/AMO access fault!'')"

definition handle_illegal_instruction :: "unit M" where
  "handle_illegal_instruction = kexits (Panic ''Illegal instruction!'')"

definition handle_misaligned_load :: "unit M" where
  "handle_misaligned_load = kexits (Panic ''Misaligned Load!'')"

definition handle_misaligned_store :: "unit M" where
  "handle_misaligned_store = kexits (Panic ''Misaligned AMO!'')"

definition handle_timer :: "unit M" where
  "handle_timer =
     kthen (kmod (\<lambda>st. st\<lparr>mtimecmp := (mtimecmp st)(0 := mtimecmp st 0 + TIMER_INTERVAL)\<rparr>))
       (kmod (\<lambda>st. st\<lparr>kst := (kst st)\<lparr>csr := (csr (kst st))\<lparr>sip := SIP_SSIP\<rparr>\<rparr>\<rparr>))"

text \<open>The case of a load access fault has no \<^verbatim>\<open>break\<close> and goes on with that of a store.\<close>

definition handle_mtrap :: "unit M" where
  "handle_mtrap =
     kbind (kget mcause) (\<lambda>c.
       if c = CAUSE_MTIMER then handle_timer
       else if c = CAUSE_FETCH_ACCESS then handle_instruction_access_fault
       else if c = CAUSE_LOAD_ACCESS then kthen handle_load_access_fault handle_store_access_fault
       else if c = CAUSE_STORE_ACCESS then handle_store_access_fault
       else if c = CAUSE_ILLEGAL_INSTRUCTION then handle_illegal_instruction
       else if c = CAUSE_MISALIGNED_LOAD then handle_misaligned_load
       else if c = CAUSE_MISALIGNED_STORE then handle_misaligned_store
       else kexits (Panic ''unexpected exception happened in M-mode.''))"

text \<open>
  The macros that store the registers to the frame \<^verbatim>\<open>t6\<close> points to and load them from it,
  one instruction per register. The frame, a \<^verbatim>\<open>struct riscv_regs\<close>, has a slot of eight bytes
  for each of the 31 registers, in this order.
\<close>

definition store_itrframe :: "regs \<Rightarrow> unit M" where
  "store_itrframe rs = kfor [0..<31] (\<lambda>k. kmod (\<lambda>st. st\<lparr>g_itrframe := (g_itrframe st)(k := rs ! k)\<rparr>))"

fun load_itrframe :: "nat list \<Rightarrow> regs M" where
  "load_itrframe [] = kret []"
| "load_itrframe (k # ks) =
     kbind (kget (\<lambda>st. g_itrframe st k)) (\<lambda>v. kbind (load_itrframe ks) (\<lambda>vs. kret (v # vs)))"

text \<open>
  The vector: the registers on entry, the registers with which the interrupted code goes on.
  The frame is where \<^verbatim>\<open>mscratch\<close> points; \<^verbatim>\<open>m_start\<close> sets it to \<^verbatim>\<open>g_itrframe\<close>.
\<close>

definition mtrapvec :: "mimage \<Rightarrow> u64 \<Rightarrow> regs \<Rightarrow> regs M" where
  "mtrapvec im hartid rs =
     kbind (kget mscratch) (\<lambda>fr.
     kthen (kguard (fr = addr_itrframe im) (Wild fr))
    (kthen (kmod (\<lambda>st. st\<lparr>mscratch := rs ! REG_A0\<rparr>))
    (kthen (store_itrframe (rs[REG_A0 := fr, REG_T6 := fr]))
    (kthen (kmod (\<lambda>st. st\<lparr>g_itrframe := (g_itrframe st)(REG_A0 := mscratch st)\<rparr>))
    (kthen (kmod (\<lambda>st. st\<lparr>msp := addr_stack0 im + 4096 * (hartid + 1)\<rparr>))
    (kthen (kmod (\<lambda>st. st\<lparr>mscratch := fr\<rparr>))
    (kthen handle_mtrap
       (load_itrframe [0..<31]))))))))"

section \<open>Lemmas\<close>

lemma store_itrframe_eq:
  "kfor [0..<n] (\<lambda>k. kmod (\<lambda>st. st\<lparr>g_itrframe := (g_itrframe st)(k := rs ! k)\<rparr>)) s =
    Inr ((), s\<lparr>g_itrframe := (\<lambda>k. if k < n then rs ! k else g_itrframe s k)\<rparr>)"
  by (induction n) (auto simp: kfor_append kdefs less_Suc_eq fun_eq_iff intro!: arg_cong [where f = "\<lambda>g. s\<lparr>g_itrframe := g\<rparr>"])

lemma load_itrframe_eq: "load_itrframe ks s = Inr (map (g_itrframe s) ks, s)"
  by (induction ks) (simp_all add: kdefs)

lemma init_dtb_eq:
  assumes "fdt_image db dtb os st (mem_tree base sz)" and "names_held db (dtb + ucast st)"
    and "dtb + ucast os + 84 \<noteq> 0" and "base \<le> addr_mem_done im" and "addr_mem_done im \<le> base + sz"
    and "0 < sz" and "112 \<le> n"
  shows "init_dtb n db im dtb s = Inr ((), s\<lparr>kst := (kst s)\<lparr>g_mem_size := sz\<rparr>\<rparr>)"
proof -
  obtain y where "query_mem n db (addr_mem_done im) dtb
      \<lparr>memory = False, reg_value = 0, reg_len = 0, mem_size = g_mem_size (kst s)\<rparr> = Inr ((), y)" "mem_size y = sz"
    using query_mem_eq [OF assms] by blast
  then show ?thesis
    by (simp add: init_dtb_def scan_with_def kdefs query_htif_none [OF assms(1,2,7)])
qed

lemma delegate_traps_eq:
  assumes "bit (misa s) 18" and "0x222 AND mideleg_bits s = 0x222" and "0xb109 AND medeleg_bits s = 0xb109"
  shows "delegate_traps s = Inr ((), s\<lparr>mideleg := 0x222, medeleg := 0xb109\<rparr>)"
proof -
  have "supports_extension CHR ''S'' s"
  proof -
    have "bit (misa s AND push_bit 18 1) 18" using assms(1) by (simp add: bit_simps)
    then show ?thesis by (auto simp: supports_extension_def)
  qed
  with assms(2,3) show ?thesis
    by (simp add: delegate_traps_def kdefs Let_def MIP_SSIP_def MIP_STIP_def MIP_SEIP_def)
qed

lemma mpp_mask: "MSTATUS_MPP_MASK = push_bit 11 (mask 2)"
  by (simp add: MSTATUS_MPP_MASK_def mask_eq_exp_minus_1)

lemma mpp_supervisor: "mpp (((w AND NOT MSTATUS_MPP_MASK) OR MSTATUS_MPP_S) OR MSTATUS_MIE) = 1"
  by (rule bit_word_eqI) (auto simp: mpp_def mpp_mask MSTATUS_MPP_S_def MSTATUS_MIE_def bit_simps)

section \<open>Properties\<close>



definition sample_mimage :: mimage where
  "sample_mimage = \<lparr>addr_stack0 = 0x80010000, addr_itrframe = 0x80011000, addr_mtrapvec = 0x80004000,
     addr_s_start = 0x80000100, addr_mem_done = 0x80001000\<rparr>"

definition power_on :: mstate where
  "power_on = \<lparr>kst = initial_kstate sample_env 0 (\<lambda>_. 0), htif = False, misa = 0x40000, mstatus = 0, mepc = 0, mtvec = 0,
     mscratch = 0, mideleg = 0, medeleg = 0, mideleg_bits = 0x222, medeleg_bits = 0xffff, mie = 0, sie = 0, mcause = 0,
     mtime = 5, mtimecmp = (\<lambda>_. 0), msp = 0, g_itrframe = (\<lambda>_. 0)\<rparr>"


text \<open>
  C32: the machine-mode timer interrupt re-arms the timer and raises the supervisor's software
  interrupt, and the interrupted code goes on with its registers, whatever mode it runs in.
  Register t6 is lost as in the supervisor's vector; here the interrupted code may be the
  kernel itself.
\<close>

theorem mtimer_is_forwarded:
  assumes "mcause s = CAUSE_MTIMER" and "mscratch s = addr_itrframe im" and "length rs = 31"
  shows "\<exists>t. mtrapvec im hartid rs s = Inr (rs[REG_T6 := addr_itrframe im], t) \<and>
    kst t = (kst s)\<lparr>csr := (csr (kst s))\<lparr>sip := SIP_SSIP\<rparr>\<rparr> \<and> mscratch t = addr_itrframe im \<and>
    mtimecmp t 0 = mtimecmp s 0 + TIMER_INTERVAL"
proof -
  have "map ((\<lambda>k. if k < 31 then rs[9 := f, 30 := f] ! k else g k)(9 := rs ! 9)) [0..<31] = rs[30 := f]" for f g
    using assms(3) by (intro nth_equalityI) (auto simp: nth_list_update simp del: upt_rec_numeral)
  with assms show ?thesis
    by (simp add: mtrapvec_def store_itrframe_def store_itrframe_eq load_itrframe_eq kdefs handle_mtrap_def handle_timer_def
        del: upt_rec_numeral)
qed

theorem mtimer_is_forwarded_witness:
  "\<exists>t. mtrapvec sample_mimage 0 (replicate 31 7) (power_on\<lparr>mcause := CAUSE_MTIMER, mscratch := 0x80011000\<rparr>) =
    Inr ((replicate 31 7)[REG_T6 := 0x80011000], t) \<and> sip (csr (kst t)) = 2"
  using mtimer_is_forwarded [of "power_on\<lparr>mcause := CAUSE_MTIMER, mscratch := 0x80011000\<rparr>" sample_mimage "replicate 31 7" 0]
  by (auto simp: sample_mimage_def SIP_SSIP_def)

end
