(* ===== verification/PKE_Machine.thy ===== *)
theory PKE_Machine
  imports PKE_Kernel PKE_Mmode
begin

text \<open>
  The machine that alternates between user programs and the kernel. The start of the kernel
  establishes the invariant of \<^verbatim>\<open>PKE_Kernel\<close> and every trap keeps it, so it holds in every
  state the machine reaches; the way of the user registers into the trapframe and back; and
  the properties of the kernel as a whole.
\<close>

section \<open>Boot\<close>

definition unscheduled :: "kstate \<Rightarrow> bool" where
  "unscheduled s \<longleftrightarrow> current s = None \<and> ready_queue_head s = None"

interpretation us: frame_inv unscheduled
  by unfold_locales (auto simp: unscheduled_def upd_proc_def)

lemma stays_create_freepage_loop: "stays unscheduled (create_freepage_loop p end)"
proof (rule kept_stays)
  show "unscheduled s \<Longrightarrow> kept unscheduled (create_freepage_loop p end s)" for s
    by (induction p "end" s rule: create_freepage_loop.induct)
       (subst create_freepage_loop.simps, auto intro!: kept_intros frames [THEN stays_kept])
qed

lemma stays_pmm_init: "stays unscheduled pmm_init"
  unfolding pmm_init_def create_freepage_list_def Let_def
  by (intro keeps_intros stays_create_freepage_loop) (simp_all add: unscheduled_def)

lemma init_proc_pool_idle:
  assumes "unscheduled s"
  shows "wp init_proc_pool (\<lambda>_. idle) (exit_keeps J) s"
  using assms
  by (simp add: wp_def init_proc_pool_eq idle_def pool_inv_def proc_ok_def zero_process_def unscheduled_def
      del: NPROC_def)

lemma keeps_idle_load: "idle s \<Longrightarrow> wp load_user_program (\<lambda>i t. i < NPROC \<and> idle t) (exit_keeps J) s"
proof -
  assume s: "idle s"
  have load: "wp (load_bincode_from_host_elf i) (\<lambda>_. idle) (exit_keeps J) t" if "idle t" for i t
    using that by (intro stays_wp frames)
  have "wp alloc_process (\<lambda>i t. i < NPROC \<and> idle t) (exit_keeps J) s"
    by (rule alloc_process_wp [where I = "\<lambda>_. idle"]) (simp add: s idle.frame_inv_axioms)
  then show ?thesis
    unfolding load_user_program_def wp_kbind
    by (rule wp_weaken) (auto simp: wp_kret wp_kthen intro!: wp_weaken [OF load])
qed

lemma idle_insert:
  assumes "idle s" and "i < NPROC"
  shows "wp (insert_to_ready_queue i) (\<lambda>_ t. pool_inv t \<and> covered t) (exit_keeps J) s"
proof -
  let ?u = "upd_proc i (\<lambda>p. p\<lparr>status := READY, queue_next := None\<rparr>) s"
  let ?t = "?u\<lparr>ready_queue_head := Some i\<rparr>"
  from assms(1) have s: "pool_inv s" "ready_queue_head s = None" "\<And>j. j < NPROC \<Longrightarrow> status (procs s ! j) = FREE"
    by (simp_all add: idle_def)
  then have l: "length (procs s) = NPROC" by (simp add: pool_inv_def)
  have "pool_inv ?u"
    by (rule pool_inv_upd_proc) (use s(1) assms(2) in \<open>simp_all add: pool_inv_def proc_ok_def\<close>)
  then have "pool_inv ?t" by (simp add: pool_inv_def)
  have i: "procs ?u ! i = (procs s ! i)\<lparr>status := READY, queue_next := None\<rparr>"
    using assms(2) l by (intro procs_upd_proc(2)) simp
  have "queued ?t [i]"
    using assms(2) l unfolding queued_def ready_queue_def by (simp add: i procs_upd_proc(3))
  moreover have "live (procs ?t ! j) \<longrightarrow> j \<in> set [i]" if "j < NPROC" for j
    using s(3) [OF that] by (cases "j = i") (simp_all add: procs_upd_proc(1) live_def)
  ultimately have "covered ?t" unfolding covered_def using \<open>pool_inv ?t\<close> unfolding pool_inv_def by blast
  with \<open>pool_inv ?t\<close> s(2) show ?thesis
    unfolding insert_to_ready_queue_def wp_kbind wp_kget by (simp add: wp_eqs)
qed

lemma s_start_inv:
  assumes "unscheduled s"
  shows "wp s_start (\<lambda>_. kernel_inv) (exit_keeps kernel_inv) s"
proof -
  have "wp (kthen (kmod (\<lambda>s. s\<lparr>csr := (csr s)\<lparr>satp := 0\<rparr>\<rparr>)) (kthen pmm_init (kthen kern_vm_init enable_paging)))
      (\<lambda>_. unscheduled) (exit_keeps kernel_inv) s"
    using assms by (intro stays_wp [where I = unscheduled] keeps_intros frames stays_pmm_init us.upd_csr)
  moreover have "wp (kthen fs_init (kbind load_user_program (\<lambda>i. kthen (insert_to_ready_queue i) schedule)))
      (\<lambda>_. kernel_inv) (exit_keeps kernel_inv) t" if "idle t" for t
    unfolding wp_kthen wp_kbind
    by (rule wp_weaken [OF stays_wp [OF idle.stays_fs_init that]], erule wp_weaken [OF keeps_idle_load])
       (auto simp: wp_kthen intro!: wp_weaken [OF idle_insert] schedule_kernel_inv)
  ultimately show ?thesis
    by (auto simp: s_start_def wp_kthen elim!: wp_weaken intro!: wp_weaken [OF init_proc_pool_idle])
qed

section \<open>The way into the kernel and back\<close>

text \<open>The registers are written into the trapframe one by one.\<close>

fun put_regs :: "u64 \<Rightarrow> (nat \<Rightarrow> u64) \<Rightarrow> nat \<Rightarrow> (u64 \<Rightarrow> u64) \<Rightarrow> u64 \<Rightarrow> u64" where
  "put_regs tf f 0 m = m"
| "put_regs tf f (Suc n) m = (put_regs tf f n m)(tf + TF_REG n := f n)"

lemma reg_slot_ok: "page_ok s tf \<Longrightarrow> k < 31 \<Longrightarrow> aligned 8 (tf + TF_REG k) \<and> mem_ok s (tf + TF_REG k)"
  by (auto intro!: page_off_mem_ok page_off_aligned simp: unat_TF_REG)

lemma store_regs_eq:
  "n \<le> 31 \<Longrightarrow> page_ok s tf \<Longrightarrow> kfor [0..<n] (\<lambda>k. store64 (tf + TF_REG k) (f k)) s =
     Inr ((), s\<lparr>mem := put_regs tf f n (mem s)\<rparr>)"
proof (induction n)
  case (Suc n)
  then show ?case using reg_slot_ok [of s tf n] by (simp add: kfor_append kdefs mem_eqs fun_upd_def)
qed (simp add: kdefs)

lemma put_regs_at: "n \<le> 31 \<Longrightarrow> k < n \<Longrightarrow> put_regs tf f n m (tf + TF_REG k) = f k"
  by (induction n) (auto simp: TF_REG_eq_iff less_Suc_eq)

lemma put_regs_other: "n \<le> 31 \<Longrightarrow> 248 \<le> unat w \<Longrightarrow> put_regs tf f n m (tf + w) = m (tf + w)"
  by (induction n) (auto simp: TF_REG_neq [symmetric])

lemma put_regs_outside: "n \<le> 31 \<Longrightarrow> page_ok s tf \<Longrightarrow> page_of a \<noteq> tf \<Longrightarrow> put_regs tf f n m a = m a"
proof (induction n)
  case (Suc n)
  then have "page_of (tf + TF_REG n) = tf" by (intro page_of_off) (auto simp: unat_TF_REG)
  with Suc show ?case by auto
qed simp

definition saved :: "u64 \<Rightarrow> regs \<Rightarrow> (u64 \<Rightarrow> u64) \<Rightarrow> u64 \<Rightarrow> u64" where
  "saved tf rs m = (put_regs tf (\<lambda>k. rs[REG_A0 := tf, REG_T6 := tf] ! k) 31 m)(tf + TF_REG REG_A0 := rs ! REG_A0)"

lemma save_context_eq:
  assumes "page_ok s (sscratch (csr s))"
  shows "save_context rs s = Inr (sscratch (csr s), s\<lparr>mem := saved (sscratch (csr s)) rs (mem s),
    csr := (csr s)\<lparr>sscratch := rs ! REG_A0\<rparr>\<rparr>)"
  using assms reg_slot_ok [OF assms, of 9]
  by (simp add: save_context_def store_all_registers_def kdefs mem_eqs store_regs_eq saved_def del: upt_rec_numeral)

lemma saved_reg:
  assumes "k < 31" and "length rs = 31"
  shows "saved tf rs m (tf + TF_REG k) = rs[REG_T6 := tf] ! k"
  using assms by (auto simp: saved_def TF_REG_eq_iff put_regs_at nth_list_update)

lemma saved_regs: "length rs = 31 \<Longrightarrow> map (\<lambda>k. saved tf rs m (tf + TF_REG k)) [0..<31] = rs[REG_T6 := tf]"
  by (rule nth_equalityI) (simp_all add: saved_reg del: upt_rec_numeral REG_T6_def)

lemma saved_fields: "248 \<le> unat w \<Longrightarrow> saved tf rs m (tf + w) = m (tf + w)"
  by (auto simp: saved_def put_regs_other TF_REG_neq [symmetric])

lemma saved_outside: "page_ok s tf \<Longrightarrow> page_of a \<noteq> tf \<Longrightarrow> saved tf rs m a = m a"
  using page_of_off [of s tf "TF_REG 9"] by (auto simp: saved_def put_regs_outside unat_TF_REG)

section \<open>The machine\<close>

text \<open>
  What the hardware does between two traps. A user program stores to the pages its page
  table maps for user mode and writing, the machine-mode timer handler raises the
  supervisor's software interrupt, and a trap records its cause and enters the vector with
  whatever the registers hold. The previous-privilege bit of \<^verbatim>\<open>sstatus\<close> is clear because
  the trap comes from user mode.
\<close>

definition satp_root :: "u64 \<Rightarrow> u64" where
  "satp_root v = push_bit 12 (v AND mask 44)"

definition user_writable :: "kstate \<Rightarrow> u64 \<Rightarrow> bool" where
  "user_writable s a \<longleftrightarrow> (\<exists>va e. vmap (mem s) (satp_root (satp (csr s))) va = Some e \<and>
     bit e 2 \<and> bit e 4 \<and> page_of a = PTE2PA e)"

definition enter_trap :: "u64 \<Rightarrow> u64 \<Rightarrow> u64 \<Rightarrow> u64 \<Rightarrow> kstate \<Rightarrow> kstate" where
  "enter_trap st cause pc tv s = s\<lparr>csr := (csr s)\<lparr>sstatus := st, scause := cause, sepc := pc, stval := tv\<rparr>\<rparr>"

inductive machine_step :: "kstate \<Rightarrow> kstate \<Rightarrow> bool" where
  user_write: "user_writable s a \<Longrightarrow> machine_step s (s\<lparr>mem := (mem s)(a := v)\<rparr>)"
| timer: "handle_timer st = Inr ((), st') \<Longrightarrow> machine_step (kst st) (kst st')"
| trap: "st AND SSTATUS_SPP = 0 \<Longrightarrow>
    (smode_trap_vector rs :: unit K) (enter_trap st cause pc tv s) = Inl (To_user t) \<Longrightarrow> machine_step s t"

inductive_cases machine_stepE: "machine_step s t"

definition noreturn :: "('s, 'a) km \<Rightarrow> bool" where
  "noreturn m \<longleftrightarrow> (\<forall>s. \<exists>e. m s = Inl e)"

named_theorems noreturns "code that never returns"

lemma noreturn_kbind [noreturns]: "(\<And>x. noreturn (f x)) \<Longrightarrow> noreturn (kbind m f)"
  by (auto simp: noreturn_def kbind_eq split: sum.splits)

lemma noreturn_kthen [noreturns]: "noreturn n \<Longrightarrow> noreturn (kthen m n)"
  by (auto simp: kthen_def intro: noreturn_kbind)

lemma noreturn_exits [noreturns]: "noreturn (kexits e)" "noreturn (\<lambda>s. Inl (f s))"
  by (auto simp: noreturn_def kdefs)

lemma noreturn_if [noreturns]: "noreturn m \<Longrightarrow> noreturn n \<Longrightarrow> noreturn (if b then m else n)"
  by simp

lemma noreturn_switch_to [noreturns]: "noreturn (switch_to p)"
  by (cases p) (auto simp: switch_to_def return_to_user_def intro!: noreturns)

lemma noreturn_schedule [noreturns]: "noreturn schedule"
  unfolding schedule_def by (auto intro!: noreturns split: option.split)

lemma noreturn_trap: "noreturn (smode_trap_vector rs)"
  unfolding smode_trap_vector_def smode_trap_handler_def by (intro noreturns)

lemma noreturn_s_start: "noreturn s_start"
  unfolding s_start_def by (intro noreturns)

lemma wp_noreturn:
  assumes "noreturn m" and "wp m Q E s"
  shows "\<exists>e. m s = Inl e \<and> E e"
proof -
  from assms(1) obtain e where "m s = Inl e" by (auto simp: noreturn_def)
  with assms(2) show ?thesis by (auto simp: wp_def)
qed

lemma kernel_inv_enter_trap: "kernel_inv s \<Longrightarrow> kernel_inv (enter_trap st cause pc tv s)"
  by (simp add: enter_trap_def ki.upd_csr)

lemma machine_step_inv:
  assumes "machine_step s t" and "kernel_inv s"
  shows "kernel_inv t"
  using assms
proof cases
  case (trap st rs cause pc tv)
  have "wp (smode_trap_vector rs :: unit K) (\<lambda>_. kernel_inv) (exit_keeps kernel_inv) (enter_trap st cause pc tv s)"
    by (intro wp_preserves [OF keeps_trap_vector] kernel_inv_enter_trap assms)
  with trap show ?thesis by (simp add: wp_def)
qed (use assms in \<open>auto simp: handle_timer_def kdefs intro: ki.upd_mem ki.upd_csr\<close>)

section \<open>A tick\<close>

lemma trap_vector_enters:
  assumes "page_ok s (sscratch (csr s))" and "mem s (sscratch (csr s) + 256) = sym_smode_trap_handler (kenv s)"
  shows "smode_trap_vector rs s = smode_trap_handler (s\<lparr>mem := saved (sscratch (csr s)) rs (mem s),
    csr := (csr s)\<lparr>sscratch := rs ! REG_A0, satp := mem s (sscratch (csr s) + 272)\<rparr>\<rparr>)"
proof -
  let ?tf = "sscratch (csr s)"
  have ok: "mem_ok s (?tf + k)" "aligned 8 (?tf + k)" if "unat k < 4096" "unat k mod 8 = 0" for k
    using assms(1) that by (auto intro: page_off_mem_ok page_off_aligned)
  show ?thesis
    using assms by (simp add: smode_trap_vector_def save_context_eq kdefs mem_eqs ok saved_fields)
qed

lemma switch_to_leaves:
  assumes "page_ok s (trapframe (procs s ! i))"
  shows "\<exists>t. (switch_to (Some i) :: 'a K) s = Inl (To_user t) \<and> current t = Some i \<and> g_ticks t = g_ticks s \<and>
    sepc (csr t) = mem s (trapframe (procs s ! i) + 264) \<and>
    uregs t = map (\<lambda>k. mem s (trapframe (procs s ! i) + TF_REG k)) [0..<31] \<and>
    (\<forall>a. page_of a \<noteq> trapframe (procs s ! i) \<longrightarrow> mem t a = mem s a)"
proof -
  have "page_of (trapframe (procs s ! i) + w) = trapframe (procs s ! i)" if "unat w < 4096" for w
    using page_of_off [OF assms that] .
  with switch_to_eq [OF assms, where 'a = 'a] show ?thesis by (auto simp del: upt_rec_numeral)
qed

lemma tick_handled:
  assumes "current s = Some c" and "c < length (procs s)" and "page_ok s (trapframe (procs s ! c))"
    and "sstatus (csr s) AND SSTATUS_SPP = 0" and "scause (csr s) = CAUSE_MTIMER_S_TRAP"
    and "tick_count (procs s ! c) + 1 <s TIME_SLICE_LEN"
  shows "\<exists>t. (smode_trap_handler :: 'a K) s = Inl (To_user t) \<and> current t = Some c \<and> g_ticks t = g_ticks s + 1 \<and>
    sepc (csr t) = sepc (csr s) \<and> uregs t = map (\<lambda>k. mem s (trapframe (procs s ! c) + TF_REG k)) [0..<31] \<and>
    (\<forall>a. page_of a \<noteq> trapframe (procs s ! c) \<longrightarrow> mem t a = mem s a)"
proof -
  let ?tf = "trapframe (procs s ! c)"
  let ?u = "upd_proc c (\<lambda>p. p\<lparr>tick_count := tick_count p + 1, total_tick_count := total_tick_count p + 1\<rparr>)
    (s\<lparr>mem := (mem s)(?tf + 264 := sepc (csr s)), g_ticks := g_ticks s + 1,
      csr := (csr s)\<lparr>sip := sip (csr s) AND NOT SIP_SSIP\<rparr>\<rparr>)"
  have "mem_ok s (?tf + 264)" "aligned 8 (?tf + 264)"
    using assms(3) by (auto intro: page_off_mem_ok page_off_aligned)
  then have h: "(smode_trap_handler :: 'a K) s = switch_to (Some c) ?u"
    using assms
    by (simp add: smode_trap_handler_def assert_current_def cur_proc_def handle_mtimer_trap_def rrsched_def
        cur_index_def set_proc_def the_proc_def kdefs mem_eqs upd_proc_def signed.not_less [symmetric])
  have u: "trapframe (procs ?u ! c) = ?tf" "page_ok ?u = page_ok s"
    using assms(2) by (simp_all add: upd_proc_def)
  have "?tf + TF_REG k \<noteq> ?tf + 264" if "k < 31" for k
    using TF_REG_neq [OF that, of 264] by simp
  then have r: "map (\<lambda>k. mem ?u (?tf + TF_REG k)) [0..<31] = map (\<lambda>k. mem s (?tf + TF_REG k)) [0..<31]"
    by (intro map_cong [OF refl]) (simp add: upd_proc_def)
  from assms(3) obtain t where "(switch_to (Some c) :: 'a K) ?u = Inl (To_user t)" "current t = Some c"
      "g_ticks t = g_ticks ?u" "sepc (csr t) = mem ?u (?tf + 264)"
      "uregs t = map (\<lambda>k. mem ?u (?tf + TF_REG k)) [0..<31]" "\<forall>a. page_of a \<noteq> ?tf \<longrightarrow> mem t a = mem ?u a"
    using switch_to_leaves [of ?u c] unfolding u by blast
  moreover have "page_of (?tf + 264) = ?tf" using page_of_off [OF assms(3), of 264] by simp
  then have "mem ?u a = mem s a" if "page_of a \<noteq> ?tf" for a using that by (auto simp: upd_proc_def)
  moreover have "g_ticks ?u = g_ticks s + 1" "mem ?u (?tf + 264) = sepc (csr s)" by (simp_all add: upd_proc_def)
  ultimately show ?thesis unfolding h r by auto
qed

lemma tick_eq:
  assumes "current s = Some c" and "c < length (procs s)" and "page_ok s (trapframe (procs s ! c))"
    and "sscratch (csr s) = trapframe (procs s ! c)"
    and "mem s (trapframe (procs s ! c) + 256) = sym_smode_trap_handler (kenv s)"
    and "tick_count (procs s ! c) + 1 <s TIME_SLICE_LEN" and "st AND SSTATUS_SPP = 0" and "length rs = 31"
  shows "\<exists>t. (smode_trap_vector rs :: unit K) (enter_trap st CAUSE_MTIMER_S_TRAP pc tv s) = Inl (To_user t) \<and>
    uregs t = rs[REG_T6 := trapframe (procs s ! c)] \<and> sepc (csr t) = pc \<and> current t = Some c \<and>
    g_ticks t = g_ticks s + 1 \<and> (\<forall>a. page_of a \<noteq> trapframe (procs s ! c) \<longrightarrow> mem t a = mem s a)"
proof -
  let ?tf = "trapframe (procs s ! c)"
  let ?s = "enter_trap st CAUSE_MTIMER_S_TRAP pc tv s"
  let ?u = "?s\<lparr>mem := saved ?tf rs (mem s), csr := (csr ?s)\<lparr>sscratch := rs ! REG_A0, satp := mem s (?tf + 272)\<rparr>\<rparr>"
  have "(smode_trap_vector rs :: unit K) ?s = smode_trap_handler ?u"
    using trap_vector_enters [of ?s rs, where 'a = unit] assms(3-5) by (simp add: enter_trap_def)
  moreover obtain t where "(smode_trap_handler :: unit K) ?u = Inl (To_user t)" "current t = Some c"
      "g_ticks t = g_ticks ?u + 1" "sepc (csr t) = sepc (csr ?u)"
      "uregs t = map (\<lambda>k. mem ?u (?tf + TF_REG k)) [0..<31]" "\<forall>a. page_of a \<noteq> ?tf \<longrightarrow> mem t a = mem ?u a"
    using tick_handled [of ?u c, where 'a = unit] assms by (auto simp: enter_trap_def simp del: upt_rec_numeral)
  ultimately show ?thesis
    using saved_regs [OF assms(8), of ?tf "mem s"] saved_outside [OF assms(3), where m = "mem s"]
    by (auto simp: enter_trap_def simp del: upt_rec_numeral)
qed

section \<open>Counting processes\<close>

definition with_status :: "kstate \<Rightarrow> proc_status \<Rightarrow> nat set" where
  "with_status s st = {i. i < NPROC \<and> status (procs s ! i) = st}"

definition tasks :: "kstate \<Rightarrow> nat set" where
  "tasks s = {i. i < NPROC \<and> status (procs s ! i) \<noteq> FREE}"

lemma status_num_inject [simp]: "status_num st = status_num st' \<longleftrightarrow> st = st'"
  by (cases st; cases st') simp_all

lemma status_num_bounds: "st \<noteq> FREE \<Longrightarrow> 0 < status_num st" "status_num st < 5"
  by (cases st; simp)+

text \<open>The array after the first \<open>n\<close> rounds.\<close>

lemma count_procs:
  assumes "nprocs = fold (count_proc s) [0..<n] (replicate 5 0)"
  shows "length nprocs = 5 \<and> nprocs ! 0 = of_nat (card {i. i < n \<and> status (procs s ! i) \<noteq> FREE}) \<and>
    (\<forall>st. st \<noteq> FREE \<longrightarrow> nprocs ! status_num st = of_nat (card {i. i < n \<and> status (procs s ! i) = st}))"
  using assms
proof (induction n arbitrary: nprocs)
  case 0
  then show ?case by (simp add: status_num_bounds(2))
next
  case (Suc n)
  define np where "np = fold (count_proc s) [0..<n] (replicate 5 0)"
  note IH = Suc.IH [OF np_def]
  have step: "nprocs = count_proc s n np" using Suc.prems np_def by simp
  have more: "{i. i < Suc n \<and> P i} = (if P n then insert n {i. i < n \<and> P i} else {i. i < n \<and> P i})" for P
    by (auto simp: less_Suc_eq)
  show ?case
    using IH status_num_bounds [of "status (procs s ! n)"] status_num_bounds(1)
    unfolding step count_proc_def Let_def more
    by (auto simp: nth_list_update)
qed

lemma print_procs:
  "fold (print_proc s) is out = out @ map (\<lambda>i. proc_line (procs s ! i)) (filter (\<lambda>i. status (procs s ! i) \<noteq> FREE) is)"
  by (induction "is" arbitrary: out) (simp_all add: print_proc_def)

lemma kernel_inv_statuses:
  assumes "kernel_inv s"
  shows "with_status s RUNNING = {}" and "with_status s BLOCKED = {}" and "with_status s READY \<noteq> {}"
proof -
  have "\<forall>i < NPROC. status (procs s ! i) \<in> {FREE, READY, ZOMBIE}" "\<exists>i < NPROC. status (procs s ! i) = READY"
    using assms by (auto simp: kernel_inv_but_def pool_inv_def proc_ok_def queue_inv_def simp del: NPROC_def)
  then show "with_status s RUNNING = {}" "with_status s BLOCKED = {}" "with_status s READY \<noteq> {}"
    unfolding with_status_def by auto
qed

lemma tasks_split: "tasks s = with_status s READY \<union> with_status s RUNNING \<union> with_status s BLOCKED \<union> with_status s ZOMBIE"
proof -
  have "st \<noteq> FREE \<longleftrightarrow> st = READY \<or> st = RUNNING \<or> st = BLOCKED \<or> st = ZOMBIE" for st
    by (cases st) simp_all
  then show ?thesis unfolding tasks_def with_status_def by blast
qed

section \<open>Properties\<close>

text \<open>Process 0 running and process 1 in the queue, for the examples.\<close>

definition run_state :: kstate where
  "run_state = two_procs\<lparr>procs := (map (\<lambda>i. zero_process\<lparr>pid := of_nat i\<rparr>) [0..<NPROC])
      [0 := zero_process\<lparr>status := READY, trapframe := 0x8001c000\<rparr>,
       1 := zero_process\<lparr>status := READY, trapframe := 0x8001d000, pid := 1\<rparr>],
     csr := (csr two_procs)\<lparr>sscratch := 0x8001c000\<rparr>,
     mem := (\<lambda>_. 0)(0x8001c100 := sym_smode_trap_handler sample_env)\<rparr>"

lemma two_procs_current: "current two_procs = Some 0"
  by (simp add: two_procs_def)

lemma run_procs:
  "i < NPROC \<Longrightarrow> procs run_state ! i = (if i = 0 then zero_process\<lparr>status := READY, trapframe := 0x8001c000\<rparr>
     else if i = 1 then zero_process\<lparr>status := READY, trapframe := 0x8001d000, pid := 1\<rparr>
     else zero_process\<lparr>pid := of_nat i\<rparr>)"
  by (simp add: run_state_def nth_list_update del: NPROC_def)

lemma run_fields [simp]: "length (procs run_state) = NPROC" "current run_state = Some 0"
  "ready_queue_head run_state = Some 1" "csr run_state = (csr two_procs)\<lparr>sscratch := 0x8001c000\<rparr>"
  "mem run_state = (\<lambda>_. 0)(0x8001c100 := sym_smode_trap_handler sample_env)"
  "kenv run_state = sample_env"
  by (simp_all add: run_state_def two_procs_def initial_kstate_def del: NPROC_def)

lemma run_proc0: "procs run_state ! 0 = zero_process\<lparr>status := READY, trapframe := 0x8001c000\<rparr>"
  using run_procs [of 0] by simp

lemma run_page_ok: "page_ok run_state 0x8001c000" "page_ok run_state 0x8001d000"
  by (simp_all add: page_ok_def run_state_def two_procs_def aligned_def)

lemma run_tick: "\<exists>t. (smode_trap_vector (replicate 31 7) :: unit K)
    (enter_trap 0 CAUSE_MTIMER_S_TRAP 0x10000 0 run_state) = Inl (To_user t) \<and> g_ticks t = g_ticks run_state + 1"
  using tick_eq [of run_state 0 0 "replicate 31 7" "0x10000" 0] run_page_ok(1)
  by (auto simp: run_proc0 zero_process_def word_sless_alt)

lemma run_queue: "queue_inv {} run_state [1] 0"
  by (auto simp: queue_inv_def queued_def ready_queue_def run_procs live_def zero_process_def)

lemma run_kernel_inv: "kernel_inv run_state"
  unfolding kernel_inv_but_def pool_inv_def
  by (intro conjI exI, rule run_fields) (auto simp: run_procs proc_ok_def zero_process_def intro!: run_queue)




text \<open>
  C6: a tick that does not use up the time slice is invisible to the user program. The
  kernel returns to the same process, at the instruction it was interrupted at, with the
  registers it had and no memory outside the trapframe changed; only register t6 is lost:
  the vector overwrites it with the address of the trapframe before it is saved.
\<close>

theorem tick_is_transparent:
  assumes "current s = Some c" and "c < length (procs s)" and "page_ok s (trapframe (procs s ! c))"
    and "sscratch (csr s) = trapframe (procs s ! c)"
    and "mem s (trapframe (procs s ! c) + 256) = sym_smode_trap_handler (kenv s)"
    and "tick_count (procs s ! c) + 1 <s TIME_SLICE_LEN" and "st AND SSTATUS_SPP = 0" and "length rs = 31"
  shows "\<exists>t. (smode_trap_vector rs :: unit K) (enter_trap st CAUSE_MTIMER_S_TRAP pc tv s) = Inl (To_user t) \<and>
    uregs t = rs[REG_T6 := trapframe (procs s ! c)] \<and> sepc (csr t) = pc \<and> current t = Some c \<and>
    g_ticks t = g_ticks s + 1 \<and> (\<forall>a. page_of a \<noteq> trapframe (procs s ! c) \<longrightarrow> mem t a = mem s a)"
  using assms by (rule tick_eq)

theorem tick_is_transparent_witness:
  "\<exists>t. (smode_trap_vector (replicate 31 7) :: unit K) (enter_trap 0 CAUSE_MTIMER_S_TRAP 0x10000 0 run_state) =
     Inl (To_user t) \<and> uregs t = (replicate 31 7)[REG_T6 := 0x8001c000]"
  using tick_is_transparent [of run_state 0 0 "replicate 31 7" "0x10000" 0] run_page_ok(1)
  by (auto simp: run_proc0 zero_process_def word_sless_alt)



text \<open>
  C15: processes that yield run in turn. When all live processes have a valid trapframe, \<open>n\<close>
  calls of \<^verbatim>\<open>sys_user_yield\<close>, each made by the process then running, all succeed, and the
  process that runs afterwards is the \<open>n\<close>-th after the first in the order of the queue, so
  each gets the processor once in as many turns as there are processes.
\<close>

theorem yield_round_robin:
  assumes "queued s q" and "current s = Some c" and "c \<notin> set q" and "\<forall>i \<in> set (c # q). runnable s i"
  shows "\<exists>t. rounds sys_user_yield n s = Some t \<and> current t = Some ((c # q) ! (n mod length (c # q)))"
proof -
  obtain t p q' where t: "rounds sys_user_yield n s = Some t" "current t = Some p" "p # q' = rotate n (c # q)"
    using rq.round_robin [OF assms, of sys_user_yield n]
    by (auto simp: sys_user_yield_def cur_index_def kdefs)
  then have "p = hd (rotate n (c # q))" by (metis list.sel(1))
  then have "p = (c # q) ! (n mod length (c # q))" by (simp add: hd_rotate_conv_nth)
  with t show ?thesis by auto
qed

theorem yield_round_robin_witness:
  "\<exists>t. rounds sys_user_yield 3 two_procs = Some t \<and> current t = Some 1"
proof -
  have "[0, 1] ! (3 mod length [0, 1 :: nat]) = (1 :: nat)" by code_simp
  with yield_round_robin [OF two_procs_queued, of 0 3] two_procs_runnable two_procs_current
  show ?thesis by auto
qed

text \<open>
  C33: the report of \<^verbatim>\<open>do_getinfo\<close> is right about the process table, except that nobody is
  ever seen running. The first number is that of the processes in use, the others those of
  the processes in each state, and one line follows for each process in use, in the order
  of the table, with its number, the letter of its state, its memory in KiB and its ticks.
  The state is not changed. In a state with the kernel's invariant no process is counted
  as running or blocked, the caller itself being counted as ready, and ready processes and
  zombies together are all there are.
\<close>

theorem getinfo_counts:
  assumes "kernel_inv s"
  shows "do_getinfo s = Inr ((1,
      [(''top - '' @ nl, []),
       (''Tasks: %d total, %d ready, %d running, %d blocked, %d zombie'' @ nl,
        map of_nat [card (tasks s), card (with_status s READY), 0, 0, card (with_status s ZOMBIE)]),
       (''Cpu(s): %d ticks'' @ nl, [g_ticks s]),
       (''KiB Mem: %d'' @ nl, [drop_bit 10 (g_mem_size s)]),
       (nl @ ''PID'' @ tab @ ''S'' @ tab @ ''MEM'' @ tab @ ''TICK'' @ nl, [])] @
      map (\<lambda>i. proc_line (procs s ! i)) (sorted_list_of_set (tasks s))), s) \<and>
    card (tasks s) = card (with_status s READY) + card (with_status s ZOMBIE) \<and> 0 < card (with_status s READY)"
proof -
  note st = kernel_inv_statuses [OF assms]
  define np where "np = fold (count_proc s) [0..<NPROC] (replicate 5 0)"
  have c: "card (with_status s st) \<le> NPROC" "card (tasks s) \<le> NPROC" for st
    unfolding with_status_def tasks_def by (auto intro!: card_mono [of "{..<NPROC}", simplified card_lessThan] simp del: NPROC_def)
  then have small: "scast (of_nat (card (with_status s st)) :: i32) = (of_nat (card (with_status s st)) :: u64)"
      "scast (of_nat (card (tasks s)) :: i32) = (of_nat (card (tasks s)) :: u64)" for st
    by (intro scast_small le_less_trans [OF c(1)] le_less_trans [OF c(2)]; simp)+
  have np: "np ! 0 = of_nat (card (tasks s))" "st \<noteq> FREE \<Longrightarrow> np ! status_num st = of_nat (card (with_status s st))" for st
    using count_procs [OF np_def] unfolding tasks_def with_status_def by blast+
  have "sorted_list_of_set (tasks s) = filter (\<lambda>i. status (procs s ! i) \<noteq> FREE) [0..<NPROC]"
    by (rule sym, rule sorted_distinct_set_unique)
       (auto simp: tasks_def sorted_filter [of id, simplified] simp del: NPROC_def)
  then have "do_getinfo s = Inr ((1,
      [(''top - '' @ nl, []),
       (''Tasks: %d total, %d ready, %d running, %d blocked, %d zombie'' @ nl,
        map of_nat [card (tasks s), card (with_status s READY), 0, 0, card (with_status s ZOMBIE)]),
       (''Cpu(s): %d ticks'' @ nl, [g_ticks s]),
       (''KiB Mem: %d'' @ nl, [drop_bit 10 (g_mem_size s)]),
       (nl @ ''PID'' @ tab @ ''S'' @ tab @ ''MEM'' @ tab @ ''TICK'' @ nl, [])] @
      map (\<lambda>i. proc_line (procs s ! i)) (sorted_list_of_set (tasks s))), s)"
    using small st(1,2)
    by (simp add: do_getinfo_def kdefs np_def [symmetric] np print_procs del: NPROC_def status_num.simps upt_rec_numeral)
  moreover have "card (tasks s) = card (with_status s READY) + card (with_status s ZOMBIE)"
    unfolding tasks_split st(1,2) Un_empty_right
    by (rule card_Un_disjoint) (auto simp: with_status_def)
  moreover have "0 < card (with_status s READY)"
    using st(3) by (simp add: card_gt_0_iff) (simp add: with_status_def)
  ultimately show ?thesis by blast
qed

theorem getinfo_counts_witness:
  "do_getinfo run_state = Inr ((1,
      [(''top - '' @ nl, []),
       (''Tasks: %d total, %d ready, %d running, %d blocked, %d zombie'' @ nl, [2, 2, 0, 0, 0]),
       (''Cpu(s): %d ticks'' @ nl, [0]),
       (''KiB Mem: %d'' @ nl, [144]),
       (nl @ ''PID'' @ tab @ ''S'' @ tab @ ''MEM'' @ tab @ ''TICK'' @ nl, []),
       (''%d'' @ tab @ ''%c'' @ tab @ ''%d'' @ tab @ ''%d'' @ nl, [0, 83, 0, 0]),
       (''%d'' @ tab @ ''%c'' @ tab @ ''%d'' @ tab @ ''%d'' @ nl, [1, 83, 0, 0])]), run_state)"
proof -
  have t: "tasks run_state = {0, 1}" "with_status run_state READY = {0, 1}" "with_status run_state ZOMBIE = {}"
    by (auto simp: tasks_def with_status_def run_procs zero_process_def split: if_splits simp del: NPROC_def)
       (simp_all add: run_procs zero_process_def)
  have "g_ticks run_state = 0" "g_mem_size run_state = 0x24000"
    by (simp_all add: run_state_def two_procs_def initial_kstate_def)
  moreover have "proc_line (procs run_state ! i) = (''%d'' @ tab @ ''%c'' @ tab @ ''%d'' @ tab @ ''%d'' @ nl, [of_nat i, 83, 0, 0])"
    if "i \<in> {0, 1}" for i
    using that by (auto simp: run_procs proc_line_def zero_process_def stat_char_def)
  ultimately show ?thesis
    using getinfo_counts [OF run_kernel_inv] unfolding t by simp
qed

end
