(* ===== verification/PKE_User.thy ===== *)
theory PKE_User
  imports PKE_Syscall
begin

text \<open>
  The user library \<^verbatim>\<open>user/user_lib.c\<close>. A user program works on its own memory, bytes at
  virtual addresses, and on a world it reaches by the \<^verbatim>\<open>ecall\<close> instruction only. What happens
  between the instruction and its return is the business of the kernel and of the other
  processes: a parameter \<open>ecall\<close>, which from the eight argument registers gives the value of
  a0 and the memory and the world afterwards, or \<open>None\<close> when control does not come back
  (a successful \<^verbatim>\<open>exec\<close>).

  The monad is that of the kernel; here \<open>Shutdown c\<close> is the end of the program with exit
  code \<open>c\<close>, \<open>To_user\<close> a call that does not come back, and \<open>Spins\<close> a loop that has used up its
  fuel.
\<close>

section \<open>User memory\<close>

record 'w ustate =
  umem :: "u64 \<Rightarrow> u8"
  world :: 'w

type_synonym ('w, 'a) U = "('w ustate, 'a) km"
type_synonym 'w ecall = "u64 list \<Rightarrow> 'w ustate \<Rightarrow> (u64 \<times> 'w ustate) option"

text \<open>The C string at an address; \<open>None\<close> when there is no terminator.\<close>

partial_function (option) ucstr :: "(u64 \<Rightarrow> u8) \<Rightarrow> u64 \<Rightarrow> u8 list option" where
  "ucstr m a = (if m a = 0 then Some [] else Option.bind (ucstr m (a + 1)) (\<lambda>bs. Some (m a # bs)))"

declare ucstr.simps [code]

definition ubytes :: "(u64 \<Rightarrow> u8) \<Rightarrow> u64 \<Rightarrow> nat \<Rightarrow> u8 list" where
  "ubytes m a n = map (\<lambda>i. m (a + of_nat i)) [0..<n]"

fun put_bytes :: "u64 \<Rightarrow> u8 list \<Rightarrow> (u64 \<Rightarrow> u8) \<Rightarrow> (u64 \<Rightarrow> u8)" where
  "put_bytes a [] m = m"
| "put_bytes a (b # bs) m = put_bytes (a + 1) bs (m(a := b))"

text \<open>Words of eight bytes, the least significant byte first.\<close>

fun of_bytes :: "u8 list \<Rightarrow> u64" where
  "of_bytes [] = 0"
| "of_bytes (b # bs) = ucast b OR push_bit 8 (of_bytes bs)"

fun to_bytes :: "nat \<Rightarrow> u64 \<Rightarrow> u8 list" where
  "to_bytes 0 v = []"
| "to_bytes (Suc n) v = ucast v # to_bytes n (drop_bit 8 v)"

definition uload64 :: "(u64 \<Rightarrow> u8) \<Rightarrow> u64 \<Rightarrow> u64" where
  "uload64 m a = of_bytes (ubytes m a 8)"

definition ustore64 :: "u64 \<Rightarrow> u64 \<Rightarrow> (u64 \<Rightarrow> u8) \<Rightarrow> (u64 \<Rightarrow> u8)" where
  "ustore64 a v = put_bytes a (to_bytes 8 v)"

section \<open>System call stubs\<close>

text \<open>The result is stored and read back as a 32-bit integer.\<close>

definition do_user_call :: "'w ecall \<Rightarrow> u64 \<Rightarrow> u64 list \<Rightarrow> ('w, u64) U" where
  "do_user_call ecall sysnum args s = (case ecall (sysnum # args) s of
     None \<Rightarrow> Inl (To_user s)
   | Some (r, t) \<Rightarrow> Inr (scast (ucast r :: i32), t))"

text \<open>
  \<^verbatim>\<open>printu\<close> formats into a local array at \<open>out\<close>; the format and the arguments are given, the
  strings among them are read from the program's memory.
\<close>

definition printu :: "'w ecall \<Rightarrow> u64 \<Rightarrow> string \<Rightarrow> u64 list \<Rightarrow> ('w, i32) U" where
  "printu ecall out fmt vl =
     kbind (kget (\<lambda>s. vsnprintf (ucstr (umem s)) (ubytes (umem s) out 256) (map of_char fmt) vl)) (\<lambda>r. case r of
       None \<Rightarrow> kexits (Undef ''va_arg'')
     | Some (buf, res) \<Rightarrow>
         kthen (kmod (\<lambda>s. s\<lparr>umem := put_bytes out buf (umem s)\<rparr>))
        (kbind (do_user_call ecall SYS_user_print
           [out, if (scast res :: u64) < 256 then scast res else 256, 0, 0, 0, 0, 0]) (\<lambda>r. kret (ucast r))))"

text \<open>
  The kernel does not return from this call, because the process is a zombie and never runs
  again; were it to return, the rest of the program would be outside the model.
\<close>

definition exit :: "'w ecall \<Rightarrow> i32 \<Rightarrow> ('w, 'a) U" where
  "exit ecall code s = (case ecall [SYS_user_exit, scast code, 0, 0, 0, 0, 0, 0] s of
     None \<Rightarrow> Inl (Shutdown (sint code))
   | Some _ \<Rightarrow> Inl (Undef ''exit returned''))"

definition naive_malloc :: "'w ecall \<Rightarrow> ('w, u64) U" where
  "naive_malloc ecall = do_user_call ecall SYS_user_allocate_page [0, 0, 0, 0, 0, 0, 0]"

definition naive_free :: "'w ecall \<Rightarrow> u64 \<Rightarrow> ('w, unit) U" where
  "naive_free ecall va = kbind (do_user_call ecall SYS_user_free_page [va, 0, 0, 0, 0, 0, 0]) (\<lambda>_. kret ())"

definition fork :: "'w ecall \<Rightarrow> ('w, i32) U" where
  "fork ecall = kbind (do_user_call ecall SYS_user_fork [0, 0, 0, 0, 0, 0, 0]) (\<lambda>r. kret (ucast r))"

definition yield :: "'w ecall \<Rightarrow> ('w, unit) U" where
  "yield ecall = kbind (do_user_call ecall SYS_user_yield [0, 0, 0, 0, 0, 0, 0]) (\<lambda>_. kret ())"

text \<open>\<^verbatim>\<open>wait\<close> asks again, after giving up the processor, as long as the kernel answers -2.\<close>

fun wait :: "nat \<Rightarrow> 'w ecall \<Rightarrow> i32 \<Rightarrow> ('w, i32) U" where
  "wait 0 ecall p = kexits Spins"
| "wait (Suc n) ecall p =
     kbind (do_user_call ecall SYS_user_wait [scast p, 0, 0, 0, 0, 0, 0]) (\<lambda>r.
       if ucast r = (- 2 :: i32) then kthen (yield ecall) (wait n ecall p) else kret (ucast r))"

definition getlineu :: "'w ecall \<Rightarrow> u64 \<Rightarrow> i32 \<Rightarrow> ('w, i32) U" where
  "getlineu ecall dst sz = kbind (do_user_call ecall SYS_user_getline [dst, scast sz, 0, 0, 0, 0, 0]) (\<lambda>r. kret (ucast r))"

definition uexec :: "'w ecall \<Rightarrow> u64 \<Rightarrow> u64 \<Rightarrow> ('w, i32) U" where
  "uexec ecall path argv = kbind (do_user_call ecall SYS_user_exec [path, argv, 0, 0, 0, 0, 0]) (\<lambda>r. kret (ucast r))"

definition uopen :: "'w ecall \<Rightarrow> u64 \<Rightarrow> i32 \<Rightarrow> ('w, i32) U" where
  "uopen ecall path flags = kbind (do_user_call ecall SYS_user_open [path, scast flags, 0, 0, 0, 0, 0]) (\<lambda>r. kret (ucast r))"

definition uread :: "'w ecall \<Rightarrow> i32 \<Rightarrow> u64 \<Rightarrow> u64 \<Rightarrow> ('w, i32) U" where
  "uread ecall fd buf count = kbind (do_user_call ecall SYS_user_read [scast fd, buf, count, 0, 0, 0, 0]) (\<lambda>r. kret (ucast r))"

definition uwrite :: "'w ecall \<Rightarrow> i32 \<Rightarrow> u64 \<Rightarrow> u64 \<Rightarrow> ('w, i32) U" where
  "uwrite ecall fd buf count = kbind (do_user_call ecall SYS_user_write [scast fd, buf, count, 0, 0, 0, 0]) (\<lambda>r. kret (ucast r))"

definition uclose :: "'w ecall \<Rightarrow> i32 \<Rightarrow> ('w, i32) U" where
  "uclose ecall fd = kbind (do_user_call ecall SYS_user_close [scast fd, 0, 0, 0, 0, 0, 0]) (\<lambda>r. kret (ucast r))"

definition getinfo :: "'w ecall \<Rightarrow> ('w, i32) U" where
  "getinfo ecall = kbind (do_user_call ecall SYS_user_getinfo [0, 0, 0, 0, 0, 0, 0]) (\<lambda>r. kret (ucast r))"

section \<open>The demonstration programs\<close>

text \<open>
  \<^verbatim>\<open>main\<close> of \<^verbatim>\<open>echo.c\<close>, \<^verbatim>\<open>cat.c\<close>, \<^verbatim>\<open>touch.c\<close>, \<^verbatim>\<open>createproc.c\<close>, \<^verbatim>\<open>top.c\<close> and \<^verbatim>\<open>app_shell.c\<close>. \<open>argv\<close> is
  the list of the argument pointers, its length \<^verbatim>\<open>argc\<close>; \<open>lit\<close> gives the addresses of the
  string literals that are passed by pointer, and \<open>out\<close> and \<open>buf\<close> are local arrays.
\<close>

definition echo_main :: "'w ecall \<Rightarrow> u64 \<Rightarrow> (string \<Rightarrow> u64) \<Rightarrow> u64 list \<Rightarrow> ('w, i32) U" where
  "echo_main ecall out lit argv =
     kthen (printu ecall out ''===== echo =====\<newline>'' [])
    (kthen (kfor [1..<length argv] (\<lambda>i.
        kbind (printu ecall out ''%s%s'' [argv ! i, lit (if i = length argv - 1 then ''\<newline>'' else '' '')]) (\<lambda>_. kret ())))
       (exit ecall 0))"

definition cat_main :: "'w ecall \<Rightarrow> u64 \<Rightarrow> u64 \<Rightarrow> u64 list \<Rightarrow> ('w, i32) U" where
  "cat_main ecall out buf argv =
     kthen (printu ecall out ''===== cat =====\<newline>'' [])
    (kthen (if length argv \<le> 1 then kthen (printu ecall out ''Too few arguments. \<newline>'' []) (exit ecall 0) else kret ())
    (kthen (kfor [1..<length argv] (\<lambda>i.
        kbind (uopen ecall (argv ! i) 0) (\<lambda>fd.
        kthen (if fd <s 0 then kthen (printu ecall out ''cat: cannot open file %s\<newline>'' [argv ! i]) (exit ecall 0) else kret ())
       (kbind (uread ecall fd buf 512) (\<lambda>n.
        kthen (uwrite ecall 1 buf (scast n))
       (kbind (uclose ecall fd) (\<lambda>_. kret ())))))))
       (exit ecall 0)))"

definition touch_main :: "'w ecall \<Rightarrow> u64 \<Rightarrow> u64 list \<Rightarrow> ('w, i32) U" where
  "touch_main ecall out argv =
     kthen (printu ecall out ''===== touch =====\<newline>'' [])
    (kthen (if length argv \<le> 1 then kthen (printu ecall out ''Too few arguments. \<newline>'' []) (exit ecall 0) else kret ())
       (exit ecall 0))"

definition top_main :: "'w ecall \<Rightarrow> u64 \<Rightarrow> ('w, i32) U" where
  "top_main ecall out =
     kthen (printu ecall out ''===== top =====\<newline>'' [])
    (kthen (getinfo ecall)
       (exit ecall 0))"

text \<open>The number \<^verbatim>\<open>atol\<close> reads from the second argument; its 64 bits are the third argument register of \<^verbatim>\<open>printu\<close>.\<close>

fun atol_value :: "u8 list \<Rightarrow> u64 \<Rightarrow> u64" where
  "atol_value [] res = res"
| "atol_value (c # cs) res = atol_value cs (res * 10 + (ucast c - 48))"

definition uatol :: "u8 list \<Rightarrow> u64" where
  "uatol bs =
     (let bs' = dropWhile (\<lambda>c. c = 32) bs in
      case bs' of
        c # cs \<Rightarrow> if c = 45 then - atol_value cs 0 else if c = 43 then atol_value cs 0 else atol_value bs' 0
      | [] \<Rightarrow> 0)"

fun create_procs :: "nat \<Rightarrow> 'w ecall \<Rightarrow> i32 \<Rightarrow> u64 \<Rightarrow> ('w, unit) U" where
  "create_procs 0 ecall i nproc = kexits Spins"
| "create_procs (Suc n) ecall i nproc =
     (if (scast i :: u64) <s nproc
      then kbind (fork ecall) (\<lambda>rc. if rc = 0 then exit ecall 0 else create_procs n ecall (i + 1) nproc)
      else kret ())"

definition createproc_main :: "nat \<Rightarrow> 'w ecall \<Rightarrow> u64 \<Rightarrow> u64 list \<Rightarrow> ('w, i32) U" where
  "createproc_main n ecall out argv =
     kthen (printu ecall out ''===== createproc =====\<newline>'' [])
    (kbind (if length argv \<le> 1 then kret 2
       else kbind (kget (\<lambda>s. ucstr (umem s) (argv ! 1))) (\<lambda>r. case r of
         None \<Rightarrow> kexits Spins
       | Some bs \<Rightarrow> kret (uatol bs))) (\<lambda>nproc.
     kthen (printu ecall out ''Will create %d process(s)...\<newline>'' [nproc])
    (kthen (create_procs n ecall 0 nproc)
       (exit ecall 0))))"

definition app_shell_main :: "'w ecall \<Rightarrow> u64 \<Rightarrow> (string \<Rightarrow> u64) \<Rightarrow> ('w, i32) U" where
  "app_shell_main ecall out lit =
     kbind (uopen ecall (lit ''1.txt'') 0) (\<lambda>_.
     kbind (uopen ecall (lit ''ramdisk0:/ramfile'') 0) (\<lambda>_.
     kthen (printu ecall out ''open success\<newline>'' [])
       (exit ecall 0)))"

section \<open>Reading back what was written\<close>

lemma of_bytes_to_bytes: "of_bytes (to_bytes n v) = take_bit (8 * n) v"
proof (induction n arbitrary: v)
  case (Suc n)
  show ?case
    by (rule bit_word_eqI)
       (auto simp: Suc bit_or_iff bit_push_bit_iff bit_take_bit_iff bit_drop_bit_eq bit_ucast_iff bit_imp_le_length)
qed simp

lemma length_to_bytes [simp]: "length (to_bytes n v) = n"
  by (induction n arbitrary: v) auto

definition within :: "u64 \<Rightarrow> nat \<Rightarrow> u64 \<Rightarrow> bool" where
  "within a n x \<longleftrightarrow> unat (x - a) < n"

lemma put_bytes_apply:
  "length bs < 2 ^ 64 \<Longrightarrow>
   put_bytes a bs m x = (if within a (length bs) x then bs ! unat (x - a) else m x)"
proof (induction bs arbitrary: a m)
  case (Cons b bs)
  have step: "unat (x - a) = Suc (unat (x - (a + 1)))" if "x \<noteq> a"
  proof -
    have eq: "x - (a + 1) = (x - a) - 1" by simp
    have "0 < unat (x - a)" using that by (simp add: unat_gt_0)
    then have "unat ((x - a) - 1) = unat (x - a) - 1" by (simp add: unat_sub word_le_nat_alt)
    with \<open>0 < unat (x - a)\<close> show ?thesis unfolding eq by linarith
  qed
  have "x - (a + 1) = - 1" if "x = a" using that by simp
  moreover have "unat (- 1 :: u64) = 2 ^ 64 - 1" by (simp add: unsigned_minus_1_eq_mask mask_eq_exp_minus_1)
  ultimately show ?case
    using Cons step by (cases "x = a") (auto simp: within_def)
qed (simp add: within_def)

lemma unat_of_nat64: "n < 2 ^ 64 \<Longrightarrow> unat (of_nat n :: u64) = n"
  by (simp add: unsigned_of_nat take_bit_nat_eq_self)

lemma ubytes_put_bytes: "length bs < 2 ^ 64 \<Longrightarrow> n = length bs \<Longrightarrow> ubytes (put_bytes a bs m) a n = bs"
  by (rule nth_equalityI) (auto simp: ubytes_def put_bytes_apply within_def unat_of_nat64)

lemma uload64_ustore64: "uload64 (ustore64 a v m) a = v"
proof -
  have "take_bit LENGTH(64) v = v" by (rule take_bit_length_eq)
  then show ?thesis by (simp add: uload64_def ustore64_def ubytes_put_bytes of_bytes_to_bytes)
qed

lemma ustore64_apply_other: "\<not> within a 8 x \<Longrightarrow> ustore64 a v m x = m x"
  by (simp add: ustore64_def put_bytes_apply)

lemma uload64_cong: "(\<And>x. within a 8 x \<Longrightarrow> m x = m' x) \<Longrightarrow> uload64 m a = uload64 m' a"
  by (auto simp: uload64_def ubytes_def within_def unat_of_nat64 intro!: arg_cong [where f = of_bytes])

end
