(* ===== verification/PKE_Usys.thy ===== *)
theory PKE_Usys
  imports PKE_Machine PKE_User
begin

text \<open>
  System calls from the program's side of the \<^verbatim>\<open>ecall\<close> instruction: what a program finds in its
  registers when the kernel comes back, and the user library's \<^verbatim>\<open>wait\<close> run on the kernel.
\<close>

section \<open>The calling convention\<close>

text \<open>The kernel is ready to be entered by the current process.\<close>

definition trap_ready :: "kstate \<Rightarrow> nat \<Rightarrow> bool" where
  "trap_ready s c \<longleftrightarrow> current s = Some c \<and> c < length (procs s) \<and> page_ok s (trapframe (procs s ! c)) \<and>
     sscratch (csr s) = trapframe (procs s ! c) \<and>
     mem s (trapframe (procs s ! c) + 256) = sym_smode_trap_handler (kenv s)"

text \<open>The state in which \<^verbatim>\<open>handle_syscall\<close> calls the dispatcher.\<close>

definition syscall_entry :: "regs \<Rightarrow> u64 \<Rightarrow> u64 \<Rightarrow> u64 \<Rightarrow> kstate \<Rightarrow> kstate" where
  "syscall_entry rs st pc tv s =
     (let tf = sscratch (csr s) in
      (enter_trap st CAUSE_USER_ECALL pc tv s)\<lparr>
        mem := (saved tf rs (mem s))(tf + TF_EPC := pc + 4),
        csr := (csr (enter_trap st CAUSE_USER_ECALL pc tv s))\<lparr>sscratch := rs ! REG_A0, satp := mem s (tf + 272)\<rparr>\<rparr>)"

lemma syscall_entry_fields [simp]:
  "procs (syscall_entry rs st pc tv s) = procs s" "current (syscall_entry rs st pc tv s) = current s"
  "page_ok (syscall_entry rs st pc tv s) = page_ok s"
  by (simp_all add: syscall_entry_def Let_def enter_trap_def)

lemma trap_ready_uregs [simp]: "trap_ready (s\<lparr>uregs := x\<rparr>) = trap_ready s"
  by (auto simp: trap_ready_def page_ok_def mem_ok_def fun_eq_iff)

lemma switch_to_ready:
  assumes "page_ok s (trapframe (procs s ! i))" and "i < length (procs s)"
  shows "\<exists>t. (switch_to (Some i) :: 'a K) s = Inl (To_user t) \<and> trap_ready t i \<and> procs t = procs s \<and>
    sepc (csr t) = mem s (trapframe (procs s ! i) + 264) \<and>
    uregs t = map (\<lambda>k. mem s (trapframe (procs s ! i) + TF_REG k)) [0..<31]"
  using switch_to_eq [OF assms(1), where 'a = 'a] assms
  by (simp add: trap_ready_def page_ok_def mem_ok_def del: upt_rec_numeral)

lemma syscall_handled:
  assumes s: "trap_ready s c" and "st AND SSTATUS_SPP = 0" and "length rs = 31"
    and run: "do_syscall (rs ! 9) (rs ! 10) (rs ! 11) (rs ! 12) (syscall_entry rs st pc tv s) = Inr (r, v)"
    and v: "current v = Some c" "page_ok v (trapframe (procs s ! c))"
  shows "(smode_trap_vector rs :: unit K) (enter_trap st CAUSE_USER_ECALL pc tv s) =
    (switch_to (Some c) :: unit K) (v\<lparr>mem := (mem v)(trapframe (procs s ! c) + TF_REG 9 := r)\<rparr>)"
proof -
  let ?tf = "trapframe (procs s ! c)"
  let ?s = "enter_trap st CAUSE_USER_ECALL pc tv s"
  let ?u = "?s\<lparr>mem := saved ?tf rs (mem s), csr := (csr ?s)\<lparr>sscratch := rs ! REG_A0, satp := mem s (?tf + 272)\<rparr>\<rparr>"
  from s have tf: "page_ok s ?tf" by (simp add: trap_ready_def)
  have ok: "mem_ok s (?tf + k)" "aligned 8 (?tf + k)" if "unat k < 4096" "unat k mod 8 = 0" for k
    using tf that by (auto intro: page_off_mem_ok page_off_aligned)
  have a: "saved ?tf rs (mem s) (?tf + TF_REG k) = rs ! k" "?tf + TF_REG k \<noteq> ?tf + 264"
      "mem_ok s (?tf + TF_REG k)" "aligned 8 (?tf + TF_REG k)" if "k \<in> {9, 10, 11, 12}" for k
    using that reg_slot_ok [OF tf, of k] TF_REG_neq [of k 264] assms(3)
    by (auto simp: saved_reg nth_list_update)
  have "mem_ok v (?tf + TF_REG 9)" using reg_slot_ok [OF v(2), of 9] by simp
  have "(smode_trap_vector rs :: unit K) ?s = smode_trap_handler ?u"
    using trap_vector_enters [of ?s rs, where 'a = unit] s by (simp add: enter_trap_def trap_ready_def)
  moreover have e: "syscall_entry rs st pc tv s = ?u\<lparr>mem := (saved ?tf rs (mem s))(?tf + 264 := pc + 4)\<rparr>"
    using s by (simp add: syscall_entry_def trap_ready_def enter_trap_def Let_def)
  have "handle_syscall ?tf (?u\<lparr>mem := (saved ?tf rs (mem s))(?tf + 264 := pc)\<rparr>) =
      Inr ((), v\<lparr>mem := (mem v)(?tf + TF_REG 9 := r)\<rparr>)"
    using run [unfolded e] a [of 9] a [of 10] a [of 11] a [of 12] ok [of 264] \<open>mem_ok v (?tf + TF_REG 9)\<close>
    by (simp add: handle_syscall_def kdefs mem_eqs enter_trap_def)
  then have "(smode_trap_handler :: unit K) ?u = switch_to (Some c) (v\<lparr>mem := (mem v)(?tf + TF_REG 9 := r)\<rparr>)"
    using s assms(2) ok [of 264] v(1)
    by (simp add: smode_trap_handler_def assert_current_def cur_proc_def the_proc_def kdefs mem_eqs enter_trap_def trap_ready_def)
  ultimately show ?thesis by simp
qed

lemma syscall_back:
  assumes s: "trap_ready s c" and "st AND SSTATUS_SPP = 0" and "length rs = 31"
    and run: "do_syscall (rs ! 9) (rs ! 10) (rs ! 11) (rs ! 12) (syscall_entry rs st pc tv s) = Inr (r, v)"
    and v: "current v = Some c" "c < length (procs v)" "page_ok v (trapframe (procs s ! c))"
      "trapframe (procs v ! c) = trapframe (procs s ! c)"
    and tf: "\<forall>a. page_of a = trapframe (procs s ! c) \<longrightarrow> mem v a = mem (syscall_entry rs st pc tv s) a"
  shows "\<exists>t. (smode_trap_vector rs :: unit K) (enter_trap st CAUSE_USER_ECALL pc tv s) = Inl (To_user t) \<and>
    uregs t = rs[REG_A0 := r, REG_T6 := trapframe (procs s ! c)] \<and> sepc (csr t) = pc + 4 \<and>
    trap_ready t c \<and> procs t = procs v"
proof -
  let ?tf = "trapframe (procs s ! c)"
  let ?w = "v\<lparr>mem := (mem v)(?tf + TF_REG 9 := r)\<rparr>"
  from s have ok: "page_ok s ?tf" and ss: "sscratch (csr s) = ?tf" by (simp_all add: trap_ready_def)
  have m: "mem v (?tf + k) = ((saved ?tf rs (mem s))(?tf + 264 := pc + 4)) (?tf + k)" if "unat k < 4096" for k
    using tf [rule_format, OF page_of_off [OF ok that]] ss by (simp add: syscall_entry_def Let_def)
  have at: "mem ?w (?tf + TF_REG k) = rs[REG_A0 := r, REG_T6 := ?tf] ! k" if "k < 31" for k
    using that m [of "TF_REG k"] TF_REG_neq [OF that, of 264] assms(3)
    by (auto simp: unat_TF_REG TF_REG_eq_iff saved_reg nth_list_update)
  have "map (\<lambda>k. mem ?w (?tf + TF_REG k)) [0..<31] = rs[REG_A0 := r, REG_T6 := ?tf]"
  proof (rule nth_equalityI)
    fix i assume "i < length (map (\<lambda>k. mem ?w (?tf + TF_REG k)) [0..<31])"
    then show "map (\<lambda>k. mem ?w (?tf + TF_REG k)) [0..<31] ! i = rs[REG_A0 := r, REG_T6 := ?tf] ! i"
      using at [of i] by (auto simp del: upt_rec_numeral split: if_splits)
  qed (simp add: assms(3))
  moreover have "mem ?w (?tf + 264) = pc + 4"
    using m [of 264] TF_REG_neq [of 9 264] by simp
  moreover obtain t where "(switch_to (Some c) :: unit K) ?w = Inl (To_user t)" "trap_ready t c" "procs t = procs ?w"
      "sepc (csr t) = mem ?w (?tf + 264)" "uregs t = map (\<lambda>k. mem ?w (?tf + TF_REG k)) [0..<31]"
    using switch_to_ready [of ?w c, where 'a = unit] v by (auto simp del: upt_rec_numeral)
  ultimately show ?thesis
    using syscall_handled [OF assms(1-4) v(1, 3)] by (auto simp del: upt_rec_numeral)
qed


section \<open>Waiting for a child\<close>

text \<open>The state does not change while \<^verbatim>\<open>wait\<close> finds nothing to reclaim.\<close>

lemma do_wait_none:
  assumes "\<forall>i < NPROC. wanted n (current s) (procs s ! i) \<longrightarrow> status (procs s ! i) \<noteq> ZOMBIE"
  shows "do_wait n s = Inr (if \<exists>i < NPROC. wanted n (current s) (procs s ! i) then - 2 else - 1, s)"
proof -
  have "find (\<lambda>i. wanted n (current s) (procs s ! i) \<and> status (procs s ! i) = ZOMBIE) [0..<NPROC] = None"
    using assms by (auto simp: find_None_iff simp del: upt_rec_numeral NPROC_def)
  then show ?thesis by (simp add: do_wait_def kdefs del: NPROC_def upt_rec_numeral)
qed

text \<open>
  The kernel as the provider of the program's \<^verbatim>\<open>ecall\<close>, for calls that leave the program's
  memory alone: the argument registers are loaded, the trap is taken, and the call is back
  when the kernel returns to the same process.
\<close>

definition call_regs :: "regs \<Rightarrow> u64 list \<Rightarrow> regs" where
  "call_regs rs as = take 9 rs @ as @ drop 17 rs"

definition kernel_ecall :: "u64 \<Rightarrow> kstate ecall" where
  "kernel_ecall pc as s =
     (case (smode_trap_vector (call_regs (uregs (world s)) as) :: unit K)
         (enter_trap (sstatus (csr (world s)) AND NOT SSTATUS_SPP) CAUSE_USER_ECALL pc 0 (world s)) of
        Inl (To_user t) \<Rightarrow> if current t = current (world s) then Some (uregs t ! 9, s\<lparr>world := t\<rparr>) else None
      | _ \<Rightarrow> None)"

text \<open>
  C30: the user library's \<^verbatim>\<open>wait\<close> on the kernel. A process that has no child of the requested
  kind gets -1 at once, and goes on with the process table unchanged.
\<close>

theorem wait_without_children:
  assumes s: "trap_ready (world st) c" and "length (uregs (world st)) = 31"
    and no: "\<forall>i < NPROC. \<not> wanted p (Some c) (procs (world st) ! i)"
  shows "\<exists>t. wait (Suc n) (kernel_ecall pc) p st = Inr (- 1, st\<lparr>world := t\<rparr>) \<and>
    trap_ready t c \<and> procs t = procs (world st)"
proof -
  let ?s = "world st"
  let ?as = "[SYS_user_wait, scast p, 0, 0, 0, 0, 0, 0]"
  define rs where "rs = call_regs (uregs ?s) ?as"
  let ?ss = "sstatus (csr ?s) AND NOT SSTATUS_SPP"
  let ?e = "syscall_entry rs ?ss pc 0 ?s"
  have regs: "rs ! 9 = SYS_user_wait" "rs ! 10 = scast p" "length rs = 31"
    using assms(2) by (simp_all add: rs_def call_regs_def nth_append)
  have "do_wait p ?e = Inr (- 1, ?e)"
    using no s by (subst do_wait_none) (auto simp: trap_ready_def simp del: NPROC_def)
  moreover have "ucast (scast p :: u64) = p" by (rule bit_word_eqI) (simp add: bit_simps)
  ultimately have run: "do_syscall (rs ! 9) (rs ! 10) (rs ! 11) (rs ! 12) ?e = Inr (- 1, ?e)"
    by (simp add: regs do_syscall_def sys_user_wait_def kdefs)
  have "?ss AND SSTATUS_SPP = 0" by (rule bit_word_eqI) (simp add: bit_simps)
  then obtain t where t: "(smode_trap_vector rs :: unit K) (enter_trap ?ss CAUSE_USER_ECALL pc 0 ?s) = Inl (To_user t)"
      "uregs t = rs[REG_A0 := - 1, REG_T6 := trapframe (procs ?s ! c)]" "trap_ready t c" "procs t = procs ?s"
    using syscall_back [OF s _ regs(3) run] s by (auto simp: trap_ready_def)
  then have "kernel_ecall pc ?as st = Some (- 1, st\<lparr>world := t\<rparr>)"
    unfolding kernel_ecall_def rs_def [symmetric] using s regs(3) by (simp add: trap_ready_def)
  moreover have "ucast (scast (ucast (- 1 :: u64) :: i32) :: u64) = (- 1 :: i32)"
    by (rule bit_word_eqI) (simp add: bit_simps)
  ultimately show ?thesis using t(3, 4) by (auto simp: do_user_call_def kdefs)
qed

lemma run_ready: "trap_ready run_state 0"
  using run_page_ok(1) by (simp add: trap_ready_def run_proc0)

lemma run_no_children: "i < NPROC \<Longrightarrow> \<not> wanted 5 (Some 0) (procs run_state ! i)"
  by (simp add: run_procs wanted_def zero_process_def)


theorem wait_without_children_witness:
  "\<exists>t. wait 1 (kernel_ecall 0x10000) 5 \<lparr>umem = (\<lambda>_. 0), world = run_state\<lparr>uregs := replicate 31 7\<rparr>\<rparr> =
     Inr (- 1, \<lparr>umem = (\<lambda>_. 0), world = t\<rparr>) \<and> trap_ready t 0"
  using run_ready run_no_children wait_without_children [of "\<lparr>umem = (\<lambda>_. 0), world = run_state\<lparr>uregs := replicate 31 7\<rparr>\<rparr>" 0 5 0 "0x10000"]
  by (auto simp del: NPROC_def)

section \<open>Every return to user mode is prepared\<close>

text \<open>
  What the next trap relies on: \<^verbatim>\<open>stvec\<close> holds the vector, \<^verbatim>\<open>sscratch\<close> the trapframe of the
  current process, whose slots name the handler; the hart runs in user mode on the page
  table of that process, with interrupts on after the return and 31 registers loaded.
\<close>

definition prepared :: "kstate \<Rightarrow> bool" where
  "prepared t \<longleftrightarrow> (\<exists>c. current t = Some c \<and> sscratch (csr t) = trapframe (procs t ! c) \<and>
     satp (csr t) = MAKE_SATP (pagetable (procs t ! c)) \<and> stvec (csr t) = sym_smode_trap_vector (kenv t) \<and>
     mem t (trapframe (procs t ! c) + TF_KERNEL_TRAP) = sym_smode_trap_handler (kenv t)) \<and>
     sstatus (csr t) AND SSTATUS_SPP = 0 \<and> sstatus (csr t) AND SSTATUS_SPIE = SSTATUS_SPIE \<and> length (uregs t) = 31"

definition prepared_exit :: "kstate kexit \<Rightarrow> bool" where
  "prepared_exit e \<longleftrightarrow> (\<forall>t. e = To_user t \<longrightarrow> prepared t)"

lemma prepared_exits [simp]:
  "prepared_exit (Panic x)" "prepared_exit (Assert_fail x)" "prepared_exit (Shutdown c)" "prepared_exit (Wild a)" "prepared_exit (In_image a)" "prepared_exit (bad_access u a)"
  "prepared_exit (Misaligned a)" "prepared_exit (Undef x)" "prepared_exit Spins"
  "prepared_exit (To_user t) = prepared t"
  by (simp_all add: prepared_exit_def bad_access_def)

lemma run_over_prepared: "run_over e \<Longrightarrow> prepared_exit e"
  by (cases e) simp_all

interpretation al: frame_inv "\<lambda>_. True"
  by unfold_locales simp_all

abbreviation prepares :: "'a K \<Rightarrow> bool" where
  "prepares \<equiv> preserves prepared_exit (\<lambda>_. True)"

lemmas stays_prepares = stays_preserves [OF _ run_over_prepared]

lemma load_words_length: "load_words as s = Inr (rs, t) \<Longrightarrow> t = s \<and> length rs = length as"
  by (induction as arbitrary: rs s t) (auto simp: kdefs mem_eqs split: sum.splits if_splits)

lemma load_words_exit: "load_words as s = Inl e \<Longrightarrow> prepared_exit e"
  by (induction as arbitrary: s) (auto simp: kdefs mem_eqs split: sum.splits if_splits)

lemma SPIE_kept: "((x AND NOT SSTATUS_SPP) OR SSTATUS_SPIE) AND SSTATUS_SPP = 0"
  "((x AND NOT SSTATUS_SPP) OR SSTATUS_SPIE) AND SSTATUS_SPIE = SSTATUS_SPIE"
  by (simp_all add: bit.conj_disj_distrib2 and.assoc SSTATUS_SPP_def SSTATUS_SPIE_def)

lemma prepares_switch_to: "prepares (switch_to p)"
proof (rule preservesI)
  fix s
  show "wp (switch_to p) (\<lambda>_ _. True) prepared_exit s"
  proof (cases p)
    case (Some i)
    then show ?thesis
      by (auto simp: switch_to_def return_to_user_def restore_all_registers_def wp_def kdefs mem_eqs prepared_def SPIE_kept
          dest!: load_words_length intro: load_words_exit split: sum.splits if_splits simp del: upt_rec_numeral)
  qed (simp add: switch_to_def wp_eqs)
qed

lemma prepares_schedule: "prepares schedule"
  unfolding schedule_def by (intro keeps_intros prepares_switch_to) simp_all

lemma prepares_queue: "prepares (insert_to_ready_queue i)" "prepares (set_proc i f)" "prepares cur_index"
  unfolding insert_to_ready_queue_def set_proc_def cur_index_def by (intro keeps_intros; simp)+

lemma prepares_processes: "prepares (do_fork i)" "prepares (do_wait n)"
  unfolding do_fork_def fork_into_def alloc_process_def do_wait_def reclaim_def
  by (intro keeps_intros prepares_queue frames [THEN stays_prepares]; simp)+

lemma prepares_do_syscall: "prepares (do_syscall a0 a1 a2 a3)"
  unfolding do_syscall_def sys_user_exit_def free_process_def sys_user_fork_def sys_user_yield_def sys_user_wait_def
  by (intro keeps_intros prepares_schedule prepares_queue prepares_processes frames [THEN stays_prepares]) simp_all

lemma prepares_trap_vector: "prepares (smode_trap_vector rs)"
  unfolding smode_trap_vector_def smode_trap_handler_def assert_current_def handle_syscall_def rrsched_def
  by (intro keeps_intros prepares_switch_to prepares_schedule prepares_queue prepares_do_syscall
      frames [THEN stays_prepares]) simp_all

lemma prepared_after:
  assumes "prepares m" and "m s = Inl (To_user t)"
  shows "prepared t"
  using assms by (auto simp: preserves_def wp_def dest!: spec [of _ s])

text \<open>
  C4: whenever the trap vector goes back to user mode, whatever the trap was and whatever the
  kernel did in between, the machine is prepared for the next trap: vector, trapframe and
  handler of the process that runs now are installed and the hart is in user mode on that
  process's page table with a full set of registers.
\<close>

theorem user_mode_prepared:
  "(smode_trap_vector rs :: unit K) s = Inl (To_user t) \<Longrightarrow> prepared t"
  by (rule prepared_after [OF prepares_trap_vector])

theorem user_mode_prepared_witness:
  "\<exists>t. (smode_trap_vector (replicate 31 7) :: unit K) (enter_trap 0 CAUSE_MTIMER_S_TRAP 0x10000 0 run_state) =
     Inl (To_user t) \<and> prepared t"
  using run_tick user_mode_prepared by blast

end
