(* ===== verification/PKE_Shell.thy ===== *)
theory PKE_Shell
  imports PKE_User
begin

text \<open>
  The shell \<^verbatim>\<open>user/sh.c\<close>: the tokenizer, the parser of a command line, running a command and
  the main loop. Pointers are addresses of the program's memory; \<^verbatim>\<open>struct execcmd\<close> lies in that
  memory at its C layout, because \<^verbatim>\<open>exec\<close> hands the address of its array to the kernel.

  The proofs show that the parser splits a line into its words: what it leaves in memory is
  stated by functions on the list of the line's characters, without pointers.
\<close>

section \<open>Tokens\<close>

definition whitespace :: "u8 list" where
  "whitespace = [32, 9, 13, 10, 11]"

definition symbols :: "u8 list" where
  "symbols = [60, 124, 62, 38, 59, 40, 41]"

text \<open>The loops that move a pointer up to the end of the line.\<close>

function skip_while :: "(u8 \<Rightarrow> bool) \<Rightarrow> (u64 \<Rightarrow> u8) \<Rightarrow> u64 \<Rightarrow> u64 \<Rightarrow> u64" where
  "skip_while P m s es = (if s < es \<and> P (m s) then skip_while P m (s + 1) es else s)"
  by pat_completeness auto
termination
proof (relation "measure (\<lambda>(P, m, s, es). unat es - unat s)")
  fix P :: "u8 \<Rightarrow> bool" and m :: "u64 \<Rightarrow> u8" and s es :: u64
  assume "s < es \<and> P (m s)"
  then have "s < es" by simp
  then have "unat (s + 1) = unat s + 1"
    using unat_u64_less [of es] by (simp add: word_less_nat_alt unat_word_ariths)
  with \<open>s < es\<close> show "((P, m, s + 1, es), (P, m, s, es)) \<in> measure (\<lambda>(P, m, s, es). unat es - unat s)"
    by (simp add: word_less_nat_alt)
qed simp

declare skip_while.simps [simp del]

definition is_space :: "u8 \<Rightarrow> bool" where
  "is_space c \<longleftrightarrow> c \<in> set whitespace"

definition is_symbol :: "u8 \<Rightarrow> bool" where
  "is_symbol c \<longleftrightarrow> c \<in> set symbols"

text \<open>The result: the kind of the token, its begin and end, and the new position.\<close>

definition gettoken :: "(u64 \<Rightarrow> u8) \<Rightarrow> u64 \<Rightarrow> u64 \<Rightarrow> i32 \<times> u64 \<times> u64 \<times> u64" where
  "gettoken m ps es =
     (let q = skip_while is_space m ps es;
          (ret, eq) =
            (if m q = 0 then (0, q)
             else if m q \<in> set [124, 40, 41, 59, 38, 60] then (ucast (m q), q + 1)
             else if m q = 62 then (if m (q + 1) = 62 then (43, q + 2) else (62, q + 1))
             else (97, skip_while (\<lambda>c. \<not> is_space c \<and> \<not> is_symbol c) m q es))
      in (ret, q, eq, skip_while is_space m eq es))"

definition peek :: "(u64 \<Rightarrow> u8) \<Rightarrow> u64 \<Rightarrow> u64 \<Rightarrow> u8 list \<Rightarrow> bool \<times> u64" where
  "peek m ps es toks =
     (let s = skip_while is_space m ps es in (m s \<noteq> 0 \<and> m s \<in> set toks, s))"

section \<open>Commands in memory\<close>

definition MAXLEN :: i32 where [simp]: "MAXLEN = 256"
definition MAX_WORDS :: nat where [simp]: "MAX_WORDS = 10"
definition EXEC :: u8 where [simp]: "EXEC = 1"

text \<open>The arrays of \<^verbatim>\<open>struct execcmd\<close>; the structure has 168 bytes.\<close>

definition ARGV :: "u64 \<Rightarrow> nat \<Rightarrow> u64" where
  "ARGV cmd i = cmd + (8 + 8 * of_nat i)"

definition EARGV :: "u64 \<Rightarrow> nat \<Rightarrow> u64" where
  "EARGV cmd i = cmd + (88 + 8 * of_nat i)"

definition args :: "(u64 \<Rightarrow> u8) \<Rightarrow> u64 \<Rightarrow> nat \<Rightarrow> u64 \<times> u64" where
  "args m cmd i = (uload64 m (ARGV cmd i), uload64 m (EARGV cmd i))"

definition put_arg :: "u64 \<Rightarrow> nat \<Rightarrow> u64 \<times> u64 \<Rightarrow> (u64 \<Rightarrow> u8) \<Rightarrow> (u64 \<Rightarrow> u8)" where
  "put_arg cmd i v m = ustore64 (EARGV cmd i) (snd v) (ustore64 (ARGV cmd i) (fst v) m)"

definition panic :: "'w ecall \<Rightarrow> u64 \<Rightarrow> (string \<Rightarrow> u64) \<Rightarrow> string \<Rightarrow> ('w, 'a) U" where
  "panic ecall out lit s = kthen (printu ecall out ''%s\<newline>'' [lit s]) (exit ecall (- 1))"

definition execcmd :: "'w ecall \<Rightarrow> ('w, u64) U" where
  "execcmd ecall = kbind (naive_malloc ecall) (\<lambda>cmd.
     kthen (kmod (\<lambda>s. s\<lparr>umem := put_bytes cmd (replicate 168 0) (umem s)\<rparr>))
    (kthen (kmod (\<lambda>s. s\<lparr>umem := put_bytes cmd [EXEC, 0, 0, 0] (umem s)\<rparr>))
       (kret cmd)))"

section \<open>Parsing\<close>

text \<open>
  The loop of \<^verbatim>\<open>parseexec\<close>: it ends with the new position, or in a panic with a message;
  either way with the memory it has written.
\<close>

function parse_loop :: "(u64 \<Rightarrow> u8) \<Rightarrow> u64 \<Rightarrow> u64 \<Rightarrow> nat \<Rightarrow> u64 \<Rightarrow> (string + u64) \<times> (u64 \<Rightarrow> u8)" where
  "parse_loop m ps es argc cmd =
     (let (stop, ps1) = peek m ps es [124, 41, 38, 59] in
      if stop then (Inr ps1, put_arg cmd argc (0, 0) m)
      else
        (let (tok, q, eq, ps2) = gettoken m ps1 es in
         if tok = 0 then (Inr ps2, put_arg cmd argc (0, 0) m)
         else if tok \<noteq> 97 then (Inl ''syntax'', m)
         else if MAX_WORDS \<le> argc + 1 then (Inl ''too many args'', put_arg cmd argc (q, eq) m)
         else parse_loop (put_arg cmd argc (q, eq) m) ps2 es (argc + 1) cmd))"
  by pat_completeness auto
termination
  by (relation "measure (\<lambda>(m, ps, es, argc, cmd). MAX_WORDS - argc)") auto

declare parse_loop.simps [simp del]

definition parseexec :: "'w ecall \<Rightarrow> u64 \<Rightarrow> (string \<Rightarrow> u64) \<Rightarrow> u64 \<Rightarrow> u64 \<Rightarrow> ('w, u64 \<times> u64) U" where
  "parseexec ecall out lit ps es =
     kbind (execcmd ecall) (\<lambda>cmd.
     kbind (kget (\<lambda>s. parse_loop (umem s) ps es 0 cmd)) (\<lambda>(r, m).
     kthen (kmod (\<lambda>s. s\<lparr>umem := m\<rparr>))
       (case r of
          Inl msg \<Rightarrow> panic ecall out lit msg
        | Inr ps' \<Rightarrow> kret (cmd, ps'))))"

definition parsepipe :: "'w ecall \<Rightarrow> u64 \<Rightarrow> (string \<Rightarrow> u64) \<Rightarrow> u64 \<Rightarrow> u64 \<Rightarrow> ('w, u64 \<times> u64) U" where
  "parsepipe ecall out lit ps es = parseexec ecall out lit ps es"

definition parseline :: "'w ecall \<Rightarrow> u64 \<Rightarrow> (string \<Rightarrow> u64) \<Rightarrow> u64 \<Rightarrow> u64 \<Rightarrow> ('w, u64 \<times> u64) U" where
  "parseline ecall out lit ps es = parsepipe ecall out lit ps es"

text \<open>
  \<^verbatim>\<open>nulterminate\<close> writes a zero behind each argument; \<open>None\<close> when the array has no null
  pointer. The type is \<^verbatim>\<open>EXEC\<close> in every command there is.
\<close>

function null_args :: "(u64 \<Rightarrow> u8) \<Rightarrow> u64 \<Rightarrow> nat \<Rightarrow> (u64 \<Rightarrow> u8) option" where
  "null_args m cmd i =
     (if MAX_WORDS \<le> i then None
      else if fst (args m cmd i) = 0 then Some m
      else null_args (m(snd (args m cmd i) := 0)) cmd (i + 1))"
  by pat_completeness auto
termination
  by (relation "measure (\<lambda>(m, cmd, i). MAX_WORDS - i)") auto

declare null_args.simps [simp del]

definition nulterminate :: "u64 \<Rightarrow> ('w, unit) U" where
  "nulterminate cmd =
     (if cmd = 0 then kret ()
      else kbind (kget umem) (\<lambda>m.
        if ubytes m cmd 4 \<noteq> [EXEC, 0, 0, 0] then kret ()
        else (case null_args m cmd 0 of
          None \<Rightarrow> kexits (Undef ''argv'')
        | Some m' \<Rightarrow> kmod (\<lambda>s. s\<lparr>umem := m'\<rparr>))))"

definition parsecmd :: "'w ecall \<Rightarrow> u64 \<Rightarrow> (string \<Rightarrow> u64) \<Rightarrow> u64 \<Rightarrow> ('w, u64) U" where
  "parsecmd ecall out lit s =
     kbind (kget (\<lambda>st. ucstr (umem st) s)) (\<lambda>r. case r of
       None \<Rightarrow> kexits Spins
     | Some line \<Rightarrow>
         (let es = s + of_nat (length line) in
          kbind (parseline ecall out lit s es) (\<lambda>(cmd, s1).
          kbind (kget (\<lambda>st. snd (peek (umem st) s1 es []))) (\<lambda>s2.
          kthen (if s2 \<noteq> es
                 then kthen (printu ecall out ''leftovers: %s\<newline>'' [s2]) (panic ecall out lit ''syntax'')
                 else kret ())
         (kthen (nulterminate cmd)
            (kret cmd))))))"

section \<open>Running commands\<close>

fun print_args :: "'w ecall \<Rightarrow> u64 \<Rightarrow> u64 \<Rightarrow> nat list \<Rightarrow> ('w, unit) U" where
  "print_args ecall out cmd [] = kexits (Undef ''argv'')"
| "print_args ecall out cmd (i # is) =
     kbind (kget (\<lambda>s. uload64 (umem s) (ARGV cmd i))) (\<lambda>q.
       if q = 0 then kret ()
       else kthen (printu ecall out ''argv[%d]=%s\<newline>'' [of_nat i, q]) (print_args ecall out cmd is))"

definition runcmd :: "'w ecall \<Rightarrow> u64 \<Rightarrow> (string \<Rightarrow> u64) \<Rightarrow> u64 \<Rightarrow> ('w, unit) U" where
  "runcmd ecall out lit cmd =
     kthen (if cmd = 0 then exit ecall 0 else kret ())
    (kbind (kget umem) (\<lambda>m.
     kthen (if ubytes m cmd 4 = [EXEC, 0, 0, 0] then
         kthen (if uload64 m (ARGV cmd 0) = 0 then exit ecall 0 else kret ())
        (kthen (print_args ecall out cmd [0..<MAX_WORDS])
        (kbind (kget (\<lambda>s. uload64 (umem s) (ARGV cmd 0))) (\<lambda>path.
         kthen (uexec ecall path (ARGV cmd 0))
        (kbind (kget (\<lambda>s. uload64 (umem s) (ARGV cmd 0))) (\<lambda>path.
         kbind (printu ecall out ''exec %s failed\<newline>'' [path]) (\<lambda>_. kret ()))))))
       else panic ecall out lit ''Unknown command!\<newline>'')
       (exit ecall 0)))"

definition isExit :: "u64 \<Rightarrow> ('w, bool) U" where
  "isExit s =
     kbind (kget umem) (\<lambda>m. case ucstr m s of
       None \<Rightarrow> kexits Spins
     | Some line \<Rightarrow>
         (let s' = skip_while is_space m s (s + of_nat (length line)) in
          kret (m s' = 101 \<and> m (s' + 1) = 120 \<and> m (s' + 2) = 105 \<and> m (s' + 3) = 116)))"

text \<open>The main loop, with fuel for its rounds and for each \<^verbatim>\<open>wait\<close>.\<close>

fun mysh :: "nat \<Rightarrow> 'w ecall \<Rightarrow> u64 \<Rightarrow> (string \<Rightarrow> u64) \<Rightarrow> u64 \<Rightarrow> ('w, unit) U" where
  "mysh 0 ecall out lit buf = kexits Spins"
| "mysh (Suc n) ecall out lit buf =
     kthen (printu ecall out ''mysh$ '' [])
    (kthen (getlineu ecall buf MAXLEN)
    (kbind (isExit buf) (\<lambda>stop.
       if stop then kret ()
       else kbind (fork ecall) (\<lambda>rc.
         if rc = 0
         then kthen (kbind (parsecmd ecall out lit buf) (runcmd ecall out lit)) (mysh n ecall out lit buf)
         else kthen (wait n ecall (- 1)) (mysh n ecall out lit buf)))))"

section \<open>The words of a line\<close>

text \<open>
  The specification works on the line's characters: \<open>words\<close> cuts it at whitespace. \<open>spans\<close>
  gives the same words by their positions.
\<close>

function words :: "u8 list \<Rightarrow> u8 list list" where
  "words cs = (case dropWhile is_space cs of
     [] \<Rightarrow> []
   | c # ds \<Rightarrow> (c # takeWhile (\<lambda>x. \<not> is_space x) ds) # words (dropWhile (\<lambda>x. \<not> is_space x) ds))"
  by pat_completeness auto
termination
proof (relation "measure length")
  fix cs c ds assume "dropWhile is_space cs = c # ds"
  then have "length (c # ds) \<le> length cs" by (metis length_dropWhile_le)
  moreover have "length (dropWhile (\<lambda>x. \<not> is_space x) ds) \<le> length ds" by (rule length_dropWhile_le)
  ultimately show "(dropWhile (\<lambda>x. \<not> is_space x) ds, cs) \<in> measure length" by simp
qed simp

declare words.simps [simp del]

definition skip_at :: "(u8 \<Rightarrow> bool) \<Rightarrow> u8 list \<Rightarrow> nat \<Rightarrow> nat" where
  "skip_at P cs k = k + length (takeWhile P (drop k cs))"

lemma skip_at_bounds: "k \<le> length cs \<Longrightarrow> k \<le> skip_at P cs k \<and> skip_at P cs k \<le> length cs"
  using length_takeWhile_le [of P "drop k cs"] by (simp add: skip_at_def)

lemma skip_at_Suc: "k < length cs \<Longrightarrow> P (cs ! k) \<Longrightarrow> skip_at P cs k = skip_at P cs (Suc k)"
  by (simp add: skip_at_def Cons_nth_drop_Suc [symmetric])

lemma skip_at_stop: "k < length cs \<Longrightarrow> \<not> P (cs ! k) \<Longrightarrow> skip_at P cs k = k"
  by (simp add: skip_at_def Cons_nth_drop_Suc [symmetric])

lemma skip_at_end [simp]: "skip_at P cs (length cs) = length cs"
  by (simp add: skip_at_def)

lemma skip_at_between:
  assumes "k \<le> i" and "i < skip_at P cs k"
  shows "P (cs ! i)"
proof -
  have less: "i - k < length (takeWhile P (drop k cs))" using assms by (simp add: skip_at_def)
  then have "P (takeWhile P (drop k cs) ! (i - k))" by (blast dest: nth_mem set_takeWhileD)
  moreover have "takeWhile P (drop k cs) ! (i - k) = drop k cs ! (i - k)" using less by (rule takeWhile_nth)
  moreover have "k \<le> length cs" using less by (cases "k \<le> length cs") auto
  ultimately show ?thesis using assms by simp
qed

lemma skip_at_stops: "skip_at P cs k < length cs \<Longrightarrow> \<not> P (cs ! skip_at P cs k)"
  using nth_length_takeWhile [of P "drop k cs"] by (simp add: skip_at_def)

function spans :: "u8 list \<Rightarrow> nat \<Rightarrow> (nat \<times> nat) list" where
  "spans cs k =
     (let s = skip_at is_space cs k in
      if length cs \<le> s then [] else let e = skip_at (\<lambda>c. \<not> is_space c) cs s in (s, e) # spans cs e)"
  by pat_completeness auto
termination
proof (relation "measure (\<lambda>(cs, k). length cs - k)")
  fix cs k s e
  assume s: "s = skip_at is_space cs k" and "\<not> length cs \<le> s" and e: "e = skip_at (\<lambda>c. \<not> is_space c) cs s"
  then have "s < length cs" "\<not> is_space (cs ! s)" using skip_at_stops [of is_space cs k] by auto
  then have "Suc s \<le> e"
    using skip_at_bounds [of "Suc s" cs] by (simp add: e skip_at_Suc)
  moreover have "k \<le> s" by (simp add: s skip_at_def)
  ultimately show "((cs, e), (cs, k)) \<in> measure (\<lambda>(cs, k). length cs - k)"
    using \<open>s < length cs\<close> by auto
qed simp

declare spans.simps [simp del]

definition slice :: "u8 list \<Rightarrow> nat \<times> nat \<Rightarrow> u8 list" where
  "slice cs = (\<lambda>(s, e). take (e - s) (drop s cs))"

lemma drop_skip_at: "drop (skip_at P cs k) cs = dropWhile P (drop k cs)"
  by (simp add: skip_at_def dropWhile_eq_drop drop_drop add.commute)

lemma words_spans: "words (drop k cs) = map (slice cs) (spans cs k)"
proof (induction cs k rule: spans.induct)
  case (1 cs k)
  define s where "s = skip_at is_space cs k"
  show ?case
  proof (cases "length cs \<le> s")
    case True
    then have "dropWhile is_space (drop k cs) = []" by (simp add: s_def flip: drop_skip_at)
    then have "words (drop k cs) = []" by (subst words.simps) (simp only: list.case)
    with True show ?thesis by (simp add: spans.simps [of cs k] s_def)
  next
    case False
    define e where "e = skip_at (\<lambda>c. \<not> is_space c) cs s"
    from False have d: "dropWhile is_space (drop k cs) = cs ! s # drop (Suc s) cs"
      by (simp add: s_def Cons_nth_drop_Suc flip: drop_skip_at)
    from False have ns: "\<not> is_space (cs ! s)" by (simp add: s_def skip_at_stops)
    have "slice cs (s, e) = takeWhile (\<lambda>c. \<not> is_space c) (drop s cs)"
      by (simp add: slice_def e_def skip_at_def flip: takeWhile_eq_take)
    also have "\<dots> = cs ! s # takeWhile (\<lambda>c. \<not> is_space c) (drop (Suc s) cs)"
      using False ns by (simp flip: Cons_nth_drop_Suc)
    finally have w: "slice cs (s, e) = \<dots>" .
    have "dropWhile (\<lambda>c. \<not> is_space c) (drop (Suc s) cs) = drop e cs"
      using False ns by (simp add: e_def drop_skip_at flip: Cons_nth_drop_Suc)
    moreover have "words (drop e cs) = map (slice cs) (spans cs e)"
      using 1 [OF s_def False e_def] .
    ultimately show ?thesis
      using False by (simp add: words.simps [of "drop k cs"] spans.simps [of cs k] d w Let_def flip: s_def e_def)
  qed
qed

section \<open>Commands in memory, read back\<close>

lemma within_shift:
  assumes "within (a + of_nat k) n x" and "k + n < 2 ^ 64"
  shows "unat (x - a) = k + unat (x - (a + of_nat k)) \<and> unat (x - a) < k + n"
proof -
  define d where "d = x - (a + of_nat k)"
  have "unat d < n" using assms(1) by (simp add: within_def d_def)
  then have "unat (of_nat k + d) = k + unat d"
    using assms(2) by (simp add: unat_word_ariths unsigned_of_nat take_bit_nat_eq_self)
  moreover have "of_nat k + d = x - a" by (simp add: d_def)
  ultimately show ?thesis using \<open>unat d < n\<close> by (simp add: d_def)
qed

lemma ARGV_at: "ARGV cmd i = cmd + of_nat (8 + 8 * i)" and EARGV_at: "EARGV cmd i = cmd + of_nat (88 + 8 * i)"
  by (simp_all add: ARGV_def EARGV_def)

lemma uload64_apart:
  assumes "k + 8 \<le> l \<or> l + 8 \<le> k" and "k < 2 ^ 63" and "l < 2 ^ 63"
  shows "uload64 (ustore64 (a + of_nat k) v m) (a + of_nat l) = uload64 m (a + of_nat l)"
proof (rule uload64_cong)
  fix x assume l: "within (a + of_nat l) 8 x"
  have "\<not> within (a + of_nat k) 8 x"
  proof
    assume k: "within (a + of_nat k) 8 x"
    then show False
      using within_shift [OF l] within_shift [OF k] assms by (auto simp: within_def)
  qed
  then show "ustore64 (a + of_nat k) v m x = m x" by (rule ustore64_apply_other)
qed

lemma uload64_same_at: "k = l \<Longrightarrow> uload64 (ustore64 (a + of_nat k) v m) (a + of_nat l) = v"
  by (simp add: uload64_ustore64)

lemma args_put_arg:
  assumes "i < 10" and "j < 10"
  shows "args (put_arg cmd i v m) cmd j = (if i = j then v else args m cmd j)"
proof -
  consider "i < j" | "i = j" | "j < i" by linarith
  then show ?thesis
    using assms by cases (simp_all add: args_def put_arg_def ARGV_at EARGV_at uload64_apart uload64_same_at
      del: of_nat_add of_nat_mult of_nat_numeral)
qed

lemma args_within:
  assumes "i < 10" and "within (ARGV cmd i) 8 x \<or> within (EARGV cmd i) 8 x"
  shows "within (cmd + 8) 160 x"
proof -
  have "ARGV cmd i = cmd + 8 + of_nat (8 * i)" "EARGV cmd i = cmd + 8 + of_nat (80 + 8 * i)"
    by (simp_all add: ARGV_def EARGV_def)
  then show ?thesis
    using assms within_shift [of "cmd + 8" "8 * i" 8 x] within_shift [of "cmd + 8" "80 + 8 * i" 8 x]
    by (auto simp: within_def simp del: of_nat_add of_nat_mult of_nat_numeral)
qed

lemma put_arg_other: "i < 10 \<Longrightarrow> \<not> within (cmd + 8) 160 x \<Longrightarrow> put_arg cmd i v m x = m x"
  unfolding put_arg_def using args_within [of i cmd x] by (metis ustore64_apply_other)

lemma args_update_other: "i < 10 \<Longrightarrow> \<not> within (cmd + 8) 160 x \<Longrightarrow> args (m(x := v)) cmd i = args m cmd i"
  using args_within [of i cmd x] by (auto simp: args_def intro!: uload64_cong)

section \<open>The tokenizer on a line\<close>

definition line_at :: "(u64 \<Rightarrow> u8) \<Rightarrow> u64 \<Rightarrow> u8 list \<Rightarrow> bool" where
  "line_at m buf cs \<longleftrightarrow>
     unat buf + length cs < 2 ^ 64 \<and> 0 \<notin> set cs \<and> m (buf + of_nat (length cs)) = 0 \<and>
     (\<forall>i < length cs. m (buf + of_nat i) = cs ! i)"

lemma at_less:
  assumes "line_at m buf cs" and "i \<le> length cs" and "j \<le> length cs"
  shows "buf + of_nat i < buf + of_nat j \<longleftrightarrow> i < j" and "buf + of_nat i = buf + of_nat j \<longleftrightarrow> i = j"
proof -
  have "unat (buf + of_nat k) = unat buf + k" if "k \<le> length cs" for k
    using assms(1) that by (simp add: line_at_def unat_word_ariths unsigned_of_nat take_bit_nat_eq_self)
  then show "buf + of_nat i < buf + of_nat j \<longleftrightarrow> i < j" "buf + of_nat i = buf + of_nat j \<longleftrightarrow> i = j"
    using assms(2, 3) by (simp_all add: word_less_nat_alt word_unat_eq_iff)
qed

lemma skip_while_at:
  assumes "line_at m buf cs" and "k \<le> length cs"
  shows "skip_while P m (buf + of_nat k) (buf + of_nat (length cs)) = buf + of_nat (skip_at P cs k)"
  using assms(2)
proof (induction "length cs - k" arbitrary: k)
  case 0
  then have "k = length cs" by simp
  then show ?case by (simp add: skip_while.simps [of P m "buf + of_nat (length cs)"])
next
  case (Suc n)
  then have less: "k < length cs" by simp
  then have c: "m (buf + of_nat k) = cs ! k" using assms by (simp add: line_at_def)
  have lt: "buf + of_nat k < buf + of_nat (length cs)" using at_less(1) [OF assms(1) Suc.prems order_refl] less by blast
  have step: "buf + of_nat k + 1 = buf + of_nat (Suc k)" by simp
  have "skip_while P m (buf + of_nat (Suc k)) (buf + of_nat (length cs)) = buf + of_nat (skip_at P cs (Suc k))"
    using less Suc.hyps(2) by (intro Suc.hyps(1)) linarith+
  then show ?case
    by (cases "P (cs ! k)"; subst skip_while.simps)
       (simp_all only: c lt step skip_at_Suc [where P = P, OF less] skip_at_stop [where P = P, OF less] simp_thms if_True if_False)
qed

lemma line_at_put_arg:
  "line_at m buf cs \<Longrightarrow> i < 10 \<Longrightarrow> \<forall>j \<le> length cs. \<not> within (cmd + 8) 160 (buf + of_nat j) \<Longrightarrow>
   line_at (put_arg cmd i v m) buf cs"
  by (auto simp: line_at_def put_arg_other)

lemma char_at:
  assumes "line_at m buf cs" and "k \<le> length cs"
  shows "m (buf + of_nat k) = 0 \<longleftrightarrow> k = length cs" and "k < length cs \<Longrightarrow> m (buf + of_nat k) = cs ! k"
proof -
  show *: "m (buf + of_nat k) = cs ! k" if "k < length cs" using assms(1) that by (simp add: line_at_def)
  show "m (buf + of_nat k) = 0 \<longleftrightarrow> k = length cs"
  proof (cases "k = length cs")
    case False
    then have "k < length cs" using assms(2) by simp
    then have "cs ! k \<in> set cs" by simp
    then have "cs ! k \<noteq> 0" using assms(1) by (metis line_at_def)
    then show ?thesis using * \<open>k < length cs\<close> by simp
  qed (use assms(1) in \<open>simp add: line_at_def\<close>)
qed

lemma peek_at:
  assumes "line_at m buf cs" and "k \<le> length cs"
  defines "s \<equiv> skip_at is_space cs k"
  shows "peek m (buf + of_nat k) (buf + of_nat (length cs)) toks = (s < length cs \<and> cs ! s \<in> set toks, buf + of_nat s)"
proof -
  have "s \<le> length cs" using skip_at_bounds [OF assms(2)] by (simp add: s_def)
  with char_at [OF assms(1) this] show ?thesis
    unfolding peek_def skip_while_at [OF assms(1, 2)] s_def [symmetric]
    by (cases "s = length cs") (auto simp: Let_def)
qed

abbreviation is_plain :: "u8 \<Rightarrow> bool" where
  "is_plain c \<equiv> \<not> is_space c \<and> \<not> is_symbol c"

lemma symbol_cases: "is_symbol c \<longleftrightarrow> c \<in> set [124, 40, 41, 59, 38, 60] \<or> c = 62"
  by (auto simp: is_symbol_def symbols_def)

lemma space_not_symbol: "is_space c \<Longrightarrow> \<not> is_symbol c"
  by (auto simp: is_space_def whitespace_def is_symbol_def symbols_def)

lemma gettoken_at:
  assumes "line_at m buf cs" and "k \<le> length cs"
  defines "s \<equiv> skip_at is_space cs k" and "es \<equiv> buf + of_nat (length cs)"
  defines "e \<equiv> skip_at is_plain cs s"
  shows "s = length cs \<Longrightarrow> gettoken m (buf + of_nat k) es = (0, es, es, es)"
    and "s < length cs \<Longrightarrow> is_symbol (cs ! s) \<Longrightarrow> fst (gettoken m (buf + of_nat k) es) \<noteq> 0 \<and> fst (gettoken m (buf + of_nat k) es) \<noteq> 97"
    and "s < length cs \<Longrightarrow> \<not> is_symbol (cs ! s) \<Longrightarrow>
         gettoken m (buf + of_nat k) es = (97, buf + of_nat s, buf + of_nat e, buf + of_nat (skip_at is_space cs e))"
proof -
  have s: "s \<le> length cs" using skip_at_bounds [OF assms(2)] by (simp add: s_def)
  note q = skip_while_at [where P = is_space, OF assms(1, 2), folded s_def es_def]
  note c = char_at [OF assms(1) s]
  show "gettoken m (buf + of_nat k) es = (0, es, es, es)" if "s = length cs"
    using that c(1) unfolding gettoken_def q Let_def
    by (simp add: es_def skip_while.simps [of _ _ "buf + of_nat (length cs)"])
  show "fst (gettoken m (buf + of_nat k) es) \<noteq> 0 \<and> fst (gettoken m (buf + of_nat k) es) \<noteq> 97"
    if "s < length cs" "is_symbol (cs ! s)"
    using that(2) unfolding symbol_cases gettoken_def q Let_def c(2) [OF that(1)] by auto
  have e: "e \<le> length cs" using skip_at_bounds [OF s] by (simp add: e_def)
  show "gettoken m (buf + of_nat k) es = (97, buf + of_nat s, buf + of_nat e, buf + of_nat (skip_at is_space cs e))"
    if "s < length cs" "\<not> is_symbol (cs ! s)"
  proof -
    have "m (buf + of_nat s) \<noteq> 0" "m (buf + of_nat s) \<notin> set [124, 40, 41, 59, 38, 60]" "m (buf + of_nat s) \<noteq> 62"
      using that c by (auto simp: symbol_cases)
    moreover have "skip_while is_plain m (buf + of_nat s) es = buf + of_nat e"
      by (simp add: skip_while_at [OF assms(1) s] e_def es_def)
    moreover have "skip_while is_space m (buf + of_nat e) es = buf + of_nat (skip_at is_space cs e)"
      by (simp add: skip_while_at [OF assms(1) e] es_def)
    ultimately show ?thesis unfolding gettoken_def q Let_def by simp
  qed
qed

section \<open>The parser on a line\<close>

text \<open>No symbol from a position on, and the pointers of a span.\<close>

definition no_symbol :: "u8 list \<Rightarrow> nat \<Rightarrow> bool" where
  "no_symbol cs k \<longleftrightarrow> (\<forall>i. k \<le> i \<longrightarrow> i < length cs \<longrightarrow> \<not> is_symbol (cs ! i))"

definition pointers :: "u64 \<Rightarrow> nat \<times> nat \<Rightarrow> u64 \<times> u64" where
  "pointers buf = (\<lambda>(s, e). (buf + of_nat s, buf + of_nat e))"

lemma skip_at_idem: "skip_at P cs (skip_at P cs k) = skip_at P cs k"
proof (cases "skip_at P cs k < length cs")
  case True
  then show ?thesis by (simp add: skip_at_stop skip_at_stops)
qed (simp add: skip_at_def)

lemma spans_skip: "spans cs (skip_at is_space cs k) = spans cs k"
  by (simp add: spans.simps [of cs k] spans.simps [of cs "skip_at is_space cs k"] skip_at_idem Let_def)

lemma skip_at_cong:
  assumes "\<And>i. k \<le> i \<Longrightarrow> i < length cs \<Longrightarrow> P (cs ! i) = Q (cs ! i)"
  shows "skip_at P cs k = skip_at Q cs k"
proof -
  have "takeWhile P (drop k cs) = takeWhile Q (drop k cs)"
    using assms by (intro takeWhile_cong refl) (auto simp: in_set_conv_nth)
  then show ?thesis by (simp add: skip_at_def)
qed

lemma token_step:
  assumes "k \<le> length cs" and s: "s = skip_at is_space cs k" and "s < length cs" and plain: "\<not> is_symbol (cs ! s)"
    and e: "e = skip_at is_plain cs s" and k': "k' = skip_at is_space cs e"
  shows "no_symbol cs k = no_symbol cs k'"
    and "no_symbol cs k \<Longrightarrow> spans cs k = (s, e) # spans cs k'"
    and "k' \<le> length cs"
proof -
  have ks: "k \<le> s" using skip_at_bounds [OF assms(1)] s by simp
  have se: "s \<le> e" "e \<le> length cs" using skip_at_bounds [of s cs is_plain] assms(3) e by simp_all
  have ek: "e \<le> k'" "k' \<le> length cs" using skip_at_bounds [of e cs is_space] se k' by simp_all
  then show "k' \<le> length cs" by simp
  have "\<not> is_symbol (cs ! i)" if "k \<le> i" "i < k'" for i
  proof -
    consider "i < s" | "s \<le> i" "i < e" | "e \<le> i" using that by linarith
    then show ?thesis
    proof cases
      case 1 then show ?thesis using that skip_at_between [of k i is_space cs] s by (simp add: space_not_symbol)
    next
      case 2 then show ?thesis using skip_at_between [of s i is_plain cs] e by simp
    next
      case 3 then show ?thesis using that skip_at_between [of e i is_space cs] k' by (simp add: space_not_symbol)
    qed
  qed
  then show ns: "no_symbol cs k = no_symbol cs k'"
    using ks se ek unfolding no_symbol_def by (meson le_trans not_le_imp_less)
  assume "no_symbol cs k"
  then have "skip_at (\<lambda>c. \<not> is_space c) cs s = e"
    unfolding e using ks by (intro skip_at_cong) (simp add: no_symbol_def)
  then show "spans cs k = (s, e) # spans cs k'"
    using assms(3) by (simp add: spans.simps [of cs k] k' spans_skip Let_def flip: s)
qed

text \<open>What the loop returns from a position, with \<open>argc\<close> arguments found before.\<close>

definition parsed :: "u64 \<Rightarrow> u8 list \<Rightarrow> u64 \<Rightarrow> nat \<Rightarrow> nat \<Rightarrow> (u64 \<Rightarrow> u8) \<Rightarrow> (string + u64) \<times> (u64 \<Rightarrow> u8) \<Rightarrow> bool" where
  "parsed buf cs cmd k argc m = (\<lambda>(r, m').
     (\<forall>x. \<not> within (cmd + 8) 160 x \<longrightarrow> m' x = m x) \<and>
     (if no_symbol cs k \<and> argc + length (spans cs k) < 10
      then r = Inr (buf + of_nat (length cs)) \<and>
        map (args m' cmd) [0..<Suc (argc + length (spans cs k))] =
        map (args m cmd) [0..<argc] @ map (pointers buf) (spans cs k) @ [(0, 0)]
      else \<forall>p. r = Inr p \<longrightarrow> (\<exists>i < length cs. p = buf + of_nat i \<and> is_symbol (cs ! i))))"

lemma map_args_put:
  "argc < 10 \<Longrightarrow> map (args (put_arg cmd argc v m) cmd) [0..<Suc argc] = map (args m cmd) [0..<argc] @ [v]"
  by (simp add: args_put_arg)

lemma parse_loop_at:
  assumes "line_at m buf cs" and "k \<le> length cs" and "argc < 10"
    and apart: "\<forall>j \<le> length cs. \<not> within (cmd + 8) 160 (buf + of_nat j)"
  shows "parsed buf cs cmd k argc m (parse_loop m (buf + of_nat k) (buf + of_nat (length cs)) argc cmd)"
  using assms(1-3)
proof (induction "10 - argc" arbitrary: m k argc)
  case (Suc n)
  define s where "s = skip_at is_space cs k"
  define es where "es = buf + of_nat (length cs)"
  note pk = peek_at [OF Suc.prems(1, 2), folded s_def es_def]
  have s: "s \<le> length cs" using skip_at_bounds [OF Suc.prems(2)] by (simp add: s_def)
  have ss: "skip_at is_space cs s = s" by (simp add: s_def skip_at_idem)
  note tk = gettoken_at [OF Suc.prems(1) s, unfolded ss, folded es_def]
  consider (fin) "s = length cs" | (sym) "s < length cs" "is_symbol (cs ! s)" | (word) "s < length cs" "\<not> is_symbol (cs ! s)"
    using s by linarith
  then show ?case
  proof cases
    case fin
    have "no_symbol cs k"
      unfolding no_symbol_def using skip_at_between [of k _ is_space cs] fin space_not_symbol by (metis s_def)
    moreover have "spans cs k = []" using fin by (simp add: spans.simps [of cs k] s_def)
    ultimately show ?thesis
      using fin Suc.prems(3) tk(1)
      by (simp add: parse_loop.simps [of m] pk parsed_def put_arg_other map_args_put es_def flip: es_def del: upt_Suc)
  next
    case sym
    then have "\<not> no_symbol cs k" using skip_at_bounds [OF Suc.prems(2)] by (auto simp: no_symbol_def s_def)
    then show ?thesis
      using sym Suc.prems(3) tk(2) unfolding es_def [symmetric]
      by (auto simp: parse_loop.simps [of m] pk parsed_def put_arg_other split: prod.splits)
  next
    case word
    define e where "e = skip_at is_plain cs s"
    define k' where "k' = skip_at is_space cs e"
    define m' where "m' = put_arg cmd argc (buf + of_nat s, buf + of_nat e) m"
    note st = token_step [OF Suc.prems(2) s_def word e_def k'_def]
    have "cs ! s \<notin> set [124, 41, 38, 59]" using word(2) by (auto simp: is_symbol_def symbols_def)
    then have run: "parse_loop m (buf + of_nat k) es argc cmd =
        (if MAX_WORDS \<le> argc + 1 then (Inl ''too many args'', m') else parse_loop m' (buf + of_nat k') es (argc + 1) cmd)"
      using word tk(3) by (subst parse_loop.simps) (simp add: pk e_def k'_def m'_def)
    show ?thesis
    proof (cases "10 \<le> argc + 1")
      case True
      then have "\<not> (no_symbol cs k \<and> argc + length (spans cs k) < 10)" using st(2) by auto
      with True Suc.prems(3) show ?thesis
        unfolding es_def [symmetric] run by (auto simp: parsed_def m'_def put_arg_other)
    next
      case False
      have line: "line_at m' buf cs" using Suc.prems apart by (simp add: m'_def line_at_put_arg)
      have "parsed buf cs cmd k' (argc + 1) m' (parse_loop m' (buf + of_nat k') es (argc + 1) cmd)"
        unfolding es_def using Suc.hyps(2) False by (intro Suc.hyps(1) line st(3)) simp_all
      moreover have "m' x = m x" if "\<not> within (cmd + 8) 160 x" for x
        using that Suc.prems(3) by (simp add: m'_def put_arg_other)
      moreover have "map (args m' cmd) [0..<Suc argc] = map (args m cmd) [0..<argc] @ [pointers buf (s, e)]"
        using Suc.prems(3) by (simp add: m'_def map_args_put pointers_def del: upt_Suc)
      ultimately show ?thesis
        using False st unfolding es_def [symmetric] run
        by (auto simp: parsed_def simp del: upt_Suc split: prod.splits if_splits)
    qed
  qed
qed simp

lemma spans_in:
  "(s, e) \<in> set (spans cs k) \<Longrightarrow>
   s < e \<and> e \<le> length cs \<and> (\<forall>i. s \<le> i \<longrightarrow> i < e \<longrightarrow> \<not> is_space (cs ! i)) \<and> (e < length cs \<longrightarrow> is_space (cs ! e))"
proof (induction cs k rule: spans.induct)
  case (1 cs k)
  define a where "a = skip_at is_space cs k"
  define b where "b = skip_at (\<lambda>c. \<not> is_space c) cs a"
  from 1(2) have less: "a < length cs" by (auto simp: spans.simps [of cs k] a_def [symmetric] split: if_splits)
  then have "\<not> is_space (cs ! a)" by (simp add: a_def skip_at_stops)
  with less have "b = skip_at (\<lambda>c. \<not> is_space c) cs (Suc a)" by (simp add: b_def skip_at_Suc)
  with less have "a < b" "b \<le> length cs" using skip_at_bounds [of "Suc a" cs "\<lambda>c. \<not> is_space c"] by simp_all
  moreover have "\<not> is_space (cs ! i)" if "a \<le> i" "i < b" for i
    using that skip_at_between [of a i "\<lambda>c. \<not> is_space c" cs] by (simp add: b_def)
  moreover have "is_space (cs ! b)" if "b < length cs"
    using that skip_at_stops [of "\<lambda>c. \<not> is_space c" cs a] by (simp add: b_def)
  moreover have "(s, e) = (a, b) \<or> (s, e) \<in> set (spans cs b)"
    using 1(2) less by (auto simp: spans.simps [of cs k] Let_def b_def simp flip: a_def)
  moreover note 1(1) [OF a_def _ b_def]
  ultimately show ?case using less by auto
qed

section \<open>Terminating the arguments\<close>

definition zeros :: "u64 list \<Rightarrow> (u64 \<Rightarrow> u8) \<Rightarrow> (u64 \<Rightarrow> u8)" where
  "zeros as m = (\<lambda>x. if x \<in> set as then 0 else m x)"

lemma null_args_zeros:
  assumes "map (args m cmd) [0..<Suc (length ps)] = ps @ [(0, 0)]" and "length ps < 10" and "i \<le> length ps"
    and "\<forall>(q, e) \<in> set ps. q \<noteq> 0 \<and> \<not> within (cmd + 8) 160 e"
  shows "null_args m cmd i = Some (zeros (map snd (drop i ps)) m)"
  using assms(1, 3)
proof (induction "length ps - i" arbitrary: i m)
  case 0
  then have "i = length ps" by simp
  moreover have "args m cmd (length ps) = (0, 0)" using 0(2) by simp
  ultimately show ?case using assms(2) by (simp add: null_args.simps [of m] zeros_def)
next
  case (Suc n)
  then have less: "i < length ps" by simp
  have at: "args m cmd j = ps ! j" if "j < length ps" for j
    using arg_cong [OF Suc.prems(1), of "\<lambda>xs. xs ! j"] that by (simp add: nth_append del: upt_Suc)
  obtain q e where qe: "ps ! i = (q, e)" by (cases "ps ! i")
  with less have "(q, e) \<in> set ps" by (metis nth_mem)
  with assms(4) have ok: "q \<noteq> 0" "\<not> within (cmd + 8) 160 e" by auto
  have "map (args (m(e := 0)) cmd) [0..<Suc (length ps)] = map (args m cmd) [0..<Suc (length ps)]"
    using assms(2) ok(2) by (auto simp: args_update_other simp del: upt_Suc)
  then have "null_args (m(e := 0)) cmd (i + 1) = Some (zeros (map snd (drop (i + 1) ps)) (m(e := 0)))"
    using Suc less by (intro Suc.hyps(1)) (simp_all del: upt_Suc)
  moreover have "zeros (map snd (drop (i + 1) ps)) (m(e := 0)) = zeros (map snd (drop i ps)) m"
    using less qe by (auto simp: zeros_def simp flip: Cons_nth_drop_Suc)
  ultimately show ?case
    using less assms(2) ok at [OF less] qe by (simp add: null_args.simps [of m])
qed

lemma args_zeros:
  assumes "i < 10" and "\<forall>x \<in> set as. \<not> within (cmd + 8) 160 x"
  shows "args (zeros as m) cmd i = args m cmd i"
proof -
  have "zeros as m x = m x" if "within (ARGV cmd i) 8 x \<or> within (EARGV cmd i) 8 x" for x
    using args_within [OF assms(1) that] assms(2) by (auto simp: zeros_def)
  then show ?thesis by (simp add: args_def uload64_cong [where m = "zeros as m" and m' = m])
qed

lemma ucstr_at:
  "\<forall>i < length w. m (a + of_nat i) = w ! i \<Longrightarrow> 0 \<notin> set w \<Longrightarrow> m (a + of_nat (length w)) = 0 \<Longrightarrow> ucstr m a = Some w"
proof (induction w arbitrary: a)
  case (Cons c w)
  have "ucstr m (a + 1) = Some w"
  proof (rule Cons.IH)
    show "\<forall>i < length w. m (a + 1 + of_nat i) = w ! i"
    proof (intro allI impI)
      fix i assume "i < length w"
      with Cons.prems(1) [rule_format, of "Suc i"] show "m (a + 1 + of_nat i) = w ! i" by (simp add: add.assoc)
    qed
  qed (use Cons.prems in \<open>auto simp: add.assoc\<close>)
  moreover have "m a = c" using Cons.prems(1) by (auto dest: spec [of _ 0])
  ultimately show ?case using Cons.prems(2) by (subst ucstr.simps) auto
qed (simp add: ucstr.simps)

lemma words_terminated:
  assumes line: "line_at m buf cs" and span: "(s, e) \<in> set (spans cs 0)"
  defines "as \<equiv> map (snd \<circ> pointers buf) (spans cs 0)"
  shows "ucstr (zeros as m) (buf + of_nat s) = Some (slice cs (s, e))"
proof (rule ucstr_at)
  note se = spans_in [OF span]
  have len: "length (slice cs (s, e)) = e - s" using se by (auto simp: slice_def)
  have as: "\<exists>e'. buf + of_nat j = buf + of_nat e' \<and> e' \<le> length cs \<and> (e' < length cs \<longrightarrow> is_space (cs ! e'))"
    if "buf + of_nat j \<in> set as" for j
    using that spans_in [of _ _ cs 0] by (fastforce simp: as_def pointers_def)
  have "buf + of_nat j \<notin> set as" if "s \<le> j" "j < e" for j
  proof
    assume "buf + of_nat j \<in> set as"
    then obtain e' where "buf + of_nat j = buf + of_nat e'" "e' \<le> length cs" "e' < length cs \<longrightarrow> is_space (cs ! e')"
      using as by blast
    moreover have "j \<le> length cs" using that se by simp
    ultimately have "j = e'" using at_less(2) [OF line] by blast
    with \<open>e' < length cs \<longrightarrow> is_space (cs ! e')\<close> that se show False by auto
  qed
  then have keep: "zeros as m (buf + of_nat j) = cs ! j" if "s \<le> j" "j < e" for j
    using that se line by (simp add: zeros_def line_at_def)
  show "\<forall>i < length (slice cs (s, e)). zeros as m (buf + of_nat s + of_nat i) = slice cs (s, e) ! i"
  proof (intro allI impI)
    fix i assume "i < length (slice cs (s, e))"
    with keep [of "s + i"] se len show "zeros as m (buf + of_nat s + of_nat i) = slice cs (s, e) ! i"
      by (simp add: slice_def add.assoc)
  qed
  show "0 \<notin> set (slice cs (s, e))"
    using line by (auto simp: line_at_def slice_def dest: in_set_takeD in_set_dropD)
  have "buf + of_nat e \<in> set as" using span by (force simp: as_def pointers_def)
  moreover have "buf + of_nat s + of_nat (e - s) = buf + of_nat e" using se by (simp add: add.assoc flip: of_nat_add)
  ultimately show "zeros as m (buf + of_nat s + of_nat (length (slice cs (s, e)))) = 0"
    by (simp only: len) (simp add: zeros_def)
qed

section \<open>Command lines\<close>

lemma exit_noreturn: "exit ecall c s \<noteq> Inr x"
  by (simp add: exit_def split: option.splits)

lemma panic_noreturn: "panic ecall out lit msg s \<noteq> Inr x"
  by (auto simp: panic_def kthen_def kbind_def exit_noreturn split: sum.splits)

lemma line_at_cong:
  "line_at m buf cs \<Longrightarrow> \<forall>j \<le> length cs. m' (buf + of_nat j) = m (buf + of_nat j) \<Longrightarrow> line_at m' buf cs"
  by (simp add: line_at_def)

lemma ucstr_line: "line_at m buf cs \<Longrightarrow> ucstr m buf = Some cs"
  by (rule ucstr_at) (simp_all add: line_at_def)

text \<open>The memory after \<^verbatim>\<open>execcmd\<close>.\<close>

definition fresh_cmd :: "u64 \<Rightarrow> (u64 \<Rightarrow> u8) \<Rightarrow> (u64 \<Rightarrow> u8)" where
  "fresh_cmd cmd m = put_bytes cmd [EXEC, 0, 0, 0] (put_bytes cmd (replicate 168 0) m)"

lemma fresh_cmd_other: "\<not> within cmd 168 x \<Longrightarrow> fresh_cmd cmd m x = m x"
  by (auto simp: fresh_cmd_def put_bytes_apply within_def)

lemma fresh_cmd_type: "ubytes (fresh_cmd cmd m) cmd 4 = [EXEC, 0, 0, 0]"
  unfolding fresh_cmd_def by (rule ubytes_put_bytes) simp_all

lemma outside_args: "\<not> within cmd 168 x \<Longrightarrow> \<not> within (cmd + 8) 160 x"
  using within_shift [of cmd 8 160 x] by (auto simp: within_def)

lemma type_outside_args: "i < 4 \<Longrightarrow> \<not> within (cmd + 8) 160 (cmd + of_nat i)"
proof -
  assume "i < 4"
  then have "i = 0 \<or> i = 1 \<or> i = 2 \<or> i = 3" by arith
  then show ?thesis by (auto simp: within_def)
qed

lemma parseline_eq:
  assumes "ecall [SYS_user_allocate_page, 0, 0, 0, 0, 0, 0, 0] st = Some (r, t)"
  defines "cmd \<equiv> scast (ucast r :: i32)"
  shows "parseline ecall out lit ps es st =
    (case parse_loop (fresh_cmd cmd (umem t)) ps es 0 cmd of
       (Inl msg, m) \<Rightarrow> panic ecall out lit msg (t\<lparr>umem := m\<rparr>)
     | (Inr ps', m) \<Rightarrow> Inr ((cmd, ps'), t\<lparr>umem := m\<rparr>))"
  using assms(1)
  by (simp add: parseline_def parsepipe_def parseexec_def execcmd_def naive_malloc_def do_user_call_def cmd_def
      kdefs fresh_cmd_def split: prod.splits sum.splits)

lemma no_symbol_0: "no_symbol cs 0 \<longleftrightarrow> (\<forall>c \<in> set cs. \<not> is_symbol c)"
  unfolding no_symbol_def by (metis in_set_conv_nth le0)

lemma line_unit: "line_at m buf cs \<Longrightarrow> buf \<noteq> 0 \<Longrightarrow> s \<le> length cs \<Longrightarrow> buf + of_nat s \<noteq> 0"
proof
  assume "line_at m buf cs" "buf \<noteq> 0" "s \<le> length cs" "buf + of_nat s = 0"
  moreover have "unat (buf + of_nat s) = unat buf + s"
    using calculation(1, 3) by (simp add: line_at_def unat_word_ariths unsigned_of_nat take_bit_nat_eq_self)
  ultimately show False by (simp add: unat_eq_0)
qed

lemma nulterminate_words:
  assumes line: "line_at m buf cs" and "buf \<noteq> 0" and "cmd \<noteq> 0" and n: "length (spans cs 0) < 10"
    and ty: "ubytes m cmd 4 = [EXEC, 0, 0, 0]"
    and args: "map (args m cmd) [0..<Suc (length (spans cs 0))] = map (pointers buf) (spans cs 0) @ [(0, 0)]"
    and apart: "\<forall>j \<le> length cs. \<not> within (cmd + 8) 160 (buf + of_nat j)"
  shows "\<exists>m'. nulterminate cmd (t\<lparr>umem := m\<rparr>) = Inr ((), t\<lparr>umem := m'\<rparr>) \<and>
    map (\<lambda>i. ucstr m' (uload64 m' (ARGV cmd i))) [0..<length (words cs)] = map Some (words cs) \<and>
    uload64 m' (ARGV cmd (length (words cs))) = 0"
proof -
  define m' where "m' = zeros (map (snd \<circ> pointers buf) (spans cs 0)) m"
  have ps: "\<forall>(q, e) \<in> set (map (pointers buf) (spans cs 0)). q \<noteq> 0 \<and> \<not> within (cmd + 8) 160 e"
  proof (clarsimp simp: pointers_def)
    fix s e assume "(s, e) \<in> set (spans cs 0)"
    from spans_in [OF this] show "buf + of_nat s \<noteq> 0 \<and> \<not> within (cmd + 8) 160 (buf + of_nat e)"
      using line_unit [OF line assms(2), of s] apart by simp
  qed
  have run: "null_args m cmd 0 = Some m'"
    using null_args_zeros [OF _ _ _ ps, of m 0] n args by (simp add: m'_def del: upt_Suc)
  have keep: "args m' cmd i = args m cmd i" if "i < 10" for i
    using that ps unfolding m'_def by (intro args_zeros) (auto simp: case_prod_beta)
  have len: "length (words cs) = length (spans cs 0)" using words_spans [of 0 cs] by simp
  have at: "args m' cmd i = (map (pointers buf) (spans cs 0) @ [(0, 0)]) ! i" if "i \<le> length (spans cs 0)" for i
    using keep [of i] n that arg_cong [OF args, of "\<lambda>xs. xs ! i"] by (simp del: upt_Suc)
  have "ucstr m' (uload64 m' (ARGV cmd i)) = Some (words cs ! i)" if "i < length (words cs)" for i
  proof -
    obtain s e where se: "spans cs 0 ! i = (s, e)" by (cases "spans cs 0 ! i")
    with that len have span: "(s, e) \<in> set (spans cs 0)" by (metis nth_mem)
    have "uload64 m' (ARGV cmd i) = buf + of_nat s"
      using at [of i] that len se by (simp add: args_def nth_append pointers_def)
    moreover have "words cs ! i = slice cs (s, e)" using words_spans [of 0 cs] that len se by simp
    ultimately show ?thesis using words_terminated [OF line span] by (simp add: m'_def)
  qed
  moreover have "uload64 m' (ARGV cmd (length (words cs))) = 0"
    using at [of "length (spans cs 0)"] len by (simp add: args_def nth_append)
  moreover have "nulterminate cmd (t\<lparr>umem := m\<rparr>) = Inr ((), t\<lparr>umem := m'\<rparr>)"
    using assms(3) ty run by (simp add: nulterminate_def kdefs)
  ultimately show ?thesis by (intro exI [of _ m']) (auto intro: nth_equalityI)
qed

lemma peek_stays:
  assumes "line_at m buf cs" and "i < length cs" and "is_symbol (cs ! i)"
  shows "snd (peek m (buf + of_nat i) (buf + of_nat (length cs)) toks) \<noteq> buf + of_nat (length cs)"
proof -
  have "skip_at is_space cs i = i" using assms(2, 3) space_not_symbol by (blast intro: skip_at_stop)
  then show ?thesis
    using peek_at [OF assms(1), of i toks] at_less(2) [OF assms(1), of i "length cs"] assms(2) by simp
qed

lemma command_parsed:
  assumes line: "line_at (umem st) buf cs"
    and same: "\<forall>j \<le> length cs. umem t (buf + of_nat j) = umem st (buf + of_nat j)"
    and apart: "\<forall>j \<le> length cs. \<not> within cmd 168 (buf + of_nat j)"
    and p: "parse_loop (fresh_cmd cmd (umem t)) buf (buf + of_nat (length cs)) 0 cmd = (res, m)"
  shows "parsed buf cs cmd 0 0 (fresh_cmd cmd (umem t)) (res, m)" and "line_at m buf cs"
    and "ubytes m cmd 4 = [EXEC, 0, 0, 0]" and "\<forall>j \<le> length cs. \<not> within (cmd + 8) 160 (buf + of_nat j)"
proof -
  have line0: "line_at (fresh_cmd cmd (umem t)) buf cs"
    using line by (rule line_at_cong) (use same apart in \<open>simp add: fresh_cmd_other\<close>)
  show apart': "\<forall>j \<le> length cs. \<not> within (cmd + 8) 160 (buf + of_nat j)"
    using apart outside_args by blast
  show parsed: "parsed buf cs cmd 0 0 (fresh_cmd cmd (umem t)) (res, m)"
    using parse_loop_at [OF line0 _ _ apart', of 0 0] p by simp
  then have other: "m x = fresh_cmd cmd (umem t) x" if "\<not> within (cmd + 8) 160 x" for x
    using that by (simp add: parsed_def)
  show "line_at m buf cs" using line0 by (rule line_at_cong) (simp add: other apart')
  show "ubytes m cmd 4 = [EXEC, 0, 0, 0]"
    unfolding fresh_cmd_type [of cmd "umem t", symmetric] ubytes_def
    by (intro map_cong refl other type_outside_args) simp
qed

text \<open>
  C11: On a line of characters the shell accepts exactly the lines with no symbol character and
  fewer than ten words, and leaves an argument array whose strings are the words of the line,
  in order, with a null pointer behind them. On every other line the parser does not return.
\<close>

theorem parsecmd_splits:
  assumes line: "line_at (umem st) buf cs" and "buf \<noteq> 0"
    and malloc: "ecall [SYS_user_allocate_page, 0, 0, 0, 0, 0, 0, 0] st = Some (r, t)"
    and cmd: "cmd = scast (ucast r :: i32)" and "cmd \<noteq> 0"
    and same: "\<forall>j \<le> length cs. umem t (buf + of_nat j) = umem st (buf + of_nat j)"
    and apart: "\<forall>j \<le> length cs. \<not> within cmd 168 (buf + of_nat j)"
  shows "if (\<forall>c \<in> set cs. \<not> is_symbol c) \<and> length (words cs) < 10
    then \<exists>u. parsecmd ecall out lit buf st = Inr (cmd, u) \<and>
      map (\<lambda>i. ucstr (umem u) (uload64 (umem u) (ARGV cmd i))) [0..<length (words cs)] = map Some (words cs) \<and>
      uload64 (umem u) (ARGV cmd (length (words cs))) = 0
    else \<forall>x. parsecmd ecall out lit buf st \<noteq> Inr x"
proof -
  define es where "es = buf + of_nat (length cs)"
  obtain res m where p: "parse_loop (fresh_cmd cmd (umem t)) buf es 0 cmd = (res, m)" by fastforce
  note parsed = command_parsed(1) [OF line same apart p [unfolded es_def]]
    and line1 = command_parsed(2) [OF line same apart p [unfolded es_def]]
    and ty = command_parsed(3) [OF line same apart p [unfolded es_def]]
    and apart' = command_parsed(4) [OF line same apart p [unfolded es_def]]
  note start = ucstr_line [OF line] parseline_eq [where ecall = ecall and st = st, OF malloc, folded cmd]
  show ?thesis
  proof (cases "no_symbol cs 0 \<and> length (spans cs 0) < 10")
    case True
    with parsed have r: "res = Inr es"
      and args: "map (args m cmd) [0..<Suc (length (spans cs 0))] = map (pointers buf) (spans cs 0) @ [(0, 0)]"
      by (auto simp: parsed_def es_def simp del: upt_Suc)
    have "snd (peek m es es []) = es" by (simp add: peek_def skip_while.simps [of _ _ es es])
    moreover obtain m' where "nulterminate cmd (t\<lparr>umem := m\<rparr>) = Inr ((), t\<lparr>umem := m'\<rparr>)"
      and "map (\<lambda>i. ucstr m' (uload64 m' (ARGV cmd i))) [0..<length (words cs)] = map Some (words cs)"
      and "uload64 m' (ARGV cmd (length (words cs))) = 0"
      using nulterminate_words [OF line1 assms(2, 5) _ ty args apart', of t] True by blast
    ultimately show ?thesis
      using True words_spans [of 0 cs]
      by (auto simp: parsecmd_def kdefs start p r no_symbol_0 simp flip: es_def)
  next
    case False
    then have "\<not> ((\<forall>c \<in> set cs. \<not> is_symbol c) \<and> length (words cs) < 10)"
      using words_spans [of 0 cs] by (simp add: no_symbol_0)
    moreover have "parsecmd ecall out lit buf st \<noteq> Inr x" for x
    proof (cases res)
      case (Inl msg)
      then show ?thesis
        by (auto simp: panic_noreturn parsecmd_def kdefs start p Let_def simp flip: es_def split: sum.splits)
    next
      case (Inr q)
      with False parsed obtain i where "i < length cs" "q = buf + of_nat i" "is_symbol (cs ! i)"
        by (auto simp: parsed_def)
      with peek_stays [OF line1] have "snd (peek m q es []) \<noteq> es" by (simp add: es_def)
      then show ?thesis using Inr
        by (auto simp: panic_noreturn parsecmd_def kdefs start p Let_def simp flip: es_def split: sum.splits)
    qed
    ultimately show ?thesis by simp
  qed
qed

lemma line_at_put: "0 \<notin> set cs \<Longrightarrow> unat buf + length cs < 2 ^ 64 \<Longrightarrow> line_at (put_bytes buf cs (\<lambda>_. 0)) buf cs"
  by (auto simp: line_at_def put_bytes_apply within_def unat_of_nat64)

definition sample_line :: "u8 list" where
  "sample_line = map of_char '' echo  a b''"

lemma sample_words: "(\<forall>c \<in> set sample_line. \<not> is_symbol c)" "words sample_line = map (map of_char) [''echo'', ''a'', ''b'']"
  by code_simp+

theorem parsecmd_splits_witness:
  "\<exists>u :: unit ustate.
     parsecmd (\<lambda>a s. Some (0x400000, s)) 0x3000 (\<lambda>_. 0) 0x1000
       \<lparr>umem = put_bytes 0x1000 sample_line (\<lambda>_. 0), world = ()\<rparr> = Inr (0x400000, u) \<and>
     map (\<lambda>i. ucstr (umem u) (uload64 (umem u) (ARGV 0x400000 i))) [0..<3] =
       map (Some \<circ> map of_char) [''echo'', ''a'', ''b'']"
proof -
  have "line_at (put_bytes 0x1000 sample_line (\<lambda>_. 0)) 0x1000 sample_line"
    by (rule line_at_put) (simp_all add: sample_line_def)
  moreover have "\<not> within 0x400000 168 (0x1000 + of_nat j)" if "j \<le> length sample_line" for j
  proof -
    have "j \<le> 10" using that by (simp add: sample_line_def)
    then have "j = 0 \<or> j = 1 \<or> j = 2 \<or> j = 3 \<or> j = 4 \<or> j = 5 \<or> j = 6 \<or> j = 7 \<or> j = 8 \<or> j = 9 \<or> j = 10" by arith
    then show ?thesis by (elim disjE) (simp_all add: within_def)
  qed
  ultimately show ?thesis
    using parsecmd_splits [of "\<lparr>umem = put_bytes 0x1000 sample_line (\<lambda>_. 0), world = ()\<rparr>" "0x1000" sample_line
        "\<lambda>a s. Some (0x400000, s)" "0x400000" _ "0x400000" "0x3000" "\<lambda>_. 0"] sample_words
    by (auto simp: numeral_3_eq_3)
qed

fun prefix_at :: "(u64 \<Rightarrow> u8) \<Rightarrow> u64 \<Rightarrow> u8 list \<Rightarrow> bool" where
  "prefix_at m a [] \<longleftrightarrow> True"
| "prefix_at m a (c # cs) \<longleftrightarrow> m a = c \<and> prefix_at m (a + 1) cs"

lemma prefix_at_line:
  "line_at m buf cs \<Longrightarrow> s \<le> length cs \<Longrightarrow> 0 \<notin> set w \<Longrightarrow>
   prefix_at m (buf + of_nat s) w \<longleftrightarrow> take (length w) (drop s cs) = w"
proof (induction w arbitrary: s)
  case (Cons c w)
  show ?case
  proof (cases "s = length cs")
    case True
    then show ?thesis using Cons.prems char_at(1) [OF Cons.prems(1, 2)] by auto
  next
    case False
    then have less: "s < length cs" using Cons.prems(2) by simp
    have "buf + of_nat s + 1 = buf + of_nat (Suc s)" by simp
    then show ?thesis
      using Cons.IH [of "Suc s"] Cons.prems less char_at(2) [OF Cons.prems(1, 2) less]
      by (simp add: Cons_nth_drop_Suc [symmetric] ac_simps)
  qed
qed simp

text \<open>
  C39: The test for the end of the session: a line ends the shell exactly when its first four
  characters behind the leading whitespace are \<^verbatim>\<open>exit\<close>, whatever follows them.
\<close>

theorem isExit_prefix:
  assumes "line_at (umem st) buf cs"
  shows "isExit buf st = Inr (take 4 (dropWhile is_space cs) = map of_char ''exit'', st)"
proof -
  define s where "s = skip_at is_space cs 0"
  have "s \<le> length cs" using skip_at_bounds [of 0 cs is_space] by (simp add: s_def)
  moreover have "skip_while is_space (umem st) buf (buf + of_nat (length cs)) = buf + of_nat s"
    using skip_while_at [OF assms, of 0] by (simp add: s_def)
  moreover have "drop s cs = dropWhile is_space cs" using drop_skip_at [of is_space cs 0] by (simp add: s_def)
  moreover have len: "length (map of_char ''exit'' :: u8 list) = 4" by simp
  ultimately show ?thesis
    using prefix_at_line [OF assms, of s "map of_char ''exit''", unfolded len]
    by (simp add: isExit_def kdefs ucstr_line [OF assms] Let_def add.assoc)
qed

theorem isExit_prefix_witness:
  "isExit 0x1000 \<lparr>umem = put_bytes 0x1000 (map of_char '' exits'') (\<lambda>_. 0), world = ()\<rparr> =
     Inr (True, \<lparr>umem = put_bytes 0x1000 (map of_char '' exits'') (\<lambda>_. 0), world = ()\<rparr>)"
proof -
  have line: "line_at (put_bytes 0x1000 (map of_char '' exits'') (\<lambda>_. 0)) 0x1000 (map of_char '' exits'')"
    by (rule line_at_put) simp_all
  have "take 4 (dropWhile is_space (map of_char '' exits'')) = (map of_char ''exit'' :: u8 list)"
    by code_simp
  with isExit_prefix [of "\<lparr>umem = put_bytes 0x1000 (map of_char '' exits'') (\<lambda>_. 0), world = ()\<rparr>" "0x1000"
      "map of_char '' exits''"] line
  show ?thesis by (simp del: list.map put_bytes.simps)
qed

end
