(* ===== verification/PKE_Htif.thy ===== *)
theory PKE_Htif
  imports PKE_Spike
begin

text \<open>
  The mailbox between the machine and the emulator: \<^verbatim>\<open>spike_interface/spike_htif.c\<close>, the locks
  of \<^verbatim>\<open>spike_interface/atomic.h\<close> and the front-end call of \<^verbatim>\<open>spike_interface/spike_utils.c\<close> down
  to the two words \<^verbatim>\<open>tohost\<close> and \<^verbatim>\<open>fromhost\<close>. \<^verbatim>\<open>PKE_Spike\<close> uses the call as one step that gives
  the host's answer; here is why it may.

  The emulator runs beside the machine. It is a parameter \<open>emu\<close>, one turn of which is taken
  whenever the code is about to read one of the two volatile words. Loops that wait for the
  emulator have fuel. The machine has one hart, so a lock that is taken stays taken while
  the code spins on it.
\<close>

section \<open>State\<close>

record 'h htif_state =
  tohost :: u64
  fromhost :: u64
  htif_console_buf :: i32
  htif_lock :: i32
  call_lock :: i32
  magic_mem :: "u64 list"
  htif_there :: bool
  emulator :: 'h

type_synonym ('h, 'a) H = "('h htif_state, 'a) km"
type_synonym 'h emu = "'h htif_state \<Rightarrow> 'h htif_state"

definition TOHOST_CMD :: "u64 \<Rightarrow> u64 \<Rightarrow> u64 \<Rightarrow> u64" where
  "TOHOST_CMD dev cmd payload = push_bit 56 dev OR push_bit 48 cmd OR payload"

definition FROMHOST_DEV :: "u64 \<Rightarrow> u64" where
  "FROMHOST_DEV v = drop_bit 56 v"

definition FROMHOST_CMD :: "u64 \<Rightarrow> u64" where
  "FROMHOST_CMD v = drop_bit 56 (push_bit 8 v)"

definition FROMHOST_DATA :: "u64 \<Rightarrow> u64" where
  "FROMHOST_DATA v = drop_bit 16 (push_bit 16 v)"

section \<open>Locks\<close>

text \<open>
  The macros of \<^verbatim>\<open>atomic.h\<close> take a pointer; here the word is given by the functions that read and
  write it. On one hart with interrupts off they are plain reads and writes.
\<close>

definition atomic_read :: "('s \<Rightarrow> 'v) \<Rightarrow> ('s, 'v) km" where
  "atomic_read rd = kget rd"

definition atomic_set :: "('v \<Rightarrow> 's \<Rightarrow> 's) \<Rightarrow> 'v \<Rightarrow> ('s, unit) km" where
  "atomic_set wr v = kmod (wr v)"

definition disable_irqsave :: u64 where "disable_irqsave = 0"

definition enable_irqrestore :: "u64 \<Rightarrow> ('s, unit) km" where
  "enable_irqrestore flags = kret ()"

definition atomic_binop :: "('s \<Rightarrow> 'v) \<Rightarrow> ('v \<Rightarrow> 's \<Rightarrow> 's) \<Rightarrow> ('v \<Rightarrow> 'v) \<Rightarrow> ('s, 'v) km" where
  "atomic_binop rd wr oper =
     (let flags = disable_irqsave in
      kbind (atomic_read rd) (\<lambda>res. kthen (atomic_set wr (oper res)) (kthen (enable_irqrestore flags) (kret res))))"

definition atomic_add :: "('s \<Rightarrow> 'v) \<Rightarrow> ('v \<Rightarrow> 's \<Rightarrow> 's) \<Rightarrow> 'v \<Rightarrow> ('s, 'v :: plus) km" where
  "atomic_add rd wr inc = atomic_binop rd wr (\<lambda>res. res + inc)"

definition atomic_or :: "('s \<Rightarrow> 'v) \<Rightarrow> ('v \<Rightarrow> 's \<Rightarrow> 's) \<Rightarrow> 'v \<Rightarrow> ('s, 'v :: semiring_bit_operations) km" where
  "atomic_or rd wr inc = atomic_binop rd wr (\<lambda>res. res OR inc)"

definition atomic_swap :: "('s \<Rightarrow> 'v) \<Rightarrow> ('v \<Rightarrow> 's \<Rightarrow> 's) \<Rightarrow> 'v \<Rightarrow> ('s, 'v) km" where
  "atomic_swap rd wr inc = atomic_binop rd wr (\<lambda>res. inc)"

definition atomic_cas :: "('s \<Rightarrow> 'v) \<Rightarrow> ('v \<Rightarrow> 's \<Rightarrow> 's) \<Rightarrow> 'v \<Rightarrow> 'v \<Rightarrow> ('s, 'v) km" where
  "atomic_cas rd wr cmp swp =
     (let flags = disable_irqsave in
      kbind (atomic_read rd) (\<lambda>res.
      kthen (if res = cmp then atomic_set wr swp else kret ())
        (kthen (enable_irqrestore flags) (kret res))))"

lemmas atomic_defs = atomic_binop_def atomic_add_def atomic_or_def atomic_swap_def atomic_cas_def
  atomic_read_def atomic_set_def enable_irqrestore_def Let_def

definition spinlock_trylock :: "('s \<Rightarrow> i32) \<Rightarrow> (i32 \<Rightarrow> 's \<Rightarrow> 's) \<Rightarrow> ('s, i32) km" where
  "spinlock_trylock rd wr = atomic_swap rd wr (- 1)"

definition spinlock_lock :: "('s \<Rightarrow> i32) \<Rightarrow> (i32 \<Rightarrow> 's \<Rightarrow> 's) \<Rightarrow> ('s, unit) km" where
  "spinlock_lock rd wr =
     kbind (atomic_read rd) (\<lambda>v.
       if v \<noteq> 0 then kexits Spins
       else kbind (spinlock_trylock rd wr) (\<lambda>res. if res \<noteq> 0 then kexits Spins else kret ()))"

definition spinlock_unlock :: "(i32 \<Rightarrow> 's \<Rightarrow> 's) \<Rightarrow> ('s, unit) km" where
  "spinlock_unlock wr = atomic_set wr 0"

definition spinlock_lock_irqsave :: "('s \<Rightarrow> i32) \<Rightarrow> (i32 \<Rightarrow> 's \<Rightarrow> 's) \<Rightarrow> ('s, u64) km" where
  "spinlock_lock_irqsave rd wr =
     (let flags = disable_irqsave in kthen (spinlock_lock rd wr) (kret flags))"

definition spinlock_unlock_irqrestore :: "(i32 \<Rightarrow> 's \<Rightarrow> 's) \<Rightarrow> u64 \<Rightarrow> ('s, unit) km" where
  "spinlock_unlock_irqrestore wr flags = kthen (spinlock_unlock wr) (enable_irqrestore flags)"

abbreviation set_htif_lock :: "i32 \<Rightarrow> 'h htif_state \<Rightarrow> 'h htif_state" where
  "set_htif_lock v s \<equiv> s\<lparr>htif_lock := v\<rparr>"

abbreviation set_call_lock :: "i32 \<Rightarrow> 'h htif_state \<Rightarrow> 'h htif_state" where
  "set_call_lock v s \<equiv> s\<lparr>call_lock := v\<rparr>"

section \<open>The mailbox\<close>

definition read_fromhost :: "'h emu \<Rightarrow> ('h, u64) H" where
  "read_fromhost emu = kthen (kmod emu) (kget fromhost)"

definition read_tohost :: "'h emu \<Rightarrow> ('h, u64) H" where
  "read_tohost emu = kthen (kmod emu) (kget tohost)"

definition check_fromhost :: "'h emu \<Rightarrow> ('h, unit) H" where
  "check_fromhost emu =
     kbind (read_fromhost emu) (\<lambda>fh.
       if fh = 0 then kret ()
       else
         kthen (kmod (\<lambda>s. s\<lparr>fromhost := 0\<rparr>))
        (kthen (kguard (FROMHOST_DEV fh = 1) (Assert_fail ''FROMHOST_DEV(fh) == 1''))
           (if FROMHOST_CMD fh = 0
            then kmod (\<lambda>s. s\<lparr>htif_console_buf := 1 + ucast (ucast (FROMHOST_DATA fh) :: u8)\<rparr>)
            else if FROMHOST_CMD fh = 1 then kret ()
            else kexits (Assert_fail ''0''))))"

fun set_tohost :: "nat \<Rightarrow> 'h emu \<Rightarrow> u64 \<Rightarrow> u64 \<Rightarrow> u64 \<Rightarrow> ('h, unit) H" where
  "set_tohost 0 emu dev cmd data = kexits Spins"
| "set_tohost (Suc n) emu dev cmd data =
     kbind (read_tohost emu) (\<lambda>t.
       if t \<noteq> 0 then kthen (check_fromhost emu) (set_tohost n emu dev cmd data)
       else kmod (\<lambda>s. s\<lparr>tohost := TOHOST_CMD dev cmd data\<rparr>))"

fun await_fromhost :: "nat \<Rightarrow> 'h emu \<Rightarrow> u64 \<Rightarrow> u64 \<Rightarrow> ('h, unit) H" where
  "await_fromhost 0 emu dev cmd = kexits Spins"
| "await_fromhost (Suc n) emu dev cmd =
     kbind (read_fromhost emu) (\<lambda>fh.
       if fh \<noteq> 0
       then if FROMHOST_DEV fh = dev \<and> FROMHOST_CMD fh = cmd
            then kmod (\<lambda>s. s\<lparr>fromhost := 0\<rparr>)
            else kthen (check_fromhost emu) (await_fromhost n emu dev cmd)
       else await_fromhost n emu dev cmd)"

definition do_tohost_fromhost :: "nat \<Rightarrow> 'h emu \<Rightarrow> u64 \<Rightarrow> u64 \<Rightarrow> u64 \<Rightarrow> ('h, unit) H" where
  "do_tohost_fromhost n emu dev cmd data =
     kthen (spinlock_lock htif_lock set_htif_lock)
    (kthen (set_tohost n emu dev cmd data)
    (kthen (await_fromhost n emu dev cmd)
       (spinlock_unlock set_htif_lock)))"

definition htif_syscall :: "nat \<Rightarrow> 'h emu \<Rightarrow> u64 \<Rightarrow> ('h, unit) H" where
  "htif_syscall n emu arg = do_tohost_fromhost n emu 0 0 arg"

definition htif_console_putchar :: "nat \<Rightarrow> 'h emu \<Rightarrow> u8 \<Rightarrow> ('h, unit) H" where
  "htif_console_putchar n emu ch =
     kthen (spinlock_lock htif_lock set_htif_lock)
    (kthen (set_tohost n emu 1 1 (ucast ch))
       (spinlock_unlock set_htif_lock))"

definition htif_console_getchar :: "nat \<Rightarrow> 'h emu \<Rightarrow> ('h, i32) H" where
  "htif_console_getchar n emu =
     kthen (spinlock_lock htif_lock set_htif_lock)
    (kthen (check_fromhost emu)
    (kbind (kget htif_console_buf) (\<lambda>ch.
     kthen (if 0 \<le>s ch
            then kthen (kmod (\<lambda>s. s\<lparr>htif_console_buf := - 1\<rparr>)) (set_tohost n emu 1 0 0)
            else kret ())
    (kthen (spinlock_unlock set_htif_lock)
       (kret (ch - 1))))))"

text \<open>The loop of \<^verbatim>\<open>htif_poweroff\<close> repeats two stores until the emulator ends.\<close>

definition poweroff_round :: "('h, unit) H" where
  "poweroff_round = kthen (kmod (\<lambda>s. s\<lparr>fromhost := 0\<rparr>)) (kmod (\<lambda>s. s\<lparr>tohost := 1\<rparr>))"

section \<open>Front-end calls\<close>

text \<open>\<^verbatim>\<open>frontend_syscall\<close>; \<open>addr\<close> is the address of \<^verbatim>\<open>magic_mem\<close>.\<close>

definition frontend_call :: "nat \<Rightarrow> 'h emu \<Rightarrow> u64 \<Rightarrow> u64 list \<Rightarrow> ('h, u64) H" where
  "frontend_call n emu addr call =
     kthen (spinlock_lock call_lock set_call_lock)
    (kthen (kmod (\<lambda>s. s\<lparr>magic_mem := call\<rparr>))
    (kthen (htif_syscall n emu addr)
    (kbind (kget (\<lambda>s. magic_mem s ! 0)) (\<lambda>r.
     kthen (spinlock_unlock set_call_lock)
       (kret r)))))"

definition mcall_console_putchar :: "nat \<Rightarrow> 'h emu \<Rightarrow> u8 \<Rightarrow> ('h, unit) H" where
  "mcall_console_putchar n emu ch =
     kbind (kget htif_there) (\<lambda>h. if h then htif_console_putchar n emu ch else kret ())"

definition putstring :: "nat \<Rightarrow> 'h emu \<Rightarrow> u8 list \<Rightarrow> ('h, unit) H" where
  "putstring n emu cs = kfor (takeWhile (\<lambda>c. c \<noteq> 0) cs) (mcall_console_putchar n emu)"

section \<open>Fields of a command\<close>

lemma bit_TOHOST_CMD:
  "bit (TOHOST_CMD dev cmd p) n \<longleftrightarrow>
    n < 64 \<and> (56 \<le> n \<and> bit dev (n - 56) \<or> 48 \<le> n \<and> bit cmd (n - 48) \<or> bit p n)"
  by (auto simp: TOHOST_CMD_def bit_or_iff bit_push_bit_iff dest: bit_imp_le_length)

lemma high_bits_clear:
  assumes "(v :: u64) < 2 ^ k" and "k \<le> n"
  shows "\<not> bit v n"
proof -
  have "take_bit k v = v"
    using assms(1) by (simp add: take_bit_eq_mod word_unat_eq_iff unat_mod word_less_nat_alt)
  with assms(2) show ?thesis using bit_take_bit_iff [of k v n] by auto
qed

text \<open>
  The device, the command and the data of a message are read back from the word they are
  packed into, when they fit their fields of 8, 8 and 48 bits.
\<close>

lemma message_fields:
  assumes "dev < 2 ^ 8" and "cmd < 2 ^ 8" and "data < 2 ^ 48"
  shows "FROMHOST_DEV (TOHOST_CMD dev cmd data) = dev \<and> FROMHOST_CMD (TOHOST_CMD dev cmd data) = cmd \<and>
    FROMHOST_DATA (TOHOST_CMD dev cmd data) = data"
proof (intro conjI)
  note clear = high_bits_clear [OF assms(1)] high_bits_clear [OF assms(2)] high_bits_clear [OF assms(3)]
  have dev: "n < 8" if "bit dev n" for n using that clear(1) by (meson not_le)
  have cmd: "n < 8" if "bit cmd n" for n using that clear(2) by (meson not_le)
  have data: "n < 48" if "bit data n" for n using that clear(3) by (meson not_le)
  show "FROMHOST_DEV (TOHOST_CMD dev cmd data) = dev"
    by (rule bit_word_eqI) (auto simp: FROMHOST_DEV_def bit_drop_bit_eq bit_TOHOST_CMD clear dest: dev)
  show "FROMHOST_CMD (TOHOST_CMD dev cmd data) = cmd"
    by (rule bit_word_eqI) (fastforce simp: FROMHOST_CMD_def bit_drop_bit_eq bit_push_bit_iff bit_TOHOST_CMD clear dest: cmd)
  show "FROMHOST_DATA (TOHOST_CMD dev cmd data) = data"
    by (rule bit_word_eqI) (fastforce simp: FROMHOST_DATA_def bit_drop_bit_eq bit_push_bit_iff bit_TOHOST_CMD clear dest: data)
qed

section \<open>Calls are answered\<close>

text \<open>
  What the emulator does with a call: it leaves the locks alone and an empty mailbox empty;
  when it finds a call in \<^verbatim>\<open>tohost\<close> it serves it within \<open>D\<close> turns, by replacing the call block
  by its answer, taking the message out and leaving its acknowledgement in \<^verbatim>\<open>fromhost\<close>.
\<close>

definition leaves_idle :: "'h emu \<Rightarrow> bool" where
  "leaves_idle emu \<longleftrightarrow>
     (\<forall>s. htif_lock (emu s) = htif_lock s \<and> call_lock (emu s) = call_lock s \<and>
       (tohost s = 0 \<and> fromhost s = 0 \<longrightarrow>
        tohost (emu s) = 0 \<and> fromhost (emu s) = 0 \<and> magic_mem (emu s) = magic_mem s))"

definition serves :: "'h emu \<Rightarrow> (u64 list \<Rightarrow> u64 list) \<Rightarrow> nat \<Rightarrow> u64 \<Rightarrow> bool" where
  "serves emu f D addr \<longleftrightarrow>
     (\<forall>s. tohost s = addr \<and> fromhost s = 0 \<longrightarrow>
       (\<exists>d < D. (\<forall>j \<le> d. fromhost ((emu ^^ j) s) = 0) \<and>
          fromhost ((emu ^^ Suc d) s) = TOHOST_CMD 0 0 1 \<and> tohost ((emu ^^ Suc d) s) = 0 \<and>
          magic_mem ((emu ^^ Suc d) s) = f (magic_mem s)))"

lemma call_message: "TOHOST_CMD 0 0 a = a"
  by (simp add: TOHOST_CMD_def)

lemma funpow_step: "(emu ^^ Suc j) s = (emu ^^ j) (emu s)"
  by (simp add: funpow_swap1)

lemma await_answer:
  "\<forall>j \<le> d. fromhost ((emu ^^ j) s) = 0 \<Longrightarrow> fromhost ((emu ^^ Suc d) s) = 1 \<Longrightarrow> d < n \<Longrightarrow>
   await_fromhost n emu 0 0 s = Inr ((), ((emu ^^ Suc d) s)\<lparr>fromhost := 0\<rparr>)"
proof (induction d arbitrary: n s)
  case 0
  moreover have "FROMHOST_DEV 1 = 0" "FROMHOST_CMD 1 = 0"
    using message_fields [of 0 0 1] by (simp_all add: call_message)
  ultimately show ?case
    by (cases n) (simp_all add: read_fromhost_def kdefs)
next
  case (Suc d)
  then obtain m where n: "n = Suc m" by (cases n) auto
  have "fromhost (emu s) = 0" using Suc.prems(1) by (auto dest: spec [of _ 1])
  moreover have "\<forall>j \<le> d. fromhost ((emu ^^ j) (emu s)) = 0"
    using Suc.prems(1) by (auto simp flip: funpow_step simp del: funpow.simps)
  moreover have "fromhost ((emu ^^ Suc d) (emu s)) = 1" using Suc.prems(2) by (simp only: funpow_step)
  moreover have "d < m" using Suc.prems(3) n by simp
  ultimately show ?case
    using Suc.IH [of "emu s" m]
    by (simp add: n read_fromhost_def kdefs funpow_step [where j = "Suc d"] del: funpow.simps)
qed

lemma locks_kept: "leaves_idle emu \<Longrightarrow> htif_lock ((emu ^^ j) s) = htif_lock s \<and> call_lock ((emu ^^ j) s) = call_lock s"
  by (induction j) (simp_all add: leaves_idle_def)

text \<open>
  C21: a front-end call is answered. When the locks are free, the mailbox is empty and the
  emulator serves calls within \<open>D\<close> turns, the call returns the first word of the host's
  answer, with the mailbox empty and the locks free again.
\<close>

theorem frontend_call_answers:
  assumes "leaves_idle emu" and serves: "serves emu f D addr" and "D \<le> n"
    and "tohost s = 0" and "fromhost s = 0" and "htif_lock s = 0" and "call_lock s = 0"
  shows "\<exists>t. frontend_call n emu addr call s = Inr (f call ! 0, t) \<and> magic_mem t = f call \<and>
    tohost t = 0 \<and> fromhost t = 0 \<and> htif_lock t = 0 \<and> call_lock t = 0"
proof -
  let ?s = "s\<lparr>call_lock := - 1, magic_mem := call, htif_lock := - 1\<rparr>"
  let ?u = "(emu ?s)\<lparr>tohost := addr\<rparr>"
  have e: "tohost (emu ?s) = 0" "fromhost (emu ?s) = 0" "magic_mem (emu ?s) = call"
      "htif_lock (emu ?s) = - 1" "call_lock (emu ?s) = - 1"
    using assms(1, 4, 5) by (simp_all add: leaves_idle_def)
  then obtain d where d: "d < D" "\<forall>j \<le> d. fromhost ((emu ^^ j) ?u) = 0" "fromhost ((emu ^^ Suc d) ?u) = 1"
      "tohost ((emu ^^ Suc d) ?u) = 0" "magic_mem ((emu ^^ Suc d) ?u) = f call"
    using serves [unfolded serves_def, rule_format, of ?u] by (auto simp: call_message simp del: funpow.simps)
  have "await_fromhost n emu 0 0 ?u = Inr ((), ((emu ^^ Suc d) ?u)\<lparr>fromhost := 0\<rparr>)"
    using d(1) assms(3) by (intro await_answer d) simp
  moreover obtain m where "n = Suc m" using d(1) assms(3) by (cases n) auto
  then have "set_tohost n emu 0 0 addr ?s = Inr ((), ?u)"
    using e by (simp add: read_tohost_def kdefs call_message)
  ultimately have "frontend_call n emu addr call s =
      Inr (f call ! 0, ((emu ^^ Suc d) ?u)\<lparr>fromhost := 0, htif_lock := 0, call_lock := 0\<rparr>)"
    using assms(6, 7) d(5)
    by (simp add: frontend_call_def htif_syscall_def do_tohost_fromhost_def spinlock_lock_def spinlock_trylock_def
        spinlock_unlock_def atomic_defs kdefs del: funpow.simps)
  then show ?thesis using d(4, 5) by (simp del: funpow.simps)
qed

text \<open>An emulator that answers each call at once with its number plus one.\<close>

definition prompt_emu :: "unit emu" where
  "prompt_emu s = (if tohost s = 0 then s
     else s\<lparr>tohost := 0, fromhost := 1, magic_mem := (magic_mem s)[0 := magic_mem s ! 0 + 1]\<rparr>)"

theorem frontend_call_answers_witness:
  "\<exists>t. frontend_call 1 prompt_emu 0x80009000 [64, 1, 0x80001000, 5, 0, 0, 0, 0]
      \<lparr>tohost = 0, fromhost = 0, htif_console_buf = 0, htif_lock = 0, call_lock = 0,
       magic_mem = replicate 8 0, htif_there = True, emulator = ()\<rparr> = Inr (65, t) \<and> tohost t = 0"
proof -
  have "leaves_idle prompt_emu" by (simp add: leaves_idle_def prompt_emu_def)
  moreover have "serves prompt_emu (\<lambda>m. m[0 := m ! 0 + 1]) 1 0x80009000"
    by (simp add: serves_def prompt_emu_def call_message)
  ultimately show ?thesis
    using frontend_call_answers [of prompt_emu "\<lambda>m. m[0 := m ! 0 + 1]" 1 "0x80009000" 1
        "\<lparr>tohost = 0, fromhost = 0, htif_console_buf = 0, htif_lock = 0, call_lock = 0,
          magic_mem = replicate 8 0, htif_there = True, emulator = ()\<rparr>"
        "[64, 1, 0x80001000, 5, 0, 0, 0, 0]"] by auto
qed

end
