(* ===== verification/PKE_Disk.thy ===== *)
theory PKE_Disk
  imports PKE_Fs
begin

text \<open>
  The RAM disk of \<^verbatim>\<open>kernel/dev.c\<close>: the pages it gets are its own and contiguous, a block number
  out of range is refused, and what is written to a block is read back from it.
\<close>

section \<open>The pages of the disk\<close>

lemma alloc_loop:
  "free_pages s (xs @ ys) \<Longrightarrow> length is = length xs \<Longrightarrow>
   \<exists>t. kfor is (\<lambda>i. kbind alloc_page (\<lambda>p. kmod (\<lambda>s. s\<lparr>RAMDISK0_BASE_ADDR := p\<rparr>))) s = Inr ((), t) \<and>
     free_pages t ys \<and> (xs \<noteq> [] \<longrightarrow> RAMDISK0_BASE_ADDR t = last xs) \<and> page_ok t = page_ok s \<and>
     mem_ok t = mem_ok s \<and> kenv t = kenv s \<and> vdev_list t = vdev_list s"
proof (induction xs arbitrary: s "is")
  case Nil
  then show ?case by (simp add: kdefs)
next
  case (Cons x xs)
  then obtain i js where ijs: "is = i # js" "length js = length xs" by (cases "is") auto
  let ?t = "(bump_mem_count 1 (s\<lparr>g_free_mem_list := mem s x\<rparr>))\<lparr>RAMDISK0_BASE_ADDR := x\<rparr>"
  have step: "kbind alloc_page (\<lambda>p. kmod (\<lambda>s. s\<lparr>RAMDISK0_BASE_ADDR := p\<rparr>)) s = Inr ((), ?t)"
    using alloc_page_Cons [of s x] Cons.prems(1) by (simp add: kdefs)
  have "free_pages ?t (xs @ ys)"
    using free_pages_alloc [of s x "xs @ ys"] Cons.prems(1) by (simp add: free_pages_def page_ok_def)
  moreover have "page_ok ?t = page_ok s" "mem_ok ?t = mem_ok s" by (simp_all add: page_ok_def mem_ok_def fun_eq_iff)
  moreover have "kenv ?t = kenv s" "vdev_list ?t = vdev_list s" by (simp_all add: bump_mem_count_def split: option.split)
  ultimately show ?case
    using Cons.IH [of ?t js] ijs by (auto simp: kthen_eq kret_eq step)
qed

lemma ramdisk_pages:
  assumes "free_pages s (rev (page_range p 128) @ rest)"
  shows "\<exists>t. init_ramdisk0 s = Inr ((), t) \<and> RAMDISK0_BASE_ADDR t = p \<and> free_pages t rest \<and>
    page_ok t = page_ok s \<and> mem_ok t = mem_ok s \<and> kenv t = kenv s \<and> vdev_list t = vdev_list s \<and>
    (\<forall>k < 128. page_ok t (p + of_nat (4096 * k)))"
proof -
  have ne: "rev (page_range p 128) \<noteq> []" "last (rev (page_range p 128)) = p"
    using page_range_Suc [of p 127] by simp_all
  have "sint ((RAMDISK0_BLOCK * RAMDISK0_BSIZE - 1) div 4096 + 1) = 128" by simp
  then obtain t where t: "init_ramdisk0 s = Inr ((), t)" "free_pages t rest" "RAMDISK0_BASE_ADDR t = p"
      "page_ok t = page_ok s" "mem_ok t = mem_ok s" "kenv t = kenv s" "vdev_list t = vdev_list s"
    using alloc_loop [OF assms, of "[0..<128]"] ne by (auto simp: init_ramdisk0_def simp del: upt_rec_numeral)
  have "page_ok s (p + of_nat (4096 * k))" if "k < 128" for k
    using assms that by (auto simp: free_pages_def page_range_def)
  with t show ?thesis by auto
qed

text \<open>
  C27: the RAM disk owns its pages. When the free list starts with 128 pages in descending
  order, as the start of the kernel leaves it, \<^verbatim>\<open>init_ramdisk0\<close> takes exactly these, and the base address
  it ends with is the lowest of them, so that the disk's blocks are these pages in order.
\<close>

theorem ramdisk_owns_pages:
  assumes "free_pages s (rev (page_range p 128) @ rest)"
  shows "\<exists>t. init_ramdisk0 s = Inr ((), t) \<and> RAMDISK0_BASE_ADDR t = p \<and> free_pages t rest \<and>
    (\<forall>k < 128. page_ok t (p + of_nat (4096 * k)))"
  using ramdisk_pages [OF assms] by blast

section \<open>Blocks\<close>

text \<open>The address of a block, and a disk all of whose blocks are pages of managed memory.\<close>

definition block_addr :: "kstate \<Rightarrow> nat \<Rightarrow> u64" where
  "block_addr s j = RAMDISK0_BASE_ADDR s + of_nat (4096 * j)"

definition disk_ok :: "kstate \<Rightarrow> bool" where
  "disk_ok s \<longleftrightarrow> (\<forall>j < 128. page_ok s (block_addr s j))"

definition outside_disk :: "kstate \<Rightarrow> u64 \<Rightarrow> bool" where
  "outside_disk s b \<longleftrightarrow> (\<forall>j < 128. b \<noteq> block_addr s j)"

lemma in_range_nat:
  assumes "\<not> (k <s 0 \<or> RAMDISK0_BLOCK \<le>s k)"
  shows "nat (sint k) < 128" and "k = of_nat (nat (sint k))"
proof -
  from assms have "0 \<le> sint k" "sint k < 128" by (simp_all add: word_sless_alt word_sle_eq)
  then show "nat (sint k) < 128" by simp
  have "of_nat (nat (sint k)) = (of_int (sint k) :: i32)" using \<open>0 \<le> sint k\<close> by simp
  then show "k = of_nat (nat (sint k))" by simp
qed

lemma block_addr_eq:
  assumes "\<not> (k <s 0 \<or> RAMDISK0_BLOCK \<le>s k)"
  shows "RAMDISK0_BASE_ADDR s + scast (k * RAMDISK0_BSIZE) = block_addr s (nat (sint k))"
proof -
  define j where "j = nat (sint k)"
  have j: "j < 128" "k = of_nat j" using in_range_nat [OF assms] by (simp_all add: j_def)
  then have "k * RAMDISK0_BSIZE = of_nat (4096 * j)" by simp
  moreover have "sint (of_nat (4096 * j) :: i32) = int (4096 * j)" using j(1) by (intro sint_small) simp
  ultimately have "scast (k * RAMDISK0_BSIZE) = (of_int (int (4096 * j)) :: u64)"
    by (metis of_int_sint)
  then show ?thesis by (simp add: block_addr_def j_def)
qed

lemma copy_page:
  assumes "page_ok s d" and "page_ok s src" and "d \<noteq> src"
  shows "memcpy d src 4096 s = Inr (d, s\<lparr>mem := copy_block d src 4096 (mem s)\<rparr>)"
proof -
  have "range_ok s p 4096" if "page_ok s p" for p using that by (simp add: page_ok_def range_ok_def)
  moreover have "\<not> in_block src 4096 a" if "in_block d 4096 a" for a
    using that assms page_of_in_block [of s d a] page_of_in_block [of s src a] by auto
  moreover have "d \<noteq> 0" using assms(1) by (simp add: page_ok_def)
  ultimately show ?thesis
    using memcpy_copy [of s d 4096 src] assms by (simp add: page_ok_aligned8)
qed

lemma input_eq:
  assumes "disk_ok s" and "page_ok s b" and "outside_disk s b"
  shows "ramdisk0_input b k s =
    (if k <s 0 \<or> RAMDISK0_BLOCK \<le>s k then Inl (Panic ''RAM Disk0: input block No out of range!'')
     else Inr (0, s\<lparr>mem := copy_block (block_addr s (nat (sint k))) b 4096 (mem s)\<rparr>))"
proof (cases "k <s 0 \<or> RAMDISK0_BLOCK \<le>s k")
  case False
  let ?d = "block_addr s (nat (sint k))"
  have "page_ok s ?d" "?d \<noteq> b" using assms in_range_nat(1) [OF False] by (auto simp: disk_ok_def outside_disk_def)
  then have "memcpy ?d b 4096 s = Inr (?d, s\<lparr>mem := copy_block ?d b 4096 (mem s)\<rparr>)"
    using assms(2) by (intro copy_page)
  then show ?thesis
    using False block_addr_eq [OF False, of s] by (simp add: ramdisk0_input_def kdefs)
qed (simp add: ramdisk0_input_def kdefs)

lemma output_eq:
  assumes "disk_ok s" and "page_ok s b" and "outside_disk s b" and "\<not> (k <s 0 \<or> RAMDISK0_BLOCK \<le>s k)"
  shows "ramdisk0_output b k s = Inr (0, s\<lparr>mem := copy_block b (block_addr s (nat (sint k))) 4096 (mem s)\<rparr>)"
proof -
  let ?d = "block_addr s (nat (sint k))"
  have "page_ok s ?d" "b \<noteq> ?d" using assms in_range_nat(1) [OF assms(4)] by (auto simp: disk_ok_def outside_disk_def)
  then have "memcpy b ?d 4096 s = Inr (b, s\<lparr>mem := copy_block b ?d 4096 (mem s)\<rparr>)"
    using assms(2) by (intro copy_page)
  then show ?thesis
    using assms(4) block_addr_eq [OF assms(4), of s] by (simp add: ramdisk0_output_def kdefs)
qed

text \<open>
  C29: writing a block stays inside the disk. A block number below 0 or above 127 is refused
  by a panic before any memory is touched; otherwise exactly the page of that block
  becomes a copy of the buffer and no other memory changes.
\<close>

theorem ramdisk_input_bounds:
  assumes "disk_ok s" and "page_ok s b" and "outside_disk s b"
  shows "ramdisk0_input b k s =
    (if k <s 0 \<or> RAMDISK0_BLOCK \<le>s k then Inl (Panic ''RAM Disk0: input block No out of range!'')
     else Inr (0, s\<lparr>mem := copy_block (block_addr s (nat (sint k))) b 4096 (mem s)\<rparr>))"
  using assms by (rule input_eq)

text \<open>
  C28: what is written to a block of the RAM disk is read back from it: after \<^verbatim>\<open>ramdisk0_input\<close>
  from one buffer and \<^verbatim>\<open>ramdisk0_output\<close> of the same block into another, the second buffer
  holds what the first one held.
\<close>

theorem ramdisk_roundtrip:
  assumes "disk_ok s" and "page_ok s b" "page_ok s b'" and "outside_disk s b" "outside_disk s b'"
    and k: "\<not> (k <s 0 \<or> RAMDISK0_BLOCK \<le>s k)"
  shows "\<exists>t. kthen (ramdisk0_input b k) (ramdisk0_output b' k) s = Inr (0, t) \<and>
    (\<forall>w. unat w < 4096 \<longrightarrow> unat w mod 8 = 0 \<longrightarrow> mem t (b' + w) = mem s (b + w))"
proof -
  let ?d = "block_addr s (nat (sint k))"
  let ?t = "s\<lparr>mem := copy_block ?d b 4096 (mem s)\<rparr>"
  have t: "disk_ok ?t" "outside_disk ?t b'" "block_addr ?t (nat (sint k)) = ?d"
    using assms(1, 5) by (simp_all add: disk_ok_def outside_disk_def block_addr_def)
  then have "kthen (ramdisk0_input b k) (ramdisk0_output b' k) s =
      Inr (0, ?t\<lparr>mem := copy_block b' ?d 4096 (mem ?t)\<rparr>)"
    using output_eq [of ?t b' k] assms by (simp add: kthen_eq input_eq)
  then show ?thesis by (simp add: copy_block_def in_block_def)
qed

section \<open>Examples\<close>

lemma page_range_append: "page_range p (m + n) = page_range p m @ page_range (p + of_nat (4096 * m)) n"
proof (induction m arbitrary: p)
  case (Suc m)
  then show ?case by (simp add: page_range_Suc algebra_simps)
qed simp

theorem ramdisk_owns_pages_witness:
  "\<exists>s t. pmm_init (initial_kstate sample_env 0x9f000 (\<lambda>_. 0)) = Inr ((), s) \<and> init_ramdisk0 s = Inr ((), t) \<and>
    RAMDISK0_BASE_ADDR t = 0x8001e000 \<and> free_pages t [0x8001d000, 0x8001c000]"
proof -
  let ?i = "initial_kstate sample_env 0x9f000 (\<lambda>_. 0)"
  have r: "ROUNDUP 0x8001c000 PGSIZE = 0x8001c000" by (simp add: ROUNDUP_def)
  then have "usable_pages 0x8001c000 0x9f000 = 2 + 128" by (simp add: usable_pages_def MIN_u64_def)
  then have "\<exists>s. pmm_init ?i = Inr ((), s) \<and> free_pages s (rev (page_range 0x8001c000 (2 + 128)))"
    using pmm_init_builds [of ?i] r by (auto simp: runs_to_iff initial_kstate_def sample_env_def MIN_u64_def)
  then obtain s where s: "pmm_init ?i = Inr ((), s)"
      "free_pages s (rev (page_range 0x8001e000 128) @ rev (page_range 0x8001c000 2))"
    unfolding page_range_append by auto
  have "page_range 0x8001c000 2 = [0x8001c000, 0x8001d000]" by (simp add: page_range_def upt_rec)
  with s ramdisk_owns_pages [OF s(2)] show ?thesis by auto
qed

definition disk_state :: kstate where
  "disk_state = (initial_kstate sample_env 0x200000 (\<lambda>a. a))\<lparr>free_mem_start_addr := 0x8001c000,
     free_mem_end_addr := 0x80200000, RAMDISK0_BASE_ADDR := 0x80100000\<rparr>"

lemma unat_disk_block: "j < 128 \<Longrightarrow> unat (block_addr disk_state j) = 0x80100000 + 4096 * j"
  by (simp add: block_addr_def disk_state_def unat_word_ariths unsigned_of_nat take_bit_nat_eq_self)

lemma disk_state_ok: "disk_ok disk_state"
  unfolding disk_ok_def
proof (intro allI impI)
  fix j :: nat assume "j < 128"
  then show "page_ok disk_state (block_addr disk_state j)"
    using unat_disk_block [of j]
    by (auto simp: page_ok_def aligned_def word_le_nat_alt unat_eq_0 [symmetric]) (simp_all add: disk_state_def)
qed

lemma disk_buffers:
  "page_ok disk_state 0x80020000" "page_ok disk_state 0x80021000"
  "outside_disk disk_state 0x80020000" "outside_disk disk_state 0x80021000"
proof -
  show "page_ok disk_state 0x80020000" "page_ok disk_state 0x80021000"
    by (simp_all add: page_ok_def disk_state_def aligned_def)
  show "outside_disk disk_state 0x80020000" "outside_disk disk_state 0x80021000"
    using unat_disk_block by (force simp: outside_disk_def word_unat_eq_iff)+
qed

theorem ramdisk_input_bounds_witness:
  "ramdisk0_input 0x80020000 128 disk_state = Inl (Panic ''RAM Disk0: input block No out of range!'') \<and>
   (\<exists>t. ramdisk0_input 0x80020000 127 disk_state = Inr (0, t))"
  using ramdisk_input_bounds [OF disk_state_ok disk_buffers(1, 3)] by (simp add: word_sless_alt word_sle_eq)

theorem ramdisk_roundtrip_witness:
  "\<exists>t. kthen (ramdisk0_input 0x80020000 5) (ramdisk0_output 0x80021000 5) disk_state = Inr (0, t) \<and>
     mem t 0x80021008 = 0x80020008"
proof -
  have "mem disk_state = (\<lambda>a. a)" by (simp add: disk_state_def initial_kstate_def)
  moreover have "\<not> ((5 :: i32) <s 0 \<or> RAMDISK0_BLOCK \<le>s 5)" by (simp add: word_sless_alt word_sle_eq)
  ultimately show ?thesis
    using ramdisk_roundtrip [OF disk_state_ok disk_buffers, of 5] by (auto dest: spec [of _ 8])
qed

end
