(* ===== verification/PKE_Heap.thy ===== *)
theory PKE_Heap
  imports PKE_Disk
begin

text \<open>
  Structures in pages. Code that builds structures in memory owns the pages it got from the
  allocator; \<open>holds b xs M s\<close> says what such code needs of a state: the free pages are \<open>xs\<close>, the
  page \<open>p\<close> has the content \<open>M p\<close>, a function from offsets to words, and all but the memory and the
  allocator's accounting is as in the state \<open>b\<close>. Each access to a page the code owns is an update
  of \<open>M\<close>.
\<close>

section \<open>Pages and their contents\<close>

named_theorems holds_rules "effect of memory accesses on the contents of pages"

definition holds :: "kstate \<Rightarrow> u64 list \<Rightarrow> (u64 \<Rightarrow> u64 \<Rightarrow> u64) \<Rightarrow> kstate \<Rightarrow> bool" where
  "holds b xs M s \<longleftrightarrow> free_pages s xs \<and> mem_erase s = mem_erase b \<and>
     (\<forall>p k. page_ok b p \<longrightarrow> unat k < 4096 \<longrightarrow> unat k mod 8 = 0 \<longrightarrow> mem s (p + k) = M p k)"

definition own :: "kstate \<Rightarrow> u64 list \<Rightarrow> u64 \<Rightarrow> bool" where
  "own b xs p \<longleftrightarrow> page_ok b p \<and> p \<notin> set xs"

lemma own_drop [simp]: "own b (x # xs) p \<Longrightarrow> own b xs p"
  by (simp add: own_def)

lemma holds_start: "free_pages s xs \<Longrightarrow> holds s xs (\<lambda>p k. mem s (p + k)) s"
  by (simp add: holds_def)

lemma holds_eq: "holds b xs M s \<Longrightarrow> page_ok s = page_ok b \<and> mem_ok s = mem_ok b \<and> kenv s = kenv b \<and>
    RAMDISK0_BASE_ADDR s = RAMDISK0_BASE_ADDR b \<and> vdev_list s = vdev_list b"
proof -
  assume "holds b xs M s"
  then have e: "mem_erase s = mem_erase b" by (simp add: holds_def)
  then have "RAMDISK0_BASE_ADDR (mem_erase s) = RAMDISK0_BASE_ADDR (mem_erase b)"
    "vdev_list (mem_erase s) = vdev_list (mem_erase b)" by simp_all
  with mem_eraseD [OF e] show ?thesis by (simp add: mem_erase_def)
qed

lemma holds_mem: "holds b xs M s \<Longrightarrow> page_ok b p \<Longrightarrow> unat k < 4096 \<Longrightarrow> unat k mod 8 = 0 \<Longrightarrow> mem s (p + k) = M p k"
  by (simp add: holds_def)

lemma holds_mem_0: "holds b xs M s \<Longrightarrow> page_ok b p \<Longrightarrow> mem s p = M p 0"
  using holds_mem [of b xs M s p 0] by simp

lemma page_of_page_off: "page_ok s p \<Longrightarrow> unat k < 4096 \<Longrightarrow> page_of (p + k) = p"
  using page_off [of s p k] by (auto simp: word_unat_eq_iff unat_page_of page_ok_def aligned_def elim!: dvdE)

lemma page_off_eq_iff:
  assumes "page_ok s p" "page_ok s q" "unat k < 4096" "unat l < 4096"
  shows "p + k = q + l \<longleftrightarrow> p = q \<and> k = l"
  using page_of_page_off [OF assms(1, 3)] page_of_page_off [OF assms(2, 4)] by (metis add_left_cancel)

lemma in_block_page_off:
  assumes "page_ok s p" "page_ok s q" "unat k < 4096" "unat k mod 8 = 0"
  shows "in_block p 4096 (q + k) \<longleftrightarrow> p = q"
  using page_of_in_block [OF assms(1)] page_of_page_off [OF assms(2, 3)] assms(3, 4)
  by (auto simp: in_block_def)

text \<open>Writing to one page.\<close>

lemma holds_upd:
  assumes h: "holds b xs M s" and p: "own b xs p"
    and new: "\<And>k. unat k < 4096 \<Longrightarrow> unat k mod 8 = 0 \<Longrightarrow> m (p + k) = N k"
    and old: "\<And>q k. page_ok b q \<Longrightarrow> q \<noteq> p \<Longrightarrow> unat k < 4096 \<Longrightarrow> unat k mod 8 = 0 \<Longrightarrow> m (q + k) = mem s (q + k)"
  shows "holds b xs (M(p := N)) (s\<lparr>mem := m\<rparr>)"
proof -
  have free: "free_pages s xs" and e: "mem_erase s = mem_erase b" using h by (simp_all add: holds_def)
  have "page_ok b x \<and> x \<noteq> p" if "x \<in> set xs" for x
    using that free p holds_eq [OF h] by (auto simp: free_pages_def own_def)
  then have "m x = mem s x" if "x \<in> set xs" for x using that old [of x 0] by auto
  then have "free_pages (s\<lparr>mem := m\<rparr>) xs" using free by (auto intro: free_pages_cong)
  then show ?thesis using h e p new old by (auto simp: holds_def own_def)
qed

lemma holds_alloc:
  assumes "holds b (x # xs) M s"
  shows "runs_to alloc_page s (\<lambda>r t. r = x \<and> holds b xs M t \<and> own b xs x)"
proof -
  have "free_pages s (x # xs)" using assms by (simp add: holds_def)
  moreover from this have "own b xs x"
    using free_pages_distinct [of s "x # xs"] holds_eq [OF assms] by (auto simp: free_pages_def own_def)
  ultimately show ?thesis
    using assms by (auto simp: runs_to_iff alloc_page_Cons free_pages_alloc holds_def)
qed

lemma holds_store64 [holds_rules]:
  assumes h: "holds b xs M s" and p: "own b xs p" and k: "unat k < 4096" "unat k mod 8 = 0"
  shows "runs_to (store64 (p + k) v) s (\<lambda>_. holds b xs (M(p := (M p)(k := v))))"
proof -
  have pok: "page_ok s p" using h p holds_eq [OF h] by (simp add: own_def)
  have "holds b xs (M(p := (M p)(k := v))) (s\<lparr>mem := (mem s)(p + k := v)\<rparr>)"
    using h p k page_off_eq_iff [of b] by (intro holds_upd) (auto simp: holds_def own_def)
  then show ?thesis using store64_page [OF pok k] by (simp add: runs_to_iff)
qed

lemma holds_load64 [holds_rules]:
  assumes h: "holds b xs M s" and p: "page_ok b p" and k: "unat k < 4096" "unat k mod 8 = 0"
  shows "runs_to (load64 (p + k)) s (\<lambda>r t. r = M p k \<and> t = s)"
  using load64_page [of s p k] assms holds_eq [OF h] by (simp add: runs_to_iff holds_def)

lemma dword_of_off:
  assumes p: "page_ok s p" and k: "unat k < 4096"
  shows "dword_of (p + k) = p + dword_of k" and "bit_off (p + k) = bit_off k"
proof -
  have off: "unat (p + k) = unat p + unat k" "8 dvd unat p"
    using page_off [OF assms] page_ok_aligned8 [OF p] by (auto simp: aligned_def)
  then have m: "unat (p + k) mod 8 = unat k mod 8" by (metis mod_add_left_eq dvd_imp_mod_0 add_0)
  then show "bit_off (p + k) = bit_off k" by (simp add: bit_off_def)
  have "unat (dword_of k) < 4096" using k by (simp add: unat_dword_of)
  then have "unat (p + dword_of k) = unat p + unat (dword_of k)" using page_off [OF p] by blast
  then show "dword_of (p + k) = p + dword_of k"
    using off m by (simp add: word_unat_eq_iff unat_dword_of)
qed

lemma dword_of_offset: "unat k < 4096 \<Longrightarrow> unat (dword_of k) < 4096 \<and> unat (dword_of k) mod 8 = 0"
  using aligned_dword_of [of k] by (simp add: aligned_def unat_dword_of)

lemma holds_put:
  assumes h: "holds b xs M s" and p: "own b xs p" and k: "unat k < 4096"
  shows "holds b xs (M(p := (M p)(dword_of k := put_bits (bit_off k) n v (M p (dword_of k)))))
    (s\<lparr>mem := put_at n (p + k) v (mem s)\<rparr>)"
proof -
  have pok: "page_ok b p" using p by (simp add: own_def)
  note d = dword_of_off [OF pok k] dword_of_offset [OF k]
  have "mem s (p + dword_of k) = M p (dword_of k)" using h pok d by (simp add: holds_def)
  then show ?thesis
    unfolding put_at_def d
    using h p d(3) page_off_eq_iff [of b] by (intro holds_upd) (auto simp: holds_def own_def)
qed

lemma holds_store32 [holds_rules]:
  assumes h: "holds b xs M s" and p: "own b xs p" and k: "unat k < 4096" "unat k mod 4 = 0"
  shows "runs_to (store32 (p + k) v) s
    (\<lambda>_. holds b xs (M(p := (M p)(dword_of k := put_bits (bit_off k) 32 (ucast v) (M p (dword_of k))))))"
proof -
  have pok: "page_ok s p" using p holds_eq [OF h] by (simp add: own_def)
  show ?thesis
    using holds_put [OF h p k(1)] page_off_mem_ok [OF pok k(1)] page_off_aligned [OF pok k]
    by (simp add: runs_to_iff store32_eq)
qed

lemma holds_store8 [holds_rules]:
  assumes h: "holds b xs M s" and p: "own b xs p" and k: "unat k < 4096"
  shows "runs_to (store8 (p + k) v) s
    (\<lambda>_. holds b xs (M(p := (M p)(dword_of k := put_bits (bit_off k) 8 (ucast v) (M p (dword_of k))))))"
proof -
  have pok: "page_ok s p" using p holds_eq [OF h] by (simp add: own_def)
  show ?thesis
    using holds_put [OF h p k] page_off_mem_ok [OF pok k] by (simp add: runs_to_iff store8_eq)
qed

lemma holds_load32 [holds_rules]:
  assumes h: "holds b xs M s" and p: "page_ok b p" and k: "unat k < 4096" "unat k mod 4 = 0"
  shows "runs_to (load32 (p + k)) s (\<lambda>r t. r = ucast (get_bits (bit_off k) 32 (M p (dword_of k))) \<and> t = s)"
proof -
  have pok: "page_ok s p" using p holds_eq [OF h] by simp
  have "mem s (p + dword_of k) = M p (dword_of k)" using h p dword_of_offset [OF k(1)] by (simp add: holds_def)
  then show ?thesis
    using page_off_mem_ok [OF pok k(1)] page_off_aligned [OF pok k] dword_of_off [OF pok k(1)]
    by (simp add: runs_to_iff load32_eq get_at_def)
qed

lemma holds_memset [holds_rules]:
  assumes h: "holds b xs M s" and p: "own b xs p"
  shows "runs_to (memset p 0 4096) s (\<lambda>_. holds b xs (M(p := \<lambda>_. 0)))"
proof -
  have pok: "page_ok s p" using p holds_eq [OF h] by (simp add: own_def)
  have "holds b xs (M(p := \<lambda>_. 0)) (s\<lparr>mem := fill p 4096 0 (mem s)\<rparr>)"
    using p in_block_page_off [of b p] by (intro holds_upd [OF h p]) (auto simp: fill_def own_def)
  then show ?thesis using memset_page [OF pok] by (simp add: runs_to_iff)
qed

lemma holds_memcpy [holds_rules]:
  assumes h: "holds b xs M s" and d: "own b xs d" and a: "page_ok b a" "d \<noteq> a"
  shows "runs_to (memcpy d a 4096) s (\<lambda>_. holds b xs (M(d := M a)))"
proof -
  have pok: "page_ok s d" "page_ok s a" using d a holds_eq [OF h] by (simp_all add: own_def)
  have "holds b xs (M(d := M a)) (s\<lparr>mem := copy_block d a 4096 (mem s)\<rparr>)"
    using d in_block_page_off [of b d] h a(1)
    by (intro holds_upd [OF h d]) (auto simp: copy_block_def own_def holds_def)
  then show ?thesis using copy_page [OF pok a(2)] by (simp add: runs_to_iff)
qed

lemmas holds_rules_0 [holds_rules] =
  holds_store64 [where k = 0, simplified] holds_load64 [where k = 0, simplified]
  holds_store32 [where k = 0, simplified] holds_load32 [where k = 0, simplified]

lemma dword_of_eval [simp]: "dword_of 0 = 0" "dword_of (numeral n) = numeral n - numeral n mod 8"
  by (simp_all add: dword_of_def)

lemma bit_off_eval [simp]: "bit_off 0 = 0" "bit_off (numeral n) = 8 * (unat (numeral n :: u64) mod 8)"
  by (simp_all add: bit_off_def)

lemma runs_to_kget: "Q (f s) s \<Longrightarrow> runs_to (kget f) s Q"
  by (simp add: runs_to_iff kdefs)

lemma runs_to_kguard: "c \<Longrightarrow> Q () s \<Longrightarrow> runs_to (kguard c e) s Q"
  by (simp add: runs_to_iff kdefs)

lemma runs_to_kfor_upt:
  assumes "\<And>i t. m \<le> i \<Longrightarrow> i < n \<Longrightarrow> J i t \<Longrightarrow> runs_to (f i) t (\<lambda>_. J (Suc i))" and "J m s" and "m \<le> n"
  shows "runs_to (kfor [m..<n] f) s (\<lambda>_. J n)"
  using assms
proof (induction "n - m" arbitrary: m s)
  case 0
  then show ?case by (simp add: runs_to_kret)
next
  case (Suc d)
  then have "[m..<n] = m # [Suc m..<n]" by (simp add: upt_conv_Cons)
  moreover have "runs_to (f m) s (\<lambda>_. J (Suc m))" using Suc.prems Suc.hyps(2) by (intro Suc.prems(1)) auto
  then have "runs_to (kthen (f m) (kfor [Suc m..<n] f)) s (\<lambda>_. J n)"
    by (rule runs_to_kthen) (rule Suc.hyps(1), use Suc.prems Suc.hyps(2) in auto)
  ultimately show ?case by simp
qed

section \<open>Sequences of accesses\<close>

lemma runs_load64:
  assumes "holds b xs M s" and "page_ok b p" and "unat k < 4096" "unat k mod 8 = 0" and "q = p + k"
    and "runs_to (f (M p k)) s R"
  shows "runs_to (kbind (load64 q) f) s R"
  using holds_load64 [OF assms(1-4)] assms(5, 6) by (auto simp: runs_to_iff kdefs)

lemma runs_load32:
  assumes "holds b xs M s" and "page_ok b p" and "unat k < 4096" "unat k mod 4 = 0" and "q = p + k"
    and "runs_to (f (ucast (get_bits (bit_off k) 32 (M p (dword_of k))))) s R"
  shows "runs_to (kbind (load32 q) f) s R"
  using holds_load32 [OF assms(1-4)] assms(5, 6) by (auto simp: runs_to_iff kdefs)

lemma runs_store64:
  assumes "holds b xs M s" and "own b xs p" and "unat k < 4096" "unat k mod 8 = 0"
    and "\<And>t. holds b xs (M(p := (M p)(k := v))) t \<Longrightarrow> runs_to n t R"
  shows "runs_to (kthen (store64 (p + k) v) n) s R"
  using runs_to_kthen [OF holds_store64 [OF assms(1-4)] assms(5)] .

lemma kthen_assoc: "kthen (kthen m n) l = kthen m (kthen n l)"
  by (auto simp: fun_eq_iff kdefs split: sum.split)

lemma kbind_kthen: "kthen (kbind m f) l = kbind m (\<lambda>x. kthen (f x) l)"
  by (auto simp: fun_eq_iff kdefs split: sum.split)

lemma runs_kget: "runs_to (f (g s)) s R \<Longrightarrow> runs_to (kbind (kget g) f) s R"
  by (simp add: runs_to_iff kdefs)

section \<open>Structures of two-word fields\<close>

definition halves :: "u32 \<Rightarrow> u32 \<Rightarrow> u64" where
  "halves lo hi = push_bit 32 (ucast hi) OR ucast lo"

lemma put_halves: "put_bits 32 32 (ucast hi) (put_bits 0 32 (ucast lo) w) = halves lo hi"
  by (rule bit_word_eqI) (auto simp: bit_put_bits halves_def bit_simps dest: bit_imp_le_length)

lemma get_halves: "ucast (get_bits 0 32 (halves lo hi)) = lo" "ucast (get_bits 32 32 (halves lo hi)) = hi"
  by (rule bit_word_eqI; auto simp: bit_get_bits halves_def bit_simps dest: bit_imp_le_length)+

lemma runs_store_pair:
  assumes h: "holds b xs M s" and p: "own b xs p" and k: "unat k < 4096" "unat k mod 8 = 0"
    and q: "q = p + k" "q' = p + (k + 4)"
    and n: "\<And>t. holds b xs (M(p := (M p)(k := halves lo hi))) t \<Longrightarrow> runs_to n t R"
  shows "runs_to (kthen (store32 q lo) (kthen (store32 q' hi) n)) s R"
proof -
  obtain j where j: "unat k = 8 * j" using k(2) by auto
  with k have k4: "unat (k + 4) = unat k + 4" by (simp add: unat_word_ariths)
  have d: "dword_of k = k" "bit_off k = 0" "dword_of (k + 4) = k" "bit_off (k + 4) = 32"
    using j k4 by (simp_all add: word_unat_eq_iff unat_dword_of bit_off_def mod_add_left_eq [symmetric, of "8 * j"])
  have "unat k mod 4 = 0" "unat (k + 4) mod 4 = 0" "unat (k + 4) < 4096" using j k4 k(1) by presburger+
  then have "runs_to (store32 q lo) s (\<lambda>_. holds b xs (M(p := (M p)(k := put_bits 0 32 (ucast lo) (M p k)))))"
    and "\<And>t. holds b xs (M(p := (M p)(k := put_bits 0 32 (ucast lo) (M p k)))) t \<Longrightarrow>
      runs_to (store32 q' hi) t (\<lambda>_. holds b xs (M(p := (M p)(k := halves lo hi))))"
    unfolding q using holds_store32 [OF h p, of k lo] holds_store32 [OF _ p, of _ _ "k + 4" hi] k(1) d
    by (fastforce simp: put_halves)+
  then show ?thesis by (intro runs_to_kthen) (assumption | rule n)+
qed

end
