(* ===== verification/PKE_Format.thy ===== *)
theory PKE_Format
  imports PKE_Heap
begin

text \<open>
  Formatting the RAM disk: what \<^verbatim>\<open>rfs_do_mount\<close> of \<^verbatim>\<open>kernel/rfs.c\<close> writes to the blocks of the disk and
  to the structures in memory, step by step over the contents of pages.
\<close>

section \<open>Blocks of the disk as pages\<close>

lemma block_addr_inj:
  assumes "disk_ok s" and "i < 128" and "j < 128"
  shows "block_addr s i = block_addr s j \<longleftrightarrow> i = j"
proof
  assume eq: "block_addr s i = block_addr s j"
  have "unat (of_nat (4096 * n) :: u64) = 4096 * n" if "n < 128" for n
    using that by (simp only: unat_of_nat) (simp add: take_bit_nat_eq_self)
  moreover from eq have "of_nat (4096 * i) = (of_nat (4096 * j) :: u64)" by (simp only: block_addr_def add_left_cancel)
  then have "unat (of_nat (4096 * i) :: u64) = unat (of_nat (4096 * j) :: u64)" by simp
  ultimately show "i = j" using assms by simp
qed simp

definition own_disk :: "kstate \<Rightarrow> u64 list \<Rightarrow> bool" where
  "own_disk b xs \<longleftrightarrow> (\<forall>j < 128. own b xs (block_addr b j))"

lemma own_disk_ok: "own_disk b xs \<Longrightarrow> disk_ok b"
  by (simp add: own_disk_def disk_ok_def own_def)

lemma block_no:
  assumes "j < 128"
  shows "nat (sint (of_nat j :: i32)) = j" and "\<not> ((of_nat j :: i32) <s 0 \<or> RAMDISK0_BLOCK \<le>s of_nat j)"
proof -
  have "sint (of_nat j :: i32) = int j" using assms by (intro sint_small) simp
  then show "nat (sint (of_nat j :: i32)) = j" "\<not> ((of_nat j :: i32) <s 0 \<or> RAMDISK0_BLOCK \<le>s of_nat j)"
    using assms by (simp_all add: word_sless_alt word_sle_eq)
qed

lemma holds_block:
  assumes h: "holds b xs M s" and "own_disk b xs" and "j < 128"
  shows "disk_ok s" "block_addr s j = block_addr b j" "outside_disk s p = outside_disk b p"
  using holds_eq [OF h] own_disk_ok [OF assms(2)]
  by (simp_all add: disk_ok_def block_addr_def outside_disk_def)

lemma holds_input:
  assumes h: "holds b xs M s" and d: "own_disk b xs" and a: "page_ok b a" "outside_disk b a" and j: "j < 128"
  shows "runs_to (ramdisk0_input a (of_nat j)) s (\<lambda>r t. r = 0 \<and> holds b xs (M(block_addr b j := M a)) t)"
proof -
  note blk = holds_block [OF h d j] block_no [OF j]
  have own: "own b xs (block_addr b j)" "block_addr b j \<noteq> a" using d a(2) j by (auto simp: own_disk_def outside_disk_def)
  have "memcpy (block_addr b j) a 4096 s = Inr (block_addr b j, s\<lparr>mem := copy_block (block_addr b j) a 4096 (mem s)\<rparr>)"
    using own a(1) holds_eq [OF h] by (intro copy_page) (auto simp: own_def)
  with holds_memcpy [OF h own(1) a(1) own(2)]
  have "holds b xs (M(block_addr b j := M a)) (s\<lparr>mem := copy_block (block_addr b j) a 4096 (mem s)\<rparr>)"
    by (simp add: runs_to_iff)
  then show ?thesis
    using input_eq [OF blk(1), of a "of_nat j"] a blk holds_eq [OF h] by (simp add: runs_to_iff)
qed

lemma holds_output:
  assumes h: "holds b xs M s" and d: "own_disk b xs" and a: "own b xs a" "outside_disk b a" and j: "j < 128"
  shows "runs_to (ramdisk0_output a (of_nat j)) s (\<lambda>r t. r = 0 \<and> holds b xs (M(a := M (block_addr b j))) t)"
proof -
  note blk = holds_block [OF h d j] block_no [OF j]
  have own: "page_ok b (block_addr b j)" "a \<noteq> block_addr b j" "page_ok b a"
    using d a j by (auto simp: own_disk_def outside_disk_def own_def)
  have "memcpy a (block_addr b j) 4096 s = Inr (a, s\<lparr>mem := copy_block a (block_addr b j) 4096 (mem s)\<rparr>)"
    using own a holds_eq [OF h] by (intro copy_page) auto
  with holds_memcpy [OF h a(1) own(1, 2)]
  have "holds b xs (M(a := M (block_addr b j))) (s\<lparr>mem := copy_block a (block_addr b j) 4096 (mem s)\<rparr>)"
    by (simp add: runs_to_iff)
  then show ?thesis
    using output_eq [OF blk(1), of a "of_nat j"] own(3) a blk holds_eq [OF h] by (simp add: runs_to_iff)
qed

text \<open>
  A file system structure \<open>fs\<close> that is connected to the RAM disk by the device structure \<open>pd\<close>,
  with the buffer \<open>buf\<close>.
\<close>

definition wired :: "kstate \<Rightarrow> u64 list \<Rightarrow> (u64 \<Rightarrow> u64 \<Rightarrow> u64) \<Rightarrow> u64 \<Rightarrow> u64 \<Rightarrow> u64 \<Rightarrow> bool" where
  "wired b xs M fs pd buf \<longleftrightarrow> own_disk b xs \<and> distinct [fs, pd, buf] \<and>
     (\<forall>p \<in> {fs, pd, buf}. own b xs p \<and> outside_disk b p) \<and>
     M fs 16 = pd \<and> M fs 40 = buf \<and> M pd 8 = sym_ramdisk0_input (kenv b) \<and>
     M pd 16 = sym_ramdisk0_output (kenv b) \<and> sym_ramdisk0_output (kenv b) \<noteq> sym_ramdisk0_input (kenv b)"

lemma wired_block [simp]: "wired b xs M fs pd buf \<Longrightarrow> j < 128 \<Longrightarrow> wired b xs (M(block_addr b j := N)) fs pd buf"
  by (auto simp: wired_def outside_disk_def)

lemma wired_buf [simp]: "wired b xs M fs pd buf \<Longrightarrow> wired b xs (M(buf := N)) fs pd buf"
  by (auto simp: wired_def)

lemma wired_other: "wired b xs M fs pd buf \<Longrightarrow> p \<notin> {fs, pd} \<Longrightarrow> wired b xs (M(p := N)) fs pd buf"
  by (auto simp: wired_def)

lemma wired_fs: "wired b xs M fs pd buf \<Longrightarrow> N 16 = M fs 16 \<Longrightarrow> N 40 = M fs 40 \<Longrightarrow> wired b xs (M(fs := N)) fs pd buf"
  by (auto simp: wired_def)

lemma wired_drop: "wired b (x # xs) M fs pd buf \<Longrightarrow> wired b xs M fs pd buf"
  by (auto simp: wired_def own_disk_def own_def)

lemma wired_pages:
  assumes "wired b xs M fs pd buf"
  shows "own b xs fs" "own b xs pd" "own b xs buf" "page_ok b fs" "page_ok b pd" "page_ok b buf"
    "outside_disk b buf" "own_disk b xs" "fs \<noteq> buf"
  using assms by (auto simp: wired_def own_def)

lemma holds_w1block:
  assumes h: "holds b xs M s" and w: "wired b xs M fs pd buf" and j: "j < 128"
  shows "runs_to (w1block_or_panic fs (of_nat j) msg) s (\<lambda>_. holds b xs (M(block_addr b j := M buf)))"
proof -
  note p = wired_pages [OF w]
  have "M fs 16 = pd" "M fs 40 = buf" "M pd 8 = sym_ramdisk0_input (kenv s)"
    using w holds_eq [OF h] by (simp_all add: wired_def)
  then have "load64 (fs + 16) s = Inr (pd, s)" "load64 (fs + 40) s = Inr (buf, s)"
      "load64 (pd + 8) s = Inr (sym_ramdisk0_input (kenv s), s)"
    using holds_load64 [OF h p(4), of 16] holds_load64 [OF h p(4), of 40] holds_load64 [OF h p(5), of 8]
    by (simp_all add: runs_to_iff)
  with holds_input [OF h p(8, 6, 7) j] show ?thesis
    by (auto simp: runs_to_iff w1block_or_panic_def rfs_w1block_def call_dev_def kdefs)
qed

lemma holds_r1block:
  assumes h: "holds b xs M s" and w: "wired b xs M fs pd buf" and j: "j < 128"
  shows "runs_to (rfs_r1block fs (of_nat j)) s (\<lambda>r t. r = 0 \<and> holds b xs (M(buf := M (block_addr b j))) t)"
proof -
  note p = wired_pages [OF w]
  have "M fs 16 = pd" "M fs 40 = buf" "M pd 16 = sym_ramdisk0_output (kenv s)"
      "sym_ramdisk0_output (kenv s) \<noteq> sym_ramdisk0_input (kenv s)"
    using w holds_eq [OF h] by (simp_all add: wired_def)
  moreover from this have "load64 (fs + 16) s = Inr (pd, s)" "load64 (fs + 40) s = Inr (buf, s)"
      "load64 (pd + 16) s = Inr (sym_ramdisk0_output (kenv s), s)"
    using holds_load64 [OF h p(4), of 16] holds_load64 [OF h p(4), of 40] holds_load64 [OF h p(5), of 16]
    by (simp_all add: runs_to_iff)
  ultimately show ?thesis
    using holds_output [OF h p(8, 3, 7) j] by (auto simp: runs_to_iff rfs_r1block_def call_dev_def kdefs)
qed

section \<open>Formatting the disk\<close>

definition super_page :: "(u64 \<Rightarrow> u64) \<Rightarrow> u64 \<Rightarrow> u64" where
  "super_page N = N(0 := halves RFS_MAGIC 112, 8 := halves 100 RFS_MAX_INODE_NUM)"

lemma build_superblock_holds:
  assumes h: "holds b xs M s" and w: "wired b xs M fs pd buf"
  shows "runs_to (build_superblock fs) s (\<lambda>_. holds b xs
    (M(fs := super_page (M fs), buf := super_page (M fs), block_addr b 0 := super_page (M fs))))"
proof -
  note p = wired_pages [OF w]
  let ?M = "M(fs := super_page (M fs))"
  have w1: "wired b xs ?M fs pd buf" using w by (intro wired_fs) (simp_all add: super_page_def)
  have "runs_to (kbind (load64 (rfs_buffer fs)) (\<lambda>b. kthen (memcpy b (super_magic fs) RFS_BLKSIZE)
       (w1block_or_panic fs RFS_BLKN_SUPER ''RFS: failed to write superblock!''))) t
     (\<lambda>_. holds b xs (?M(buf := super_page (M fs), block_addr b 0 := super_page (M fs))))"
    if t: "holds b xs ?M t" for t
  proof (rule runs_load64 [OF t p(4), of 40])
    have "M fs 40 = buf" using w by (simp add: wired_def)
    then have "?M fs 40 = buf" by (simp add: super_page_def)
    moreover have "runs_to (memcpy buf fs 4096) t (\<lambda>_. holds b xs (?M(buf := super_page (M fs))))"
      using holds_memcpy [OF t p(3, 4)] p(9) by auto
    moreover have "runs_to (w1block_or_panic fs 0 ''RFS: failed to write superblock!'') u
        (\<lambda>_. holds b xs (?M(buf := super_page (M fs), block_addr b 0 := super_page (M fs))))"
      if u: "holds b xs (?M(buf := super_page (M fs))) u" for u
      using holds_w1block [OF u wired_buf [OF w1], of 0] by simp
    ultimately show "runs_to (kthen (memcpy (?M fs 40) (super_magic fs) RFS_BLKSIZE)
        (w1block_or_panic fs RFS_BLKN_SUPER ''RFS: failed to write superblock!'')) t
        (\<lambda>_. holds b xs (?M(buf := super_page (M fs), block_addr b 0 := super_page (M fs))))"
      by (auto intro: runs_to_kthen)
  qed simp_all
  then show ?thesis
    unfolding build_superblock_def
    by (intro runs_store_pair [OF h p(1), of 0] runs_store_pair [OF _ p(1), of _ _ 8])
       (auto simp: super_page_def fun_upd_twist)
qed

definition bitmap_page :: "u64 \<Rightarrow> u64" where
  "bitmap_page = (\<lambda>_. 0)(0 := 1)"

lemma build_bitmap_holds:
  assumes h: "holds b (fm # xs) M s" and w: "wired b (fm # xs) M fs pd buf"
    and fm: "fm \<notin> {fs, pd, buf}" "outside_disk b fm"
  shows "runs_to (build_bitmap fs) s (\<lambda>_. holds b xs
    (M(fs := (M fs)(24 := fm), fm := bitmap_page, buf := bitmap_page, block_addr b 11 := bitmap_page)))"
  unfolding build_bitmap_def
proof (rule runs_to_kbind [OF holds_alloc [OF h]])
  fix r t assume r: "r = fm \<and> holds b xs M t \<and> own b xs fm"
  then have t: "holds b xs M t" and own: "own b xs fm" "page_ok b fm" by (auto simp: own_def)
  have w0: "wired b xs M fs pd buf" using w by (rule wired_drop)
  note p = wired_pages [OF w0]
  let ?M = "M(fs := (M fs)(24 := fm), fm := bitmap_page)"
  have w1: "wired b xs (?M(buf := bitmap_page)) fs pd buf"
    using w0 fm by (auto simp: wired_def)
  have 1: "runs_to (store64 (rfs_freemap fs) fm) t (\<lambda>_. holds b xs (M(fs := (M fs)(24 := fm))))"
    using holds_store64 [OF t p(1), of 24] by simp
  have 2: "runs_to (memset fm 0 RFS_BLKSIZE) u (\<lambda>_. holds b xs (M(fs := (M fs)(24 := fm), fm := \<lambda>_. 0)))"
    if "holds b xs (M(fs := (M fs)(24 := fm))) u" for u
    using holds_memset [OF that own(1)] by simp
  have 3: "runs_to (store32 fm 1) u (\<lambda>_. holds b xs ?M)"
    if "holds b xs (M(fs := (M fs)(24 := fm), fm := \<lambda>_. 0)) u" for u
    using holds_store32 [OF that own(1), of 0 1] by (simp add: bitmap_page_def put_bits_def)
  have 4: "runs_to (kbind (load64 (rfs_buffer fs)) (\<lambda>b. kthen (memcpy b fm RFS_BLKSIZE)
       (w1block_or_panic fs RFS_BLKN_BITMAP ''RFS: failed to write bitmap!''))) u
     (\<lambda>_. holds b xs (?M(buf := bitmap_page, block_addr b 11 := bitmap_page)))" if u: "holds b xs ?M u" for u
  proof (rule runs_load64 [OF u p(4), of 40])
    have "?M fs 40 = buf" using w1 p(9) by (simp add: wired_def)
    moreover have "runs_to (memcpy buf fm 4096) u (\<lambda>_. holds b xs (?M(buf := bitmap_page)))"
      using holds_memcpy [OF u p(3) own(2)] fm by auto
    moreover have "runs_to (w1block_or_panic fs 11 ''RFS: failed to write bitmap!'') v
        (\<lambda>_. holds b xs (?M(buf := bitmap_page, block_addr b 11 := bitmap_page)))"
      if v: "holds b xs (?M(buf := bitmap_page)) v" for v
      using holds_w1block [OF v w1, of 11] by simp
    ultimately show "runs_to (kthen (memcpy (?M fs 40) fm RFS_BLKSIZE)
        (w1block_or_panic fs RFS_BLKN_BITMAP ''RFS: failed to write bitmap!'')) u
        (\<lambda>_. holds b xs (?M(buf := bitmap_page, block_addr b 11 := bitmap_page)))"
      by (auto intro: runs_to_kthen)
  qed simp_all
  have "fm = r" using r by simp
  then show "runs_to (kthen (store64 (rfs_freemap fs) r) (kthen (memset r 0 RFS_BLKSIZE) (kthen (store32 r 1)
      (kbind (load64 (rfs_buffer fs)) (\<lambda>b. kthen (memcpy b r RFS_BLKSIZE)
       (w1block_or_panic fs RFS_BLKN_BITMAP ''RFS: failed to write bitmap!'')))))) t
     (\<lambda>_. holds b xs (M(fs := (M fs)(24 := fm), fm := bitmap_page, buf := bitmap_page, block_addr b 11 := bitmap_page)))"
    using 1 2 3 4 by (auto intro!: runs_to_kthen)
qed

definition free_inode_page :: "u64 \<Rightarrow> u64" where
  "free_inode_page = bitmap_page(0 := halves 0 T_FREE, 8 := halves 0 0)"

definition root_inode_page :: "u64 \<Rightarrow> u64" where
  "root_inode_page = bitmap_page(0 := halves 32 T_DIR, 8 := halves 1 1, 16 := 12)"

text \<open>The blocks \<open>2, \<dots>, n\<close> hold free inodes.\<close>

definition with_inodes :: "kstate \<Rightarrow> nat \<Rightarrow> (u64 \<Rightarrow> u64 \<Rightarrow> u64) \<Rightarrow> u64 \<Rightarrow> u64 \<Rightarrow> u64" where
  "with_inodes b n M = (\<lambda>p. if \<exists>j. 2 \<le> j \<and> j \<le> n \<and> p = block_addr b j then free_inode_page else M p)"

lemma with_inodes_Suc:
  "1 \<le> n \<Longrightarrow> (with_inodes b n M)(block_addr b (Suc n) := free_inode_page) = with_inodes b (Suc n) M"
  by (auto simp: with_inodes_def fun_eq_iff le_Suc_eq dest: spec [of _ "Suc n"])

lemma with_inodes_1 [simp]: "with_inodes b 1 M = M" "with_inodes b (Suc 0) M = M"
  by (auto simp: with_inodes_def fun_eq_iff)

lemma with_inodes_outside: "outside_disk b p \<Longrightarrow> n < 128 \<Longrightarrow> with_inodes b n M p = M p"
  unfolding with_inodes_def outside_disk_def by (metis le_less_trans)

lemma wired_with_inodes: "wired b xs M fs pd buf \<Longrightarrow> n < 128 \<Longrightarrow> wired b xs (with_inodes b n M) fs pd buf"
  by (simp add: wired_def with_inodes_outside)

lemma inode_loop_holds:
  assumes h: "holds b xs M s" and w: "wired b xs M fs pd buf" and buf: "M buf = free_inode_page"
  shows "runs_to (kfor [1..<10] (\<lambda>i. w1block_or_panic fs (RFS_BLKN_INODE + of_nat i) ''RFS: failed to write inodes!'')) s
    (\<lambda>_. holds b xs (with_inodes b 10 M))"
proof (rule runs_to_kfor_upt [where J = "\<lambda>i. holds b xs (with_inodes b i M)"])
  fix i u assume i: "1 \<le> i" "i < (10::nat)" and u: "holds b xs (with_inodes b i M) u"
  have "with_inodes b i M buf = free_inode_page"
    using i wired_pages(7) [OF w] buf by (simp add: with_inodes_outside)
  moreover have "1 + of_nat i = (of_nat (Suc i) :: i32)" by simp
  ultimately show "runs_to (w1block_or_panic fs (RFS_BLKN_INODE + of_nat i) ''RFS: failed to write inodes!'') u
      (\<lambda>_. holds b xs (with_inodes b (Suc i) M))"
    using holds_w1block [OF u wired_with_inodes [OF w], of "Suc i"] i with_inodes_Suc [of i b M] by (simp del: of_nat_Suc)
qed (use h in simp_all)

lemma root_inode_holds:
  assumes h: "holds b xs M s" and w: "wired b xs M fs pd buf" and buf: "M buf = free_inode_page"
  shows "runs_to (kthen (store32 (di_size buf) (ucast DIRENTRY_SIZE))
    (kthen (store32 (di_type buf) T_DIR)
    (kthen (store32 (di_nlinks buf) 1)
    (kthen (store32 (di_blocks buf) 1)
    (kthen (store64 (di_addrs buf 0) (scast RFS_BLKN_FREE))
       (w1block_or_panic fs RFS_BLKN_INODE ''RFS: failed to write root inode!'')))))) s
    (\<lambda>_. holds b xs (M(buf := root_inode_page, block_addr b 1 := root_inode_page)))"
proof -
  note p = wired_pages [OF w]
  have "runs_to (kthen (store64 (di_addrs buf 0) (scast RFS_BLKN_FREE))
       (w1block_or_panic fs RFS_BLKN_INODE ''RFS: failed to write root inode!'')) t
      (\<lambda>_. holds b xs (M(buf := root_inode_page, block_addr b 1 := root_inode_page)))"
    if t: "holds b xs (M(buf := free_inode_page(0 := halves 32 T_DIR, 8 := halves 1 1))) t" for t
  proof (rule runs_to_kthen)
    show "runs_to (store64 (di_addrs buf 0) (scast RFS_BLKN_FREE)) t (\<lambda>_. holds b xs (M(buf := root_inode_page)))"
      using holds_store64 [OF t p(3), of 16 12] by (simp add: root_inode_page_def free_inode_page_def fun_upd_twist)
    show "runs_to (w1block_or_panic fs RFS_BLKN_INODE ''RFS: failed to write root inode!'') u
        (\<lambda>_. holds b xs (M(buf := root_inode_page, block_addr b 1 := root_inode_page)))"
      if "holds b xs (M(buf := root_inode_page)) u" for u
      using holds_w1block [OF that wired_buf [OF w], of 1] by simp
  qed
  then show ?thesis
    by (intro runs_store_pair [OF h p(3), of 0] runs_store_pair [OF _ p(3), of _ _ 8]) (auto simp: buf)
qed

lemma build_inodes_holds:
  assumes h: "holds b xs M s" and w: "wired b xs M fs pd buf"
    and n: "M fs 8 = halves 100 10" and buf: "M buf = bitmap_page"
  shows "runs_to (build_inodes fs buf) s (\<lambda>_. holds b xs
    ((with_inodes b 10 M)(buf := root_inode_page, block_addr b 1 := root_inode_page)))"
proof -
  note p = wired_pages [OF w]
  let ?M = "M(buf := free_inode_page)"
  let ?W = "with_inodes b 10 ?M"
  have n': "ucast (get_bits (bit_off 12) 32 (?M fs (dword_of 12))) = (10 :: i32)"
    using n p(9) get_halves(2) [of 100 10] by simp
  have "?W buf = free_inode_page" using p(7) by (simp add: with_inodes_outside)
  moreover have "?W(buf := root_inode_page) = (with_inodes b 10 M)(buf := root_inode_page)"
    by (auto simp: with_inodes_def fun_eq_iff)
  ultimately have root: "runs_to (kthen (store32 (di_size buf) (ucast DIRENTRY_SIZE))
    (kthen (store32 (di_type buf) T_DIR) (kthen (store32 (di_nlinks buf) 1) (kthen (store32 (di_blocks buf) 1)
    (kthen (store64 (di_addrs buf 0) (scast RFS_BLKN_FREE))
       (w1block_or_panic fs RFS_BLKN_INODE ''RFS: failed to write root inode!'')))))) t
    (\<lambda>_. holds b xs ((with_inodes b 10 M)(buf := root_inode_page, block_addr b 1 := root_inode_page)))"
    if "holds b xs ?W t" for t
    using root_inode_holds [OF that wired_with_inodes [OF wired_buf [OF w]]] by simp
  show ?thesis
    unfolding build_inodes_def
  proof (intro runs_store_pair [OF h p(3), of 0] runs_store_pair [OF _ p(3), of _ _ 8])
    fix t assume "holds b xs (M(buf := (M buf)(0 := halves 0 T_FREE), buf := ((M(buf := (M buf)(0 := halves 0 T_FREE))) buf)(8 := halves 0 0))) t"
    then have t: "holds b xs ?M t" by (simp add: buf free_inode_page_def)
    show "runs_to (kbind (load32 (super_ninodes fs)) (\<lambda>n. kthen (kfor [1..<nat (sint n)] (\<lambda>i.
        w1block_or_panic fs (RFS_BLKN_INODE + of_nat i) ''RFS: failed to write inodes!''))
      (kthen (store32 (di_size buf) (ucast DIRENTRY_SIZE))
      (kthen (store32 (di_type buf) T_DIR) (kthen (store32 (di_nlinks buf) 1) (kthen (store32 (di_blocks buf) 1)
      (kthen (store64 (di_addrs buf 0) (scast RFS_BLKN_FREE))
         (w1block_or_panic fs RFS_BLKN_INODE ''RFS: failed to write root inode!'')))))))) t
      (\<lambda>_. holds b xs ((with_inodes b 10 M)(buf := root_inode_page, block_addr b 1 := root_inode_page)))"
      by (rule runs_load32 [OF t p(4), of 12], simp_all only: n')
         (use inode_loop_holds [OF t wired_buf [OF w]] root in \<open>auto elim!: runs_to_kthen simp del: upt_rec_numeral\<close>)
  qed simp_all
qed

text \<open>A string literal of the kernel image.\<close>

definition rom :: "kstate \<Rightarrow> u64 \<Rightarrow> u8 \<Rightarrow> bool" where
  "rom b a c \<longleftrightarrow> \<not> mem_ok b a \<and> a < PHYS_TOP \<and> rodata (kenv b) a = Some c"

fun literal :: "kstate \<Rightarrow> u64 \<Rightarrow> u8 list \<Rightarrow> bool" where
  "literal b a [] \<longleftrightarrow> rom b a 0"
| "literal b a (c # cs) \<longleftrightarrow> c \<noteq> 0 \<and> rom b a c \<and> literal b (a + 1) cs"

lemma load8_rom: "rom b a c \<Longrightarrow> mem_ok s = mem_ok b \<Longrightarrow> kenv s = kenv b \<Longrightarrow> load8 a s = Inr (c, s)"
  by (simp add: rom_def load8_eq)

lemma strcmp_literal:
  "literal b a cs \<Longrightarrow> mem_ok s = mem_ok b \<Longrightarrow> kenv s = kenv b \<Longrightarrow> strcmp a a s = Inr (0, s)"
proof (induction cs arbitrary: a)
  case Nil
  then show ?case by (simp add: strcmp.simps [of a a s] kdefs load8_rom [of b])
next
  case (Cons c cs)
  then show ?case by (simp add: strcmp.simps [of a a s] kdefs load8_rom [of b a c s])
qed

definition root_dir_page :: "u64 \<Rightarrow> u64" where
  "root_dir_page = root_inode_page(0 := halves RFS_BLKN_INODE 47)"

lemma dir_word:
  "put_bits 40 8 0 (put_bits 32 8 47 (put_bits 0 32 1 (halves 32 2))) = halves 1 47"
  by (simp add: put_bits_def halves_def mask_eq_exp_minus_1)

lemma root_name_holds:
  assumes h: "holds b xs (M(buf := root_inode_page(0 := put_bits 0 32 1 (halves 32 2)))) s" and own: "own b xs buf"
    and lit: "literal b (sym_str_slash (kenv b)) [47]"
  shows "runs_to (strcpy (buf + 4) (sym_str_slash (kenv b))) s (\<lambda>_. holds b xs (M(buf := root_dir_page)))"
proof -
  let ?slash = "sym_str_slash (kenv b)"
  let ?N = "M(buf := root_inode_page(0 := put_bits 32 8 47 (put_bits 0 32 1 (halves 32 2))))"
  obtain u where u: "store8 (buf + 4) 47 s = Inr ((), u)" "holds b xs ?N u"
    using holds_store8 [OF h own, of 4 47] by (auto simp: runs_to_iff)
  obtain v where v: "store8 (buf + 5) 0 u = Inr ((), v)" "holds b xs (M(buf := root_dir_page)) v"
    using holds_store8 [OF u(2) own, of 5 0] by (auto simp: runs_to_iff root_dir_page_def dir_word)
  have "load8 ?slash s = Inr (47, s)" "load8 (?slash + 1) u = Inr (0, u)"
    using lit holds_eq [OF h] holds_eq [OF u(2)] by (simp_all add: load8_rom [of b])
  then show ?thesis
    using u v
    by (simp add: runs_to_iff strcpy_def strcpy_loop.simps [of "buf + 4"] strcpy_loop.simps [of "buf + 5"] kdefs add.assoc)
qed

lemma build_root_dir_holds:
  assumes h: "holds b xs M s" and w: "wired b xs M fs pd buf" and buf: "M buf = root_inode_page"
    and lit: "literal b (sym_str_slash (kenv b)) [47]"
  shows "runs_to (build_root_dir fs) s (\<lambda>_. holds b xs (M(buf := root_dir_page, block_addr b 12 := root_dir_page)))"
  unfolding build_root_dir_def
proof (rule runs_load64 [OF h wired_pages(4) [OF w], of 40])
  note p = wired_pages [OF w]
  let ?M = "M(buf := root_inode_page(0 := put_bits 0 32 1 (halves 32 2)))"
  have 1: "runs_to (store32 (de_inum buf 0) RFS_BLKN_INODE) s (\<lambda>_. holds b xs ?M)"
    using holds_store32 [OF h p(3), of 0 1] by (simp add: buf root_inode_page_def)
  have 2: "runs_to (w1block_or_panic fs RFS_BLKN_FREE ''RFS: failed to write root inode!'') t
      (\<lambda>_. holds b xs (M(buf := root_dir_page, block_addr b 12 := root_dir_page)))"
    if "holds b xs (M(buf := root_dir_page)) t" for t
    using holds_w1block [OF that wired_buf [OF w], of 12] by simp
  have 3: "runs_to (kbind (kget (\<lambda>s. sym_str_slash (kenv s))) (\<lambda>slash. kthen (strcpy (de_name buf 0) slash)
      (w1block_or_panic fs RFS_BLKN_FREE ''RFS: failed to write root inode!''))) t
      (\<lambda>_. holds b xs (M(buf := root_dir_page, block_addr b 12 := root_dir_page)))" if t: "holds b xs ?M t" for t
    using runs_to_kthen [OF root_name_holds [OF t p(3) lit] 2] holds_eq [OF t] by (simp add: runs_to_iff kbind_eq kget_eq)
  have "M fs 40 = buf" using w by (simp add: wired_def)
  then show "runs_to (kthen (store32 (de_inum (M fs 40) 0) RFS_BLKN_INODE)
      (kbind (kget (\<lambda>s. sym_str_slash (kenv s))) (\<lambda>slash. kthen (strcpy (de_name (M fs 40) 0) slash)
      (w1block_or_panic fs RFS_BLKN_FREE ''RFS: failed to write root inode!'')))) s
      (\<lambda>_. holds b xs (M(buf := root_dir_page, block_addr b 12 := root_dir_page)))"
    using runs_to_kthen [OF 1 3] by simp
qed simp_all

section \<open>Mounting\<close>

text \<open>What the disk holds after it was formatted.\<close>

definition formatted_pages :: "kstate \<Rightarrow> (u64 \<Rightarrow> u64 \<Rightarrow> u64) \<Rightarrow> bool" where
  "formatted_pages b M \<longleftrightarrow>
     M (block_addr b 0) 0 = halves RFS_MAGIC 112 \<and> M (block_addr b 0) 8 = halves 100 RFS_MAX_INODE_NUM \<and>
     M (block_addr b 1) = root_inode_page \<and> (\<forall>j. 2 \<le> j \<and> j \<le> 10 \<longrightarrow> M (block_addr b j) = free_inode_page) \<and>
     M (block_addr b 11) = bitmap_page \<and> M (block_addr b 12) = root_dir_page"

lemma formatted_updates:
  assumes "disk_ok b" and "\<And>p. p \<in> {fs, buf, fm} \<Longrightarrow> outside_disk b p"
  shows "formatted_pages b ((with_inodes b 10 (M(fs := super_page F, buf := super_page F,
      block_addr b 0 := super_page F, fs := G, fm := bitmap_page, buf := bitmap_page, block_addr b 11 := bitmap_page)))
    (buf := root_inode_page, block_addr b 1 := root_inode_page, buf := root_dir_page, block_addr b 12 := root_dir_page))"
proof -
  have out: "block_addr b j \<notin> {fs, buf, fm}" if "j < 128" for j
    using assms(2) that by (auto simp: outside_disk_def)
  have inj: "block_addr b i = block_addr b j \<longleftrightarrow> i = j" if "i < 128" "j < 128" for i j
    using assms(1) that by (rule block_addr_inj)
  have "with_inodes b 10 N (block_addr b j) = (if 2 \<le> j \<and> j \<le> 10 then free_inode_page else N (block_addr b j))"
    if "j < 128" for N j
    using that inj by (auto simp: with_inodes_def)
  then show ?thesis
    using out by (auto simp: formatted_pages_def inj super_page_def)
qed

lemma mount_format:
  assumes h: "holds b (fm # xs) M s" and w: "wired b (fm # xs) M fs pd buf"
    and fm: "fm \<notin> {fs, pd, buf}" "outside_disk b fm" and lit: "literal b (sym_str_slash (kenv b)) [47]"
  shows "runs_to (kthen (build_superblock fs) (kthen (build_bitmap fs)
      (kbind (load64 (rfs_buffer fs)) (\<lambda>pinode. kthen (build_inodes fs pinode) (build_root_dir fs))))) s
    (\<lambda>_ t. \<exists>N. holds b xs N t \<and> wired b xs N fs pd buf \<and> formatted_pages b N \<and>
      (\<forall>p. p \<notin> {fs, buf, fm} \<longrightarrow> outside_disk b p \<longrightarrow> N p = M p))"
proof (rule runs_to_kthen [OF build_superblock_holds [OF h w]], rule runs_to_kthen)
  note p = wired_pages [OF w]
  let ?F = "super_page (M fs)"
  define M1 where "M1 = M(fs := ?F, buf := ?F, block_addr b 0 := ?F)"
  define M2 where "M2 = M1(fs := (M1 fs)(24 := fm), fm := bitmap_page, buf := bitmap_page, block_addr b 11 := bitmap_page)"
  define M3 where "M3 = (with_inodes b 10 M2)(buf := root_inode_page, block_addr b 1 := root_inode_page)"
  define M4 where "M4 = M3(buf := root_dir_page, block_addr b 12 := root_dir_page)"
  have w1: "wired b (fm # xs) M1 fs pd buf"
    unfolding M1_def using w by (intro wired_block wired_buf wired_fs) (simp_all add: super_page_def)
  have out: "block_addr b j \<notin> {fs, pd, buf, fm}" if "j < 128" for j
    using w fm(2) that by (auto simp: wired_def outside_disk_def)
  have "fs \<noteq> fm" "buf \<noteq> fm" "fs \<noteq> block_addr b 0" "fs \<noteq> block_addr b 11" "buf \<noteq> block_addr b 11"
    using fm(1) out [of 0] out [of 11] by auto
  then have fs: "M2 fs = ?F(24 := fm)" "M2 buf = bitmap_page" using p(9) by (simp_all add: M2_def M1_def)
  have w2: "wired b xs M2 fs pd buf"
    unfolding M2_def using wired_drop [OF w1] fm(1)
    by (intro wired_block wired_buf wired_other [of _ _ _ _ _ _ fm] wired_fs) simp_all
  have w3: "wired b xs M3 fs pd buf"
    unfolding M3_def by (rule wired_block [OF wired_buf [OF wired_with_inodes [OF w2]]]) simp_all
  have w4: "wired b xs M4 fs pd buf" unfolding M4_def by (rule wired_block [OF wired_buf [OF w3]]) simp
  fix t assume "holds b (fm # xs) (M(fs := ?F, buf := ?F, block_addr b 0 := ?F)) t"
  then show "runs_to (build_bitmap fs) t (\<lambda>_. holds b xs M2)"
    unfolding M2_def using build_bitmap_holds [OF _ w1 fm] by (simp only: M1_def)
  fix u assume u: "holds b xs M2 u"
  have "M3 buf = root_inode_page" using out [of 1] by (auto simp: M3_def)
  then have root: "runs_to (build_root_dir fs) v (\<lambda>_. holds b xs M4)" if "holds b xs M3 v" for v
    unfolding M4_def using build_root_dir_holds [OF that w3 _ lit] by blast
  have "formatted_pages b M4"
    unfolding M4_def M3_def M2_def M1_def
    using own_disk_ok [OF p(8)] w fm(2) by (intro formatted_updates) (auto simp: wired_def)
  moreover have "M4 q = M q" if "q \<notin> {fs, buf, fm}" "outside_disk b q" for q
  proof -
    have "q \<noteq> block_addr b j" if "j < 128" for j using that \<open>outside_disk b q\<close> by (auto simp: outside_disk_def)
    with that show ?thesis by (simp add: M4_def M3_def M2_def M1_def with_inodes_outside)
  qed
  moreover have "runs_to (kbind (load64 (rfs_buffer fs)) (\<lambda>pinode. kthen (build_inodes fs pinode) (build_root_dir fs))) u
      (\<lambda>_. holds b xs M4)"
  proof (rule runs_load64 [OF u p(4), of 40])
    have "M2 fs 40 = buf" "M2 fs 8 = halves 100 10" using w2 fs by (simp_all add: wired_def super_page_def)
    then show "runs_to (kthen (build_inodes fs (M2 fs 40)) (build_root_dir fs)) u (\<lambda>_. holds b xs M4)"
      using runs_to_kthen [OF build_inodes_holds [OF u w2 _ fs(2)] root] by (simp only: M3_def)
  qed simp_all
  ultimately show "runs_to (kbind (load64 (rfs_buffer fs)) (\<lambda>pinode. kthen (build_inodes fs pinode) (build_root_dir fs))) u
      (\<lambda>_ t. \<exists>N. holds b xs N t \<and> wired b xs N fs pd buf \<and> formatted_pages b N \<and>
      (\<forall>p. p \<notin> {fs, buf, fm} \<longrightarrow> outside_disk b p \<longrightarrow> N p = M p))"
    using w4 by (auto elim!: runs_to_weaken)
qed

lemma mount_head:
  assumes h: "holds b (fs # buf # xs) M s" and d: "own_disk b (fs # buf # xs)" and pd: "own b (fs # buf # xs) pd"
    and out: "\<forall>p \<in> {fs, pd, buf}. outside_disk b p" and ne: "fs \<noteq> buf"
    and dev: "M pd 8 = sym_ramdisk0_input (kenv b)" "M pd 16 = sym_ramdisk0_output (kenv b)"
      "sym_ramdisk0_output (kenv b) \<noteq> sym_ramdisk0_input (kenv b)"
    and n: "\<And>t N. holds b xs N t \<Longrightarrow> wired b xs N fs pd buf \<Longrightarrow> (\<forall>p. p \<noteq> fs \<longrightarrow> N p = M p) \<Longrightarrow> runs_to (n fs) t R"
  shows "runs_to (kbind (alloc_fs RFS_TYPE) (\<lambda>fs. kthen (store64 (rfs_dev fs) pd) (kthen (store32 (rfs_dirty fs) 0)
     (kbind alloc_page (\<lambda>b. kthen (store64 (rfs_buffer fs) b) (n fs)))))) s R"
proof (rule runs_to_kbind)
  let ?M1 = "M(fs := (M fs)(48 := put_bits 0 32 0 (M fs 48)))"
  show "runs_to (alloc_fs RFS_TYPE) s (\<lambda>r t. r = fs \<and> own b (buf # xs) fs \<and> holds b (buf # xs) ?M1 t)"
    unfolding alloc_fs_def
  proof (rule runs_to_kbind [OF holds_alloc [OF h]])
    fix r t assume "r = fs \<and> holds b (buf # xs) M t \<and> own b (buf # xs) fs"
    then show "runs_to (kthen (store32 (fs_type r) RFS_TYPE) (kret r)) t (\<lambda>r t. r = fs \<and> own b (buf # xs) fs \<and> holds b (buf # xs) ?M1 t)"
      using holds_store32 [of b "buf # xs" M t fs 48 0] by (auto intro!: runs_to_kthen [where Q = "\<lambda>_. holds b (buf # xs) ?M1"])
  qed
  fix r t assume r: "r = fs \<and> own b (buf # xs) fs \<and> holds b (buf # xs) ?M1 t"
  let ?M2 = "?M1(fs := (?M1 fs)(16 := pd))"
  let ?M3 = "?M2(fs := (?M2 fs)(32 := put_bits 0 32 0 (?M2 fs 32)))"
  let ?M4 = "?M3(fs := (?M3 fs)(40 := buf))"
  have "buf \<notin> {fs, pd}" using pd ne by (auto simp: own_def)
  moreover have "own b xs pd" "fs \<noteq> pd" using pd by (auto simp: own_def)
  moreover have "own b xs (block_addr b j)" if "j < 128" for j using d that by (simp add: own_disk_def own_def)
  ultimately have w: "wired b xs ?M4 fs pd buf" if "own b xs buf"
    using that out dev r by (auto simp: wired_def own_disk_def)
  have 1: "runs_to (store64 (rfs_dev fs) pd) t (\<lambda>_. holds b (buf # xs) ?M2)"
    using holds_store64 [of b "buf # xs" ?M1 t fs 16 pd] r by simp
  have 2: "runs_to (store32 (rfs_dirty fs) 0) t (\<lambda>_. holds b (buf # xs) ?M3)" if "holds b (buf # xs) ?M2 t" for t
    using holds_store32 [OF that, of fs 32 0] r by simp
  have 3: "runs_to (store64 (rfs_buffer fs) buf) t (\<lambda>_. holds b xs ?M4)" if "holds b xs ?M3 t" for t
    using holds_store64 [OF that, of fs 40 buf] r own_drop [of b buf xs fs] by simp
  have 4: "runs_to (kbind alloc_page (\<lambda>b. kthen (store64 (rfs_buffer fs) b) (n fs))) t R" if "holds b (buf # xs) ?M3 t" for t
  proof (rule runs_to_kbind [OF holds_alloc [OF that]])
    fix q u assume q: "q = buf \<and> holds b xs ?M3 u \<and> own b xs buf"
    have "runs_to (n fs) v R" if "holds b xs ?M4 v" for v using that w q by (intro n [of ?M4]) auto
    with 3 [of u] q show "runs_to (kthen (store64 (rfs_buffer fs) q) (n fs)) u R" by (auto intro: runs_to_kthen)
  qed
  show "runs_to (kthen (store64 (rfs_dev r) pd) (kthen (store32 (rfs_dirty r) 0)
     (kbind alloc_page (\<lambda>b. kthen (store64 (rfs_buffer r) b) (n r))))) t R"
    using r by (simp only:) (rule runs_to_kthen [OF 1 runs_to_kthen [OF 2 4]])
qed

lemma mount_tail:
  assumes h: "holds b xs M s" and fs: "own b xs fs" and pdev: "own b xs pdev" "fs \<noteq> pdev"
  shows "runs_to (kbind (kget kenv) (\<lambda>E.
      kthen (store64 (fs_sync fs) (sym_rfs_sync E))
     (kthen (store64 (fs_get_root fs) (sym_rfs_get_root E))
     (kthen (store64 (fs_unmount fs) (sym_rfs_unmount E))
     (kthen (store64 (fs_cleanup fs) (sym_rfs_cleanup E))
     (kthen (store64 (pdev + 24) fs) (kret (0 :: int)))))))) s
   (\<lambda>r t. r = 0 \<and> holds b xs (M(fs := (M fs)(56 := sym_rfs_sync (kenv b), 64 := sym_rfs_get_root (kenv b),
      72 := sym_rfs_unmount (kenv b), 80 := sym_rfs_cleanup (kenv b)), pdev := (M pdev)(24 := fs))) t)"
proof -
  have E: "kenv s = kenv b" using holds_eq [OF h] by simp
  show ?thesis
    unfolding fs_sync_def fs_get_root_def fs_unmount_def fs_cleanup_def
    by (rule runs_kget, (rule runs_store64 [OF _ fs] runs_store64 [OF _ pdev(1)], (assumption | rule h), simp, simp)+,
        rule runs_to_kret) (use E pdev(2) in simp)
qed

lemma rfs_do_mount_holds:
  assumes h: "holds b (fs # buf # fm # xs) M s" and d: "own_disk b (fs # buf # fm # xs)"
    and pd: "own b (fs # buf # fm # xs) pd" "own b (fs # buf # fm # xs) pdev" "pd \<noteq> pdev"
    and out: "\<forall>p \<in> {fs, pd, buf, fm, pdev}. outside_disk b p"
    and dev: "M pd 8 = sym_ramdisk0_input (kenv b)" "M pd 16 = sym_ramdisk0_output (kenv b)"
      "sym_ramdisk0_output (kenv b) \<noteq> sym_ramdisk0_input (kenv b)"
    and lit: "literal b (sym_str_slash (kenv b)) [47]"
  shows "runs_to (rfs_do_mount pd (pdev + 24)) s (\<lambda>r t. r = 0 \<and> (\<exists>N. holds b xs N t \<and> wired b xs N fs pd buf \<and>
    formatted_pages b N \<and> N fs 64 = sym_rfs_get_root (kenv b) \<and> N pdev = (M pdev)(24 := fs)))"
  unfolding rfs_do_mount_def Let_def
proof (rule mount_head [OF h d pd(1) _ _ dev])
  have dist: "distinct (fs # buf # fm # xs)" using h free_pages_distinct unfolding holds_def by blast
  show "\<forall>p \<in> {fs, pd, buf}. outside_disk b p" "fs \<noteq> buf" using out dist by auto
  fix t N assume t: "holds b (fm # xs) N t" "wired b (fm # xs) N fs pd buf" and N: "\<forall>p. p \<noteq> fs \<longrightarrow> N p = M p"
  let ?E = "kenv b"
  let ?tail = "kbind (kget kenv) (\<lambda>E. kthen (store64 (fs_sync fs) (sym_rfs_sync E))
     (kthen (store64 (fs_get_root fs) (sym_rfs_get_root E)) (kthen (store64 (fs_unmount fs) (sym_rfs_unmount E))
     (kthen (store64 (fs_cleanup fs) (sym_rfs_cleanup E)) (kthen (store64 (pdev + 24) fs) (kret (0 :: int)))))))"
  have pdev: "own b xs pdev" "pdev \<notin> {fs, pd, buf, fm}" using pd by (auto simp: own_def)
  have tail: "runs_to ?tail u (\<lambda>r t. r = 0 \<and> (\<exists>N. holds b xs N t \<and> wired b xs N fs pd buf \<and>
      formatted_pages b N \<and> N fs 64 = sym_rfs_get_root ?E \<and> N pdev = (M pdev)(24 := fs)))"
    if u: "holds b xs L u" "wired b xs L fs pd buf" "formatted_pages b L"
      "\<forall>p. p \<notin> {fs, buf, fm} \<longrightarrow> outside_disk b p \<longrightarrow> L p = N p" for u L
  proof -
    have "fs \<noteq> pdev" "L pdev = M pdev" using pdev out u(4) N by auto
    moreover have "block_addr b j \<notin> {fs, pdev}" if "j < 128" for j using out that by (auto simp: outside_disk_def)
    then have "formatted_pages b (L(fs := F, pdev := P))" for F P using u(3) by (auto simp: formatted_pages_def)
    moreover have "wired b xs (L(fs := (L fs)(56 := w, 64 := x, 72 := y, 80 := z), pdev := P)) fs pd buf" for w x y z P
      using u(2) pdev by (intro wired_other wired_fs) auto
    ultimately show ?thesis
      by (intro runs_to_weaken [OF mount_tail [OF u(1) wired_pages(1) [OF u(2)] pdev(1)]]) auto
  qed
  have "runs_to (kthen (kthen (build_superblock fs) (kthen (build_bitmap fs)
      (kbind (load64 (rfs_buffer fs)) (\<lambda>pinode. kthen (build_inodes fs pinode) (build_root_dir fs))))) ?tail) t
      (\<lambda>r t. r = 0 \<and> (\<exists>N. holds b xs N t \<and> wired b xs N fs pd buf \<and>
      formatted_pages b N \<and> N fs 64 = sym_rfs_get_root ?E \<and> N pdev = (M pdev)(24 := fs)))"
  proof (rule runs_to_kthen [OF mount_format [OF t _ _ lit]])
    show "fm \<notin> {fs, pd, buf}" "outside_disk b fm" using out dist pd(1) by (auto simp: own_def)
  qed (use tail in blast)
  then show "runs_to (kthen (build_superblock fs) (kthen (build_bitmap fs) (kbind (load64 (rfs_buffer fs)) (\<lambda>pinode.
      kthen (build_inodes fs pinode) (kthen (build_root_dir fs) ?tail))))) t
      (\<lambda>r t. r = 0 \<and> (\<exists>N. holds b xs N t \<and> wired b xs N fs pd buf \<and>
      formatted_pages b N \<and> N fs 64 = sym_rfs_get_root ?E \<and> N pdev = (M pdev)(24 := fs)))"
    by (simp only: kthen_assoc kbind_kthen)
qed

end
