(* ===== verification/PKE_Mount.thy ===== *)
theory PKE_Mount
  imports PKE_Format PKE_File
begin

text \<open>
  The RAM file system in use: \<^verbatim>\<open>fs_init\<close> of \<^verbatim>\<open>kernel/file.c\<close> makes a disk, registers it and mounts a
  formatted file system on it; the root inode that \<^verbatim>\<open>rfs_get_root\<close> of \<^verbatim>\<open>kernel/rfs.c\<close> loads is the
  one that was written; and \<^verbatim>\<open>rfs_lookup\<close>, which takes the block number in it for an address,
  never finds a file.
\<close>

section \<open>A mounted file system\<close>

definition page_words :: "kstate \<Rightarrow> u64 \<Rightarrow> u64 \<Rightarrow> u64" where
  "page_words s p k = mem s (p + k)"

definition mounted :: "kstate \<Rightarrow> u64 list \<Rightarrow> u64 \<Rightarrow> u64 \<Rightarrow> u64 \<Rightarrow> bool" where
  "mounted s xs fs pd buf \<longleftrightarrow> free_pages s xs \<and> wired s xs (page_words s) fs pd buf \<and>
     mem s (fs + 64) = sym_rfs_get_root (kenv s)"

definition disk_block :: "kstate \<Rightarrow> nat \<Rightarrow> (u64 \<Rightarrow> u64) \<Rightarrow> bool" where
  "disk_block s j N \<longleftrightarrow> (\<forall>k. unat k < 4096 \<longrightarrow> unat k mod 8 = 0 \<longrightarrow> mem s (block_addr s j + k) = N k)"

text \<open>The layout of the disk: superblock, root inode, free inodes, bitmap and root directory.\<close>

definition formatted :: "kstate \<Rightarrow> bool" where
  "formatted s \<longleftrightarrow>
     mem s (block_addr s 0) = halves RFS_MAGIC 112 \<and> mem s (block_addr s 0 + 8) = halves 100 RFS_MAX_INODE_NUM \<and>
     disk_block s 1 ((\<lambda>_. 0)(0 := halves 32 T_DIR, 8 := halves 1 1, 16 := scast RFS_BLKN_FREE)) \<and>
     (\<forall>j. 2 \<le> j \<and> j \<le> 10 \<longrightarrow> disk_block s j (\<lambda>_. 0)) \<and>
     disk_block s 11 ((\<lambda>_. 0)(0 := 1)) \<and>
     disk_block s 12 ((\<lambda>_. 0)(0 := halves RFS_BLKN_INODE 47, 8 := halves 1 1, 16 := scast RFS_BLKN_FREE))"

lemma pages_eval:
  "free_inode_page = (\<lambda>_. 0)"
  "root_inode_page = (\<lambda>_. 0)(0 := halves 32 T_DIR, 8 := halves 1 1, 16 := scast RFS_BLKN_FREE)"
  "root_dir_page = (\<lambda>_. 0)(0 := halves RFS_BLKN_INODE 47, 8 := halves 1 1, 16 := scast RFS_BLKN_FREE)"
  "bitmap_page = (\<lambda>_. 0)(0 := 1)"
  by (auto simp: free_inode_page_def root_inode_page_def root_dir_page_def bitmap_page_def halves_def)

lemma mountedI:
  assumes h: "holds b xs N t" and w: "wired b xs N fs pd buf" and f: "formatted_pages b N"
    and r: "N fs 64 = sym_rfs_get_root (kenv b)"
  shows "mounted t xs fs pd buf" and "formatted t"
proof -
  note eqs = holds_eq [OF h]
  have m: "mem t (p + k) = N p k" if "page_ok b p" "unat k < 4096" "unat k mod 8 = 0" for p k
    using h that by (simp add: holds_def)
  have blk: "block_addr t j = block_addr b j" for j using eqs by (simp add: block_addr_def)
  have ok: "page_ok b (block_addr b j)" if "j < 128" for j
    using wired_pages(8) [OF w] that by (simp add: own_disk_def own_def)
  have "page_words t fs 16 = N fs 16" "page_words t fs 40 = N fs 40" "page_words t pd 8 = N pd 8"
      "page_words t pd 16 = N pd 16" "mem t (fs + 64) = N fs 64"
    using m wired_pages [OF w] by (simp_all add: page_words_def)
  moreover have "own t = own b" "own_disk t = own_disk b" "outside_disk t = outside_disk b"
    using eqs blk by (simp_all add: own_def own_disk_def outside_disk_def fun_eq_iff)
  ultimately show "mounted t xs fs pd buf"
    using w r h eqs by (auto simp: mounted_def wired_def holds_def)
  have "disk_block t j (N (block_addr b j))" if "j < 128" for j
    using m ok [OF that] by (simp add: disk_block_def blk)
  then have d: "disk_block t j L" if "N (block_addr b j) = L" "j < 128" for j L using that by metis
  have "disk_block t 1 root_inode_page" "disk_block t 11 bitmap_page" "disk_block t 12 root_dir_page"
    using f by (intro d; simp add: formatted_pages_def)+
  moreover have "disk_block t j free_inode_page" if "2 \<le> j" "j \<le> 10" for j
    using f that by (intro d) (simp_all add: formatted_pages_def)
  moreover have "mem t (block_addr b 0) = N (block_addr b 0) 0" "mem t (block_addr b 0 + 8) = N (block_addr b 0) 8"
    using m [of "block_addr b 0" 0] m [of "block_addr b 0" 8] ok [of 0] by simp_all
  ultimately show "formatted t"
    using f by (simp add: formatted_def formatted_pages_def blk pages_eval)
qed

section \<open>Setting up the device\<close>

lemma holds_vdev:
  assumes "holds b xs M s"
  shows "holds (b\<lparr>vdev_list := v\<rparr>) xs M (s\<lparr>vdev_list := v\<rparr>)"
proof -
  have "mem_erase (u\<lparr>vdev_list := v\<rparr>) = (mem_erase u)\<lparr>vdev_list := v\<rparr>" for u by (simp add: mem_erase_def)
  with assms show ?thesis by (simp add: holds_def free_pages_def)
qed

lemma dev_init_ramdisk0_holds:
  assumes h: "holds b (pdev # pd # xs) M s" and v: "v = (vdev_list b)[RAMDISK0 := pdev]"
  shows "\<exists>t N. dev_init_ramdisk0 s = Inr ((), t) \<and> holds (b\<lparr>vdev_list := v\<rparr>) xs N t \<and> own b xs pdev \<and> own b xs pd \<and>
    pd \<noteq> pdev \<and> N pdev 0 = sym_str_ramdisk0 (kenv b) \<and> N pdev 16 = pd \<and> N pd 8 = sym_ramdisk0_input (kenv b) \<and>
    N pd 16 = sym_ramdisk0_output (kenv b)"
proof -
  let ?E = "kenv b"
  obtain s1 where 1: "alloc_page s = Inr (pdev, s1)" "holds b (pd # xs) M s1" and dev: "own b (pd # xs) pdev"
    using holds_alloc [OF h] by (auto simp: runs_to_iff)
  then have E: "kenv s1 = ?E" and ne: "pd \<noteq> pdev" "own b xs pdev" using holds_eq [OF 1(2)] by (auto simp: own_def)
  define M1 where "M1 = M(pdev := (M pdev)(0 := sym_str_ramdisk0 ?E))"
  obtain s2 where 2: "store64 pdev (sym_str_ramdisk0 ?E) s1 = Inr ((), s2)" "holds b (pd # xs) M1 s2"
    using holds_store64 [OF 1(2) dev, of 0] by (auto simp: runs_to_iff M1_def)
  define M2 where "M2 = M1(pdev := (M1 pdev)(8 := put_bits 0 32 0 (M1 pdev 8)))"
  obtain s3 where 3: "store32 (pdev + 8) 0 s2 = Inr ((), s3)" "holds b (pd # xs) M2 s3"
    using holds_store32 [OF 2(2) dev, of 8 0] by (auto simp: runs_to_iff M2_def)
  obtain s4 where 4: "alloc_page s3 = Inr (pd, s4)" "holds b xs M2 s4" and pd: "own b xs pd"
    using holds_alloc [OF 3(2)] by (auto simp: runs_to_iff)
  define M3 where "M3 = M2(pd := (M2 pd)(0 := halves 128 4096))"
  have "runs_to (kthen (store32 pd 128) (kthen (store32 (pd + 4) 4096) (kret ()))) s4 (\<lambda>_. holds b xs M3)"
    by (rule runs_store_pair [OF 4(2) pd, of 0]) (auto simp: M3_def)
  then obtain s5 where 5: "kthen (store32 pd 128) (kthen (store32 (pd + 4) 4096) (kret ())) s4 = Inr ((), s5)" "holds b xs M3 s5"
    by (auto simp: runs_to_iff)
  define N where "N = M3(pd := (M3 pd)(8 := sym_ramdisk0_input ?E, 16 := sym_ramdisk0_output ?E), pdev := (M3 pdev)(16 := pd))"
  have "runs_to (kthen (store64 (pd + 8) (sym_ramdisk0_input ?E)) (kthen (store64 (pd + 16) (sym_ramdisk0_output ?E))
        (kthen (store64 (pdev + 16) pd) (kret ())))) s5 (\<lambda>_. holds b xs N)"
    by ((rule runs_store64 [OF _ pd] runs_store64 [OF _ ne(2)], (assumption | rule 5(2)), simp, simp)+, rule runs_to_kret)
       (use ne(1) in \<open>simp add: N_def\<close>)
  then obtain s6 where 6: "kthen (store64 (pd + 8) (sym_ramdisk0_input ?E)) (kthen (store64 (pd + 16) (sym_ramdisk0_output ?E))
        (kthen (store64 (pdev + 16) pd) (kret ()))) s5 = Inr ((), s6)" "holds b xs N s6"
    by (auto simp: runs_to_iff)
  have "dev_init_ramdisk0 s = Inr ((), s6\<lparr>vdev_list := v\<rparr>)"
    using 1 2(1) 3(1) 4(1) 5(1) 6 E v holds_eq [OF 6(2)]
    by (auto simp: dev_init_ramdisk0_def kdefs split: sum.splits)
  moreover have "N pdev 0 = sym_str_ramdisk0 ?E" "N pdev 16 = pd" "N pd 8 = sym_ramdisk0_input ?E" "N pd 16 = sym_ramdisk0_output ?E"
    using ne(1) by (simp_all add: N_def M3_def M2_def M1_def)
  ultimately show ?thesis using holds_vdev [OF 6(2)] ne pd by blast
qed

section \<open>Starting the file system\<close>

text \<open>The first entry of the device list is the RAM disk, with the file system \<open>fs\<close> mounted on it.\<close>

definition registered :: "kstate \<Rightarrow> u64 \<Rightarrow> u64 \<Rightarrow> bool" where
  "registered s pdev fs \<longleftrightarrow> page_ok s pdev \<and> (\<exists>ds. vdev_list s = pdev # ds) \<and>
     mem s (dev_name pdev) = sym_str_ramdisk0 (kenv s) \<and> mem s (dev_fs pdev) = fs"

lemma find_registered:
  assumes "page_ok s pdev" and "vdev_list s = pdev # ds" and "mem s (dev_name pdev) = a" and "literal s a cs"
  shows "find_dev (vdev_list s) 0 a s = Inr (pdev, s)"
  using load64_page [OF assms(1), of 0] strcmp_literal [OF assms(4)] assms(2, 3) by (simp add: kdefs)

lemma literal_cong: "mem_ok t = mem_ok s \<Longrightarrow> kenv t = kenv s \<Longrightarrow> literal t a cs = literal s a cs"
  by (induction cs arbitrary: a) (simp_all add: rom_def)

lemma disk_owned:
  assumes free: "free_pages s (rev (page_range p 128) @ ys)" and t: "page_ok t = page_ok s" "RAMDISK0_BASE_ADDR t = p"
  shows "own_disk t ys" and "x \<in> set ys \<Longrightarrow> outside_disk t x"
proof -
  have mem: "block_addr t j \<in> set (page_range p 128)" if "j < 128" for j
    using that t(2) by (auto simp: block_addr_def page_range_def)
  have "distinct (rev (page_range p 128) @ ys)" using free free_pages_distinct by blast
  then have "set (page_range p 128) \<inter> set ys = {}" by simp
  moreover have "\<forall>q \<in> set (page_range p 128). page_ok t q" using free t(1) by (simp add: free_pages_def)
  ultimately show "own_disk t ys" "x \<in> set ys \<Longrightarrow> outside_disk t x"
    using mem by (auto simp: own_disk_def own_def outside_disk_def)
qed

lemma rfs_init_mounts:
  assumes h: "holds b (fs # buf # fm # xs) M s" and d: "own_disk b (fs # buf # fm # xs)"
    and pd: "own b (fs # buf # fm # xs) pd" "own b (fs # buf # fm # xs) pdev" "pd \<noteq> pdev"
    and out: "\<forall>p \<in> {fs, pd, buf, fm, pdev}. outside_disk b p"
    and M: "M pdev 0 = sym_str_ramdisk0 (kenv b)" "M pdev 16 = pd"
    and dev: "M pd 8 = sym_ramdisk0_input (kenv b)" "M pd 16 = sym_ramdisk0_output (kenv b)"
      "sym_ramdisk0_output (kenv b) \<noteq> sym_ramdisk0_input (kenv b)"
    and v: "vdev_list b = pdev # ds"
    and lit: "literal b (sym_str_slash (kenv b)) [47]" "literal b (sym_str_ramdisk0 (kenv b)) cs"
  shows "\<exists>t. rfs_init s = Inr ((), t) \<and> mounted t xs fs pd buf \<and> formatted t \<and> registered t pdev fs \<and>
    mem_ok t = mem_ok b \<and> kenv t = kenv b"
proof -
  note eqs = holds_eq [OF h]
  have pdev: "page_ok b pdev" using pd(2) by (simp add: own_def)
  have "mem s pdev = M pdev 0" using holds_mem [OF h pdev, of 0] by simp
  then have "find_dev (vdev_list s) 0 (sym_str_ramdisk0 (kenv s)) s = Inr (pdev, s)"
    using find_registered [of s pdev ds] eqs pdev v M(1) lit(2) literal_cong [of s b] by simp
  moreover have "load64 (pdev + 16) s = Inr (pd, s)" "pdev \<noteq> 0"
    using holds_load64 [OF h pdev, of 16] M(2) pdev by (auto simp: runs_to_iff page_ok_def)
  moreover obtain N t where t: "rfs_do_mount pd (pdev + 24) s = Inr (0, t)" "holds b xs N t" "wired b xs N fs pd buf"
      "formatted_pages b N" "N fs 64 = sym_rfs_get_root (kenv b)" "N pdev = (M pdev)(24 := fs)"
    using rfs_do_mount_holds [OF h d pd out dev lit(1)] by (auto simp: runs_to_iff)
  ultimately have "rfs_init s = Inr ((), t)"
    by (simp add: rfs_init_def rfs_mount_def vfs_mount_def kdefs)
  moreover have "registered t pdev fs"
    using holds_eq [OF t(2)] holds_mem_0 [OF t(2) pdev] holds_mem [OF t(2) pdev, of 24] t(6) v M(1) pdev
    by (simp add: registered_def)
  ultimately show ?thesis using mountedI [OF t(2-5)] holds_eq [OF t(2)] by blast
qed

lemma fs_init_spec:
  assumes free: "free_pages s (rev (page_range p 128) @ pdev # pd # fs # buf # fm # xs)"
    and v: "vdev_list s \<noteq> []" and ne: "sym_ramdisk0_output (kenv s) \<noteq> sym_ramdisk0_input (kenv s)"
    and lit: "literal s (sym_str_slash (kenv s)) [47]" "literal s (sym_str_ramdisk0 (kenv s)) cs"
  shows "\<exists>t. fs_init s = Inr ((), t) \<and> mounted t xs fs pd buf \<and> formatted t \<and> registered t pdev fs \<and>
    mem_ok t = mem_ok s \<and> kenv t = kenv s"
proof -
  let ?ys = "fs # buf # fm # xs"
  obtain t where t: "init_ramdisk0 s = Inr ((), t)" "RAMDISK0_BASE_ADDR t = p" "free_pages t (pdev # pd # ?ys)"
      "page_ok t = page_ok s" "mem_ok t = mem_ok s" "kenv t = kenv s" "vdev_list t = vdev_list s"
    using ramdisk_pages [OF free] by blast
  let ?b = "t\<lparr>vdev_list := (vdev_list t)[RAMDISK0 := pdev]\<rparr>"
  have b: "own ?b = own t" "own_disk ?b = own_disk t" "outside_disk ?b = outside_disk t" "literal ?b = literal s" "kenv ?b = kenv s"
    using literal_cong [of ?b s] t(5, 6) by (simp_all add: own_def own_disk_def outside_disk_def block_addr_def fun_eq_iff)
  obtain u N where u: "dev_init_ramdisk0 t = Inr ((), u)" "holds ?b ?ys N u" "own t ?ys pdev" "own t ?ys pd" "pd \<noteq> pdev"
      "N pdev 0 = sym_str_ramdisk0 (kenv t)" "N pdev 16 = pd" "N pd 8 = sym_ramdisk0_input (kenv t)" "N pd 16 = sym_ramdisk0_output (kenv t)"
    using dev_init_ramdisk0_holds [OF holds_start [OF t(3)] refl] by blast
  note disk = disk_owned [OF free t(4, 2)]
  have "own_disk ?b ?ys" using disk(1) unfolding b by (simp add: own_disk_def own_def)
  moreover have "\<forall>q \<in> {fs, pd, buf, fm, pdev}. outside_disk ?b q" using disk(2) unfolding b by simp
  moreover obtain ds where "vdev_list ?b = pdev # ds" using v t(7) by (cases "vdev_list s") auto
  ultimately obtain w where "rfs_init u = Inr ((), w)" "mounted w xs fs pd buf" "formatted w" "registered w pdev fs"
      "mem_ok w = mem_ok ?b" "kenv w = kenv ?b"
    using rfs_init_mounts [OF u(2), of pd pdev ds cs] u t(6) ne lit b by (auto simp del: literal.simps)
  then show ?thesis using t(1, 5, 6) u(1) by (auto simp: fs_init_def dev_init_def kdefs)
qed

section \<open>Loading the root inode\<close>

lemma runs_copy_pair:
  assumes h: "holds b xs M s" and p: "own b xs p" "page_ok b q" "p \<noteq> q" and k: "unat k < 4096" "unat k mod 8 = 0"
    and M: "M q k = halves lo hi"
    and a: "pk = p + k" "qk = q + k" "pk' = p + (k + 4)" "qk' = q + (k + 4)"
    and n: "\<And>t. holds b xs (M(p := (M p)(k := halves lo hi))) t \<Longrightarrow> runs_to n t R"
  shows "runs_to (kthen (copy32 pk qk) (kthen (copy32 pk' qk') n)) s R"
proof -
  obtain j where j: "unat k = 8 * j" using k(2) by auto
  with k have k4: "unat (k + 4) = unat k + 4" by (simp add: unat_word_ariths)
  have d: "dword_of k = k" "bit_off k = 0" "dword_of (k + 4) = k" "bit_off (k + 4) = 32"
    using j k4 by (simp_all add: word_unat_eq_iff unat_dword_of bit_off_def mod_add_left_eq [symmetric, of "8 * j"])
  have k': "unat k mod 4 = 0" "unat (k + 4) mod 4 = 0" "unat (k + 4) < 4096" using j k4 k(1) by presburger+
  define L where "L = M(p := (M p)(k := put_bits 0 32 (ucast lo) (M p k)))"
  have l1: "load32 (q + k) s = Inr (lo, s)"
    using holds_load32 [OF h p(2) k(1) k'(1)] d M get_halves(1) [of lo hi] by (simp add: runs_to_iff)
  obtain t where t: "store32 (p + k) lo s = Inr ((), t)" "holds b xs L t"
    using holds_store32 [OF h p(1) k(1) k'(1), of lo] d by (auto simp: runs_to_iff L_def)
  have l2: "load32 (q + (k + 4)) t = Inr (hi, t)"
    using holds_load32 [OF t(2) p(2) k'(3, 2)] d M get_halves(2) [of lo hi] p(3) by (simp add: runs_to_iff L_def)
  have "runs_to (kthen (store32 (p + k) lo) (kthen (store32 (p + (k + 4)) hi) n)) s R"
    by (rule runs_store_pair [OF h p(1) k]) (simp_all add: n)
  with l1 l2 t show ?thesis by (simp add: a copy32_def runs_to_def wp_def kdefs)
qed

lemma copy_addrs_holds:
  assumes h: "holds b xs M s" and p: "own b xs p" "page_ok b q" "p \<noteq> q"
  shows "runs_to (kfor [0..<RFS_NDIRECT] (\<lambda>i. copy64 (di_addrs p i) (di_addrs q i))) s
    (\<lambda>_. holds b xs (M(p := \<lambda>k. if \<exists>i < RFS_NDIRECT. k = 16 + 8 * of_nat i then M q k else M p k)))"
proof (rule runs_to_kfor_upt [where J = "\<lambda>n. holds b xs (M(p := \<lambda>k. if \<exists>i < n. k = 16 + 8 * of_nat i then M q k else M p k))"])
  fix n t assume n: "n < RFS_NDIRECT" and t: "holds b xs (M(p := \<lambda>k. if \<exists>i < n. k = 16 + 8 * of_nat i then M q k else M p k)) t"
  let ?k = "16 + 8 * of_nat n :: u64"
  have k: "unat ?k < 4096" "unat ?k mod 8 = 0"
    using n by (simp_all add: unat_word_ariths unsigned_of_nat take_bit_nat_eq_self)
  have "(\<lambda>k. if \<exists>i < n. k = 16 + 8 * of_nat i then M q k else M p k)(?k := M q ?k) =
      (\<lambda>k. if \<exists>i < Suc n. k = 16 + 8 * of_nat i then M q k else M p k)"
    by (auto simp: fun_eq_iff less_Suc_eq)
  then show "runs_to (copy64 (di_addrs p n) (di_addrs q n)) t
      (\<lambda>_. holds b xs (M(p := \<lambda>k. if \<exists>i < Suc n. k = 16 + 8 * of_nat i then M q k else M p k)))"
    using holds_load64 [OF t p(2) k] holds_store64 [OF t p(1) k, of "M q ?k"] p(3)
    by (auto simp: copy64_def runs_to_iff kdefs)
qed (use h in \<open>simp_all add: fun_upd_idem\<close>)

text \<open>The inode \<open>nd\<close> in memory, as \<^verbatim>\<open>rfs_create_inode\<close> makes it from the words of a disk inode.\<close>

definition inode_at :: "(u64 \<Rightarrow> u64 \<Rightarrow> u64) \<Rightarrow> u64 \<Rightarrow> (u64 \<Rightarrow> u64) \<Rightarrow> u64 \<Rightarrow> i32 \<Rightarrow> u64 \<Rightarrow> bool" where
  "inode_at N nd D fs ino ops \<longleftrightarrow> N nd 0 = D 0 \<and> N nd 8 = D 8 \<and>
     (\<forall>i < RFS_NDIRECT. N nd (16 + 8 * of_nat i) = D (16 + 8 * of_nat i)) \<and>
     N nd 96 = halves RFS_TYPE ino \<and> ucast (get_bits 0 32 (N nd 104)) = (0 :: i32) \<and> N nd 112 = fs \<and> N nd 120 = ops"

lemma addr_offset_bound: "i < RFS_NDIRECT \<Longrightarrow> unat (16 + 8 * of_nat i :: u64) = 16 + 8 * i \<and> 16 + 8 * i < 96"
  by (simp add: unat_word_ariths unsigned_of_nat take_bit_nat_eq_self)

lemma copy_dinode_holds:
  assumes h: "holds b xs M s" and p: "own b xs p" "page_ok b q" "p \<noteq> q"
    and q: "M q 0 = halves sz ty" "M q 8 = halves nl bl"
    and n: "\<And>t N. holds b xs N t \<Longrightarrow> N p 0 = M q 0 \<Longrightarrow> N p 8 = M q 8 \<Longrightarrow>
      (\<forall>i < RFS_NDIRECT. N p (16 + 8 * of_nat i) = M q (16 + 8 * of_nat i)) \<Longrightarrow> (\<forall>k \<ge> 96. N p k = M p k) \<Longrightarrow>
      (\<forall>a. a \<noteq> p \<longrightarrow> N a = M a) \<Longrightarrow> runs_to n t R"
  shows "runs_to (kthen (copy32 (di_size p) (di_size q)) (kthen (copy32 (di_type p) (di_type q))
    (kthen (copy32 (di_nlinks p) (di_nlinks q)) (kthen (copy32 (di_blocks p) (di_blocks q))
    (kthen (kfor [0..<RFS_NDIRECT] (\<lambda>i. copy64 (di_addrs p i) (di_addrs q i))) n))))) s R"
proof -
  define M1 where "M1 = M(p := (M p)(0 := halves sz ty))"
  define M2 where "M2 = M1(p := (M1 p)(8 := halves nl bl))"
  define N where "N = M2(p := \<lambda>k. if \<exists>i < RFS_NDIRECT. k = 16 + 8 * of_nat i then M2 q k else M2 p k)"
  have off: "\<not> (\<exists>i < RFS_NDIRECT. k = 16 + 8 * of_nat i)" if "k < 16 \<or> 96 \<le> k" for k :: u64
    using that addr_offset_bound by (auto simp: word_less_nat_alt word_le_nat_alt)
  have "runs_to n t R" if "holds b xs N t" for t
  proof (rule n [OF that])
    show "N p 0 = M q 0" "N p 8 = M q 8" using off [of 0] off [of 8] by (simp_all add: N_def M2_def M1_def q)
    show "\<forall>i < RFS_NDIRECT. N p (16 + 8 * of_nat i) = M q (16 + 8 * of_nat i)" using p(3) by (auto simp: N_def M2_def M1_def)
    show "\<forall>k \<ge> 96. N p k = M p k" using off by (auto simp: N_def M2_def M1_def)
    show "\<forall>a. a \<noteq> p \<longrightarrow> N a = M a" by (simp add: N_def M2_def M1_def)
  qed
  then have "runs_to (kthen (kfor [0..<RFS_NDIRECT] (\<lambda>i. copy64 (di_addrs p i) (di_addrs q i))) n) t R" if "holds b xs M2 t" for t
    using copy_addrs_holds [OF that p] unfolding N_def by (rule runs_to_kthen [rotated])
  moreover have "M1 q 8 = halves nl bl" using q(2) p(3) by (simp add: M1_def)
  ultimately show ?thesis
    by (intro runs_copy_pair [OF h p, of 0] runs_copy_pair [OF _ p, of M1 _ 8]) (simp_all add: q M1_def M2_def)
qed

lemma inode_header_holds:
  assumes h: "holds b xs M s" and p: "own b xs p" and z: "M p 96 = put_bits 0 32 0 w" and ty: "M p 0 = halves sz T_DIR"
  shows "\<exists>t N. kthen (store32 (in_num p) ino) (kthen (store32 (in_ref p) 0) (kthen (store64 (in_fs p) fs)
      (kbind (load32 (di_type p)) (\<lambda>ty. kbind (rfs_get_ops ty) (\<lambda>ops. kthen (store64 (in_ops p) ops) (kret (0 :: int, p)))))))
      s = Inr ((0, p), t) \<and> holds b xs N t \<and> (\<forall>a. a \<noteq> p \<longrightarrow> N a = M a) \<and> (\<forall>k < 96. N p k = M p k) \<and>
    N p 96 = halves 0 ino \<and> ucast (get_bits 0 32 (N p 104)) = (0 :: i32) \<and> N p 112 = fs \<and>
    N p 120 = sym_rfs_node_dirops (kenv b)"
proof -
  have pok: "page_ok b p" using p by (simp add: own_def)
  define M1 where "M1 = M(p := (M p)(96 := halves 0 ino))"
  obtain s1 where 1: "store32 (p + 100) ino s = Inr ((), s1)" "holds b xs M1 s1"
    using holds_store32 [OF h p, of 100 ino] z put_halves [of ino 0 w] by (auto simp: runs_to_iff M1_def)
  define M2 where "M2 = M1(p := (M1 p)(104 := put_bits 0 32 0 (M1 p 104)))"
  obtain s2 where 2: "store32 (p + 104) 0 s1 = Inr ((), s2)" "holds b xs M2 s2"
    using holds_store32 [OF 1(2) p, of 104 0] by (auto simp: runs_to_iff M2_def)
  define M3 where "M3 = M2(p := (M2 p)(112 := fs))"
  obtain s3 where 3: "store64 (p + 112) fs s2 = Inr ((), s3)" "holds b xs M3 s3"
    using holds_store64 [OF 2(2) p, of 112 fs] by (auto simp: runs_to_iff M3_def)
  have "M3 p 0 = halves sz T_DIR" using ty by (simp add: M3_def M2_def M1_def)
  then have ld: "load32 (p + 4) s3 = Inr (T_DIR, s3)"
    using holds_load32 [OF 3(2) pok, of 4] get_halves(2) [of sz T_DIR] by (simp add: runs_to_iff)
  define N where "N = M3(p := (M3 p)(120 := sym_rfs_node_dirops (kenv b)))"
  obtain t where t: "store64 (p + 120) (sym_rfs_node_dirops (kenv b)) s3 = Inr ((), t)" "holds b xs N t"
    using holds_store64 [OF 3(2) p, of 120] by (auto simp: runs_to_iff N_def)
  have "kthen (store32 (in_num p) ino) (kthen (store32 (in_ref p) 0) (kthen (store64 (in_fs p) fs)
      (kbind (load32 (di_type p)) (\<lambda>ty. kbind (rfs_get_ops ty) (\<lambda>ops. kthen (store64 (in_ops p) ops) (kret (0 :: int, p))))))) s =
      Inr ((0, p), t)"
    using 1(1) 2(1) 3(1) ld t(1) holds_eq [OF 3(2)] by (simp add: kdefs rfs_get_ops_def)
  moreover have "\<forall>k < 96. N p k = M p k" by (auto simp: N_def M3_def M2_def M1_def)
  moreover have "ucast (get_bits 0 32 (N p 104)) = (0 :: i32)"
    by (simp add: N_def M3_def M2_def get_put_bits_same)
  moreover have "\<forall>a. a \<noteq> p \<longrightarrow> N a = M a" "N p 96 = halves 0 ino" "N p 112 = fs" "N p 120 = sym_rfs_node_dirops (kenv b)"
    by (simp_all add: N_def M3_def M2_def M1_def)
  ultimately show ?thesis using t(2) by blast
qed

lemma rfs_create_inode_holds:
  assumes h: "holds b (nd # xs) M s" and q: "page_ok b q" "q \<noteq> nd"
    and D: "M q 0 = halves sz T_DIR" "M q 8 = halves nl bl"
  shows "\<exists>t N. rfs_create_inode fs q ino s = Inr ((0, nd), t) \<and> holds b xs N t \<and> own b xs nd \<and>
    inode_at N nd (M q) fs ino (sym_rfs_node_dirops (kenv b)) \<and> (\<forall>a. a \<noteq> nd \<longrightarrow> N a = M a)"
proof -
  obtain s1 where 1: "alloc_page s = Inr (nd, s1)" "holds b xs M s1" and nd: "own b xs nd"
    using holds_alloc [OF h] by (auto simp: runs_to_iff)
  define M1 where "M1 = M(nd := (M nd)(96 := put_bits 0 32 0 (M nd 96)))"
  obtain s2 where 2: "store32 (nd + 96) 0 s1 = Inr ((), s2)" "holds b xs M1 s2"
    using holds_store32 [OF 1(2) nd, of 96 0] by (auto simp: runs_to_iff M1_def)
  have M1: "M1 q = M q" using q(2) by (simp add: M1_def)
  let ?hdr = "kthen (store32 (in_num nd) ino) (kthen (store32 (in_ref nd) 0) (kthen (store64 (in_fs nd) fs)
      (kbind (load32 (di_type nd)) (\<lambda>ty. kbind (rfs_get_ops ty) (\<lambda>ops. kthen (store64 (in_ops nd) ops) (kret (0 :: int, nd)))))))"
  let ?Q = "\<lambda>r t. r = (0, nd) \<and> (\<exists>N. holds b xs N t \<and> inode_at N nd (M q) fs ino (sym_rfs_node_dirops (kenv b)) \<and>
      (\<forall>a. a \<noteq> nd \<longrightarrow> N a = M a))"
  have "runs_to (kthen (copy32 (di_size nd) (di_size q)) (kthen (copy32 (di_type nd) (di_type q))
    (kthen (copy32 (di_nlinks nd) (di_nlinks q)) (kthen (copy32 (di_blocks nd) (di_blocks q))
    (kthen (kfor [0..<RFS_NDIRECT] (\<lambda>i. copy64 (di_addrs nd i) (di_addrs q i))) ?hdr))))) s2 ?Q"
  proof (rule copy_dinode_holds [OF 2(2) nd q(1) q(2) [symmetric]])
    fix t N assume t: "holds b xs N t" and N: "N nd 0 = M1 q 0" "N nd 8 = M1 q 8"
        "\<forall>i < RFS_NDIRECT. N nd (16 + 8 * of_nat i) = M1 q (16 + 8 * of_nat i)" "\<forall>k \<ge> 96. N nd k = M1 nd k" "\<forall>a. a \<noteq> nd \<longrightarrow> N a = M1 a"
    have "N nd 96 = put_bits 0 32 0 (M nd 96)" using N(4) by (simp add: M1_def)
    from inode_header_holds [OF t nd this, of sz ino fs] obtain u L where u: "?hdr t = Inr ((0, nd), u)" "holds b xs L u"
        "\<forall>a. a \<noteq> nd \<longrightarrow> L a = N a" "\<forall>k < 96. L nd k = N nd k" "L nd 96 = halves 0 ino"
        "ucast (get_bits 0 32 (L nd 104)) = (0 :: i32)" "L nd 112 = fs" "L nd 120 = sym_rfs_node_dirops (kenv b)"
      using N(1) M1 D by auto
    have "L nd (16 + 8 * of_nat i) = M q (16 + 8 * of_nat i)" if "i < RFS_NDIRECT" for i
      using u(4) N(3) M1 that addr_offset_bound [OF that] by (simp add: word_less_nat_alt)
    then have "inode_at L nd (M q) fs ino (sym_rfs_node_dirops (kenv b))"
      using u N M1 by (simp add: inode_at_def)
    then show "runs_to ?hdr t ?Q" using u N(5) by (auto simp: runs_to_iff M1_def)
  qed (use D M1 in simp_all)
  then show ?thesis
    using 1(1) 2(1) nd by (auto simp: rfs_create_inode_def alloc_inode_def kdefs runs_to_iff)
qed

text \<open>The root directory as an inode in memory.\<close>

definition root_inode :: "kstate \<Rightarrow> u64 \<Rightarrow> u64 \<Rightarrow> bool" where
  "root_inode t nd fs \<longleftrightarrow>
     load32 (di_size nd) t = Inr (32, t) \<and> load32 (di_type nd) t = Inr (T_DIR, t) \<and>
     load32 (di_nlinks nd) t = Inr (1, t) \<and> load32 (di_blocks nd) t = Inr (1, t) \<and>
     load64 (di_addrs nd 0) t = Inr (scast RFS_BLKN_FREE, t) \<and>
     (\<forall>i. 0 < i \<longrightarrow> i < RFS_NDIRECT \<longrightarrow> load64 (di_addrs nd i) t = Inr (0, t)) \<and>
     load32 (in_num nd) t = Inr (RFS_BLKN_INODE, t) \<and> load32 (in_ref nd) t = Inr (0, t) \<and>
     load64 (in_fs nd) t = Inr (fs, t) \<and> load64 (in_ops nd) t = Inr (sym_rfs_node_dirops (kenv t), t)"

lemma root_inodeI:
  assumes h: "holds b xs N t" and nd: "page_ok b nd" and i: "inode_at N nd D fs 1 (sym_rfs_node_dirops (kenv b))"
    and D: "\<And>k. unat k < 4096 \<Longrightarrow> unat k mod 8 = 0 \<Longrightarrow> D k = root_inode_page k"
  shows "root_inode t nd fs"
proof -
  have w: "N nd 0 = halves 32 2" "N nd 8 = halves 1 1" "N nd 96 = halves 0 1" "N nd 112 = fs"
      "N nd 120 = sym_rfs_node_dirops (kenv t)" "ucast (get_bits 0 32 (N nd 104)) = (0 :: i32)"
    using i D [of 0] D [of 8] holds_eq [OF h] by (simp_all add: inode_at_def pages_eval)
  have a: "load64 (nd + (16 + 8 * of_nat j)) t = Inr (if j = 0 then 12 else 0, t)" if "j < 10" for j
  proof -
    have o: "unat (16 + 8 * of_nat j :: u64) = 16 + 8 * j" "16 + 8 * j < 96" using addr_offset_bound [of j] that by simp_all
    then have "D (16 + 8 * of_nat j) = (if j = 0 then 12 else 0)"
      using D [of "16 + 8 * of_nat j"] by (auto simp: pages_eval word_unat_eq_iff)
    moreover have "N nd (16 + 8 * of_nat j) = D (16 + 8 * of_nat j)" using i that by (simp add: inode_at_def)
    ultimately show ?thesis using holds_load64 [OF h nd, of "16 + 8 * of_nat j"] o by (simp add: runs_to_iff)
  qed
  have ld: "load32 (nd + k) t = Inr (ucast (get_bits (bit_off k) 32 (N nd (dword_of k))), t)"
    if "unat k < 4096" "unat k mod 4 = 0" for k
    using holds_load32 [OF h nd that] by (simp add: runs_to_iff)
  have "load32 (nd + 0) t = Inr (32, t)" "load32 (nd + 4) t = Inr (2, t)" "load32 (nd + 8) t = Inr (1, t)"
      "load32 (nd + 12) t = Inr (1, t)" "load32 (nd + 100) t = Inr (1, t)" "load32 (nd + 104) t = Inr (0, t)"
    by (subst ld; simp add: w get_halves)+
  moreover have "load64 (nd + 112) t = Inr (fs, t)" "load64 (nd + 120) t = Inr (sym_rfs_node_dirops (kenv t), t)"
    using holds_load64 [OF h nd, of 112] holds_load64 [OF h nd, of 120] w by (simp_all add: runs_to_iff)
  ultimately show ?thesis using a [of 0] a by (simp add: root_inode_def)
qed

lemma get_root_holds:
  assumes m: "mounted s (nd # xs) fs pd buf" and f: "formatted s" and r: "registered s pdev fs"
    and lit: "literal s (sym_str_ramdisk0 (kenv s)) cs"
  shows "\<exists>t N. vfs_get_root (sym_str_ramdisk0 (kenv s)) s = Inr ((0, nd), t) \<and> holds s xs N t \<and> root_inode t nd fs \<and>
    (\<forall>p. p \<notin> {buf, nd} \<longrightarrow> N p = page_words s p)"
proof -
  let ?M = "page_words s" and ?B = "page_words s (block_addr s 1)"
  have h: "holds s (nd # xs) ?M s" using m by (simp add: mounted_def holds_def page_words_def)
  have w: "wired s (nd # xs) ?M fs pd buf" using m by (simp add: mounted_def)
  note p = wired_pages [OF w]
  have B: "?B k = root_inode_page k" if "unat k < 4096" "unat k mod 8 = 0" for k
    using f that by (simp add: formatted_def disk_block_def page_words_def pages_eval)
  obtain s1 where 1: "rfs_r1block fs 1 s = Inr (0, s1)" "holds s (nd # xs) (?M(buf := ?B)) s1"
    using holds_r1block [OF h w, of 1] by (auto simp: runs_to_iff)
  have "buf \<noteq> nd" "?M fs 40 = buf" using w p(3) by (auto simp: wired_def own_def)
  then have lb: "load64 (fs + 40) s1 = Inr (buf, s1)" using holds_load64 [OF 1(2) p(4), of 40] p(9) by (simp add: runs_to_iff)
  obtain t N where t: "rfs_create_inode fs buf 1 s1 = Inr ((0, nd), t)" "holds s xs N t" "own s xs nd"
      "inode_at N nd ?B fs 1 (sym_rfs_node_dirops (kenv s))" "\<forall>a. a \<noteq> nd \<longrightarrow> N a = (?M(buf := ?B)) a"
    using rfs_create_inode_holds [OF 1(2) p(6) \<open>buf \<noteq> nd\<close>, of 32 1 1 fs 1] B [of 0] B [of 8] by (auto simp: pages_eval)
  have root: "rfs_get_root fs s = Inr (nd, t)"
    using 1(1) lb t(1) by (simp add: rfs_get_root_def rfs_load_dinode_def kdefs)
  have nd: "page_ok s nd" "nd \<noteq> 0" using t(3) by (auto simp: own_def page_ok_def)
  obtain ds where dev: "page_ok s pdev" "vdev_list s = pdev # ds" "mem s (dev_name pdev) = sym_str_ramdisk0 (kenv s)" "mem s (pdev + 24) = fs"
    using r by (auto simp: registered_def)
  have "pdev \<noteq> 0" "load64 (pdev + 24) s = Inr (fs, s)" "load64 (fs + 64) s = Inr (sym_rfs_get_root (kenv s), s)"
    using load64_page [OF dev(1), of 24] load64_page [OF p(4), of 64] dev(4) m dev(1) by (simp_all add: mounted_def page_ok_def)
  then have "vfs_get_root (sym_str_ramdisk0 (kenv s)) s = Inr ((0, nd), t)"
    using find_registered [OF dev(1-3) lit] root nd(2) by (simp add: vfs_get_root_def fsop_get_root_def kdefs)
  moreover have "root_inode t nd fs" using t(2) nd(1) t(4) B by (rule root_inodeI)
  moreover have "\<forall>p. p \<notin> {buf, nd} \<longrightarrow> N p = ?M p" using t(5) by simp
  ultimately show ?thesis using t(2) by blast
qed

section \<open>Looking up a file\<close>

text \<open>A byte of a string literal, or of a page outside \<open>P\<close>.\<close>

definition byte_outside :: "kstate \<Rightarrow> u64 set \<Rightarrow> u64 \<Rightarrow> u8 \<Rightarrow> bool" where
  "byte_outside s P a c \<longleftrightarrow> rom s a c \<or> page_ok s (page_of a) \<and> page_of a \<notin> P \<and> load8 a s = Inr (c, s)"

lemma byte_outside_load:
  assumes h: "holds s xs N t" and N: "\<forall>p. p \<notin> P \<longrightarrow> N p = page_words s p" and a: "byte_outside s P a c"
  shows "load8 a t = Inr (c, t)"
proof (cases "rom s a c")
  case True
  then show ?thesis using holds_eq [OF h] by (intro load8_rom) auto
next
  case False
  let ?p = "page_of a" and ?k = "a - page_of a"
  have p: "page_ok s ?p" "?p \<notin> P" "load8 a s = Inr (c, s)" using a False by (simp_all add: byte_outside_def)
  have "unat ?k < 4096" by (simp add: unat_sub_if' unat_page_of minus_div_mult_eq_mod word_le_nat_alt)
  then have k: "dword_of a = ?p + dword_of ?k" "unat (dword_of ?k) < 4096" "unat (dword_of ?k) mod 8 = 0" "mem_ok s a"
    using dword_of_off(1) [OF p(1), of ?k] dword_of_offset [of ?k] page_off_mem_ok [OF p(1), of ?k] by simp_all
  then have "mem t (dword_of a) = mem s (dword_of a)"
    using holds_mem [OF h p(1) k(2, 3)] N p(2) by (simp add: page_words_def)
  then show ?thesis using p(3) k(4) holds_eq [OF h] by (simp add: load8_eq get_at_def)
qed

lemma lookup_root_wild:
  assumes r: "root_inode t nd fs" and w: "\<not> mem_ok t (scast RFS_BLKN_FREE)"
    and c: "load8 path t = Inr (47, t)" "load8 (path + 1) t = Inr (c, t)" "c \<noteq> 0"
  shows "vop_lookup nd path t = Inl (Wild (scast RFS_BLKN_FREE))"
proof -
  have e: "nat (sint (dir_entries 32 0)) = 1" by (simp add: dir_entries_def word_sless_alt)
  have "load32 (12 :: u64) t = Inl (Wild 12)" using w by (simp add: load32_eq aligned_def bad_access_def)
  then have "rfs_lookup nd path t = Inl (Wild 12)"
    using r c e by (simp add: rfs_lookup_def root_inode_def lookup_entry_def kdefs)
  then show ?thesis using r by (simp add: vop_lookup_def load_op_def root_inode_def ops_at_def rfs_node_dirops_def kdefs)
qed

section \<open>The properties\<close>

text \<open>
  C18: \<^verbatim>\<open>fs_init\<close> makes a formatted file system. From a free list that starts with 128 contiguous
  pages it builds the RAM disk, registers it as the first device and mounts a file system on
  it: superblock, nine free inodes, bitmap, the inode of the root directory and its block are
  written to their blocks, and the structures that lead to them are in place.
\<close>

theorem fs_init_formats:
  assumes "free_pages s (rev (page_range p 128) @ pdev # pd # fs # buf # fm # xs)"
    and "vdev_list s \<noteq> []" and "sym_ramdisk0_output (kenv s) \<noteq> sym_ramdisk0_input (kenv s)"
    and "literal s (sym_str_slash (kenv s)) [47]" and "literal s (sym_str_ramdisk0 (kenv s)) cs"
  shows "\<exists>t. fs_init s = Inr ((), t) \<and> mounted t xs fs pd buf \<and> formatted t \<and> registered t pdev fs"
  using fs_init_spec [OF assms] by blast

text \<open>
  C19: the root directory is read back as it was written: on a mounted and formatted disk
  \<^verbatim>\<open>vfs_get_root\<close> returns a new inode, in a page that was free, whose size, type, links and blocks
  are those \<^verbatim>\<open>rfs_do_mount\<close> wrote, with the operations of directories. Its number is that of the
  block it was read from, 1, although the comment where it is built calls it inode 0; and its
  reference count is 0, although \<^verbatim>\<open>vfs.h\<close> asks \<^verbatim>\<open>fs_get_root\<close> to increment it.
\<close>

theorem root_inode_loaded:
  assumes "mounted s (nd # xs) fs pd buf" and "formatted s" and "registered s pdev fs"
    and "literal s (sym_str_ramdisk0 (kenv s)) cs"
  shows "\<exists>t. vfs_get_root (sym_str_ramdisk0 (kenv s)) s = Inr ((0, nd), t) \<and> root_inode t nd fs"
  using get_root_holds [OF assms] by blast

text \<open>
  C20: no file of the RAM disk is found. The search for a path of a slash and a name in the root
  directory of a mounted disk takes the number of the directory's block for its address and, where
  there is no memory at so low an address, faults at the first access to it, whatever the name is.
\<close>

theorem ram_lookup_traps:
  assumes "mounted s (nd # xs) fs pd buf" and "formatted s" and "registered s pdev fs"
    and "literal s (sym_str_ramdisk0 (kenv s)) cs" and "\<not> mem_ok s (scast RFS_BLKN_FREE)"
    and "byte_outside s {buf, nd} path 47" and "byte_outside s {buf, nd} (path + 1) c" and "c \<noteq> 0"
  shows "kbind (vfs_get_root (sym_str_ramdisk0 (kenv s))) (\<lambda>(ret, dir). vop_lookup dir path) s =
    Inl (Wild (scast RFS_BLKN_FREE))"
proof -
  obtain t N where t: "vfs_get_root (sym_str_ramdisk0 (kenv s)) s = Inr ((0, nd), t)" "holds s xs N t"
      "root_inode t nd fs" "\<forall>p. p \<notin> {buf, nd} \<longrightarrow> N p = page_words s p"
    using get_root_holds [OF assms(1-4)] by blast
  have "vop_lookup nd path t = Inl (Wild (scast RFS_BLKN_FREE))"
    using lookup_root_wild [OF t(3) _ byte_outside_load [OF t(2, 4) assms(6)] byte_outside_load [OF t(2, 4) assms(7)] assms(8)]
      assms(5) holds_eq [OF t(2)] by simp
  with t(1) show ?thesis by (simp add: kbind_eq)
qed

section \<open>Examples\<close>

definition mount_env :: kenv where
  "mount_env = sample_env\<lparr>rodata := map_of (zip (map (\<lambda>i. 0x80007000 + of_nat i) [0..<9] @ [0x80007010, 0x80007011, 0x80007018, 0x80007019])
     ([114, 97, 109, 100, 105, 115, 107, 48, 0] @ [47, 0, 47, 97]))\<rparr>"

lemma mount_rom:
  assumes "free_mem_start_addr s = 0x8001c000" and "kenv s = mount_env"
  shows "literal s 0x80007000 [114, 97, 109, 100, 105, 115, 107, 48]" "literal s 0x80007010 [47]"
    "rom s 0x80007018 47" "rom s 0x80007019 97" "\<not> mem_ok s 12"
  using assms by (simp_all add: rom_def mem_ok_def mount_env_def sample_env_def upt_rec)

lemma mount_start:
  "\<exists>s. kenv s = mount_env \<and> vdev_list s = replicate 10 0 \<and> free_mem_start_addr s = 0x8001c000 \<and>
    free_pages s (rev (page_range 0x80022000 128) @ 0x80021000 # 0x80020000 # 0x8001f000 # 0x8001e000 # 0x8001d000 # [0x8001c000])"
proof -
  let ?i = "initial_kstate mount_env 0xa3000 (\<lambda>_. 0)"
  have r: "ROUNDUP 0x8001c000 PGSIZE = 0x8001c000" by (simp add: ROUNDUP_def)
  then have "usable_pages 0x8001c000 0xa3000 = 6 + 128" by (simp add: usable_pages_def MIN_u64_def)
  then have "\<exists>s. kenv s = mount_env \<and> free_mem_start_addr s = 0x8001c000 \<and> free_pages s (rev (page_range 0x8001c000 (6 + 128)))"
    using pmm_init_builds [of ?i] r
    by (auto simp: runs_to_iff initial_kstate_def mount_env_def sample_env_def MIN_u64_def)
  then obtain s where s: "kenv s = mount_env" "free_mem_start_addr s = 0x8001c000"
      "free_pages s (rev (page_range 0x80022000 128) @ rev (page_range 0x8001c000 6))"
    unfolding page_range_append by auto
  have "page_range 0x8001c000 6 = [0x8001c000, 0x8001d000, 0x8001e000, 0x8001f000, 0x80020000, 0x80021000]"
    by (simp add: page_range_def upt_rec)
  with s show ?thesis by (intro exI [of _ "s\<lparr>vdev_list := replicate 10 0\<rparr>"]) (simp add: free_pages_def)
qed

lemmas mount_symbols = mount_env_def sample_env_def

theorem fs_init_formats_witness:
  "\<exists>s t. fs_init s = Inr ((), t) \<and> mounted t [0x8001c000] 0x8001f000 0x80020000 0x8001e000 \<and> formatted t \<and>
    registered t 0x80021000 0x8001f000"
proof -
  obtain s where s: "kenv s = mount_env" "vdev_list s = replicate 10 0" "free_mem_start_addr s = 0x8001c000"
    "free_pages s (rev (page_range 0x80022000 128) @ 0x80021000 # 0x80020000 # 0x8001f000 # 0x8001e000 # 0x8001d000 # [0x8001c000])"
    using mount_start by blast
  show ?thesis
    using fs_init_formats [OF s(4), of "[114, 97, 109, 100, 105, 115, 107, 48]"] s(1, 2) mount_rom [OF s(3, 1)]
    by (auto simp: mount_symbols simp del: literal.simps)
qed

lemma mounted_start:
  "\<exists>t. mounted t (0x8001c000 # []) 0x8001f000 0x80020000 0x8001e000 \<and> formatted t \<and> registered t 0x80021000 0x8001f000 \<and>
    literal t (sym_str_ramdisk0 (kenv t)) [114, 97, 109, 100, 105, 115, 107, 48] \<and> \<not> mem_ok t 12 \<and>
    rom t 0x80007018 47 \<and> rom t 0x80007019 97"
proof -
  obtain s where s: "kenv s = mount_env" "vdev_list s = replicate 10 0" "free_mem_start_addr s = 0x8001c000"
    "free_pages s (rev (page_range 0x80022000 128) @ 0x80021000 # 0x80020000 # 0x8001f000 # 0x8001e000 # 0x8001d000 # [0x8001c000])"
    using mount_start by blast
  note lit = mount_rom [OF s(3, 1)]
  have sym: "sym_str_slash mount_env = 0x80007010" "sym_str_ramdisk0 mount_env = 0x80007000"
    "sym_ramdisk0_output mount_env \<noteq> sym_ramdisk0_input mount_env" by (simp_all add: mount_symbols)
  obtain t where t: "mounted t [0x8001c000] 0x8001f000 0x80020000 0x8001e000" "formatted t" "registered t 0x80021000 0x8001f000"
      "mem_ok t = mem_ok s" "kenv t = kenv s"
    using fs_init_spec [OF s(4), of "[114, 97, 109, 100, 105, 115, 107, 48]"] s(1, 2) lit sym by (auto simp del: literal.simps)
  then show ?thesis
    using lit literal_cong [OF t(4, 5)] sym s(1) by (auto simp: rom_def simp del: literal.simps)
qed

theorem root_inode_loaded_witness:
  "\<exists>s t. formatted s \<and> vfs_get_root (sym_str_ramdisk0 (kenv s)) s = Inr ((0, 0x8001c000), t) \<and> root_inode t 0x8001c000 0x8001f000"
  using mounted_start root_inode_loaded by meson

theorem ram_lookup_traps_witness:
  "\<exists>s. formatted s \<and> kbind (vfs_get_root (sym_str_ramdisk0 (kenv s))) (\<lambda>(ret, dir). vop_lookup dir 0x80007018) s = Inl (Wild 12)"
proof -
  obtain s where s: "mounted s (0x8001c000 # []) 0x8001f000 0x80020000 0x8001e000" "formatted s" "registered s 0x80021000 0x8001f000"
    "literal s (sym_str_ramdisk0 (kenv s)) [114, 97, 109, 100, 105, 115, 107, 48]" "\<not> mem_ok s 12"
    "rom s 0x80007018 47" "rom s 0x80007019 97" using mounted_start by blast
  then show ?thesis
    using ram_lookup_traps [OF s(1-4), of "0x80007018" 97] by (auto simp: byte_outside_def)
qed

end
