(* ===== verification/PKE_Umem.thy ===== *)
theory PKE_Umem
  imports PKE_Strap
begin

text \<open>
  The memory a program gets while it runs: the page of \<^verbatim>\<open>sys_user_allocate_page\<close>, the page the
  handler of a store page fault maps, and what \<^verbatim>\<open>sys_user_read\<close> and \<^verbatim>\<open>sys_user_write\<close> do with the
  program's buffer.
\<close>

section \<open>Mapping a page that was free\<close>

lemma npages_1: "aligned 4096 va \<Longrightarrow> unat va + 4096 \<le> 0x4000000000 \<Longrightarrow> npages va 4096 = 1"
proof -
  assume a: "aligned 4096 va" and b: "unat va + 4096 \<le> 0x4000000000"
  then obtain n where n: "unat va = 4096 * n" by (auto simp: aligned_def mod_eq_0_iff_dvd)
  have "unat (va + 4096 - 1) = unat va + 4096 - 1" using b unat_last_byte [of 4096 va] by simp
  also have "\<dots> div 4096 = n" using n by (simp add: div_nat_eqI)
  finally show ?thesis using n by (simp add: npages_def vpn_0)
qed

lemma page_of_iff_vpn: "aligned 4096 va \<Longrightarrow> page_of vb = va \<longleftrightarrow> vpn 0 vb = vpn 0 va"
  by (auto simp: vpn_0 word_unat_eq_iff unat_page_of aligned_def)

lemma walk_cost_1: "walk_cost m root va (vpn 0 va + 1) = need m root va"
  by (simp add: walk_cost_def vpn_def div_mult2_eq [symmetric])

lemma map_fresh_page:
  assumes ok: "pt_ok s root xs" and va: "aligned 4096 va" "unat va + 4096 \<le> 0x4000000000"
    and need: "need (mem s) root va \<le> length xs" and new: "vmap (mem s) root va = None"
    and x: "page_ok s x" and perm: "leaf_perm perm"
  shows "\<exists>t. user_vm_map root va 4096 x perm s = Inr ((), t) \<and> mem_erase t = mem_erase s \<and>
    (\<forall>vb. unat vb < 0x4000000000 \<longrightarrow> user_va_to_pa root vb t =
      (if page_of vb = va then Inr (x + (vb - va), t)
       else Inr (case user_va_to_pa root vb s of Inr (p, _) \<Rightarrow> p, t)))"
proof -
  have n: "npages va 4096 = 1" "vpn 0 va + npages va 4096 = Suc (vpn 0 va)" using npages_1 [OF va] by simp_all
  have free: "vmap (mem s) root vb = None" if "vpn 0 va \<le> vpn 0 vb" "vpn 0 vb < vpn 0 va + npages va 4096" for vb
    using that new vmap_vpn [of vb va] n by simp
  obtain t k where t: "map_pages root va 4096 x perm s = Inr (0, t)"
      and r: "remapped root xs s k (map_range (vmap (mem s) root) va 1 x perm) t"
    using map_pages_spec [OF ok, of 4096 va x perm] va need free n walk_cost_1 [of "mem s" root va] by auto
  have tab: "tables_ok (page_ok s) (mem s) root" "tables_ok (page_ok t) (mem t) root"
    using ok r by (simp_all add: pt_ok_def remapped_def)
  have "user_va_to_pa root vb t = (if page_of vb = va then Inr (x + (vb - va), t)
       else Inr (case user_va_to_pa root vb s of Inr (p, _) \<Rightarrow> p, t))" if vb: "unat vb < 0x4000000000" for vb
  proof (cases "page_of vb = va")
    case True
    then have eq: "vpn 0 vb = vpn 0 va" using page_of_iff_vpn [OF va(1)] by simp
    have pa: "aligned 4096 x" "0 < unat x" "unat x + 4096 * 1 \<le> 0x8000000000000000"
      using x by (auto simp: page_ok_def unat_gt_0)
    obtain e where "vmap (mem t) root vb = Some e" "PTE2PA e + (vb AND 4095) = x + (vb - page_of va)"
        "PTE2PA e \<noteq> 0" "\<not> (e AND PTE_R = 0 \<and> e AND PTE_W = 0)"
      using map_range_leaf [OF pa perm, of va vb "vmap (mem s) root"] r vb eq by (auto simp: remapped_def)
    moreover have "page_of va = va" using page_of_iff_vpn [OF va(1), of va] by simp
    ultimately show ?thesis using True user_va_to_pa_eq [OF tab(2) vb] by auto
  next
    case False
    then have "vmap (mem t) root vb = vmap (mem s) root vb"
      using r vb page_of_iff_vpn [OF va(1), of vb] by (auto simp: remapped_def map_range_def)
    with False show ?thesis
      using user_va_to_pa_eq [OF tab(2) vb] user_va_to_pa_eq [OF tab(1) vb] by auto
  qed
  moreover have "mem_erase t = mem_erase s" using r by (simp add: remapped_def grows_def)
  ultimately show ?thesis using t runs_user_vm_map by blast
qed

text \<open>Taking the page from the free list first.\<close>

lemma pt_ok_taken:
  assumes "pt_ok s root (x # xs)"
  shows "pt_ok (bump_mem_count 1 (s\<lparr>g_free_mem_list := mem s x\<rparr>)) root xs" and "page_ok s x"
  using assms free_pages_alloc [of s x xs] page_ok_cong [of "bump_mem_count 1 (s\<lparr>g_free_mem_list := mem s x\<rparr>)" s]
  by (auto simp: pt_ok_def free_pages_def)

lemma translate_same:
  assumes "tables_ok (page_ok s) (mem s) root" and "mem t = mem s" and "page_ok t = page_ok s" and "unat vb < 0x4000000000"
  shows "(case user_va_to_pa root vb t of Inr (p, _) \<Rightarrow> p) = (case user_va_to_pa root vb s of Inr (p, _) \<Rightarrow> p)"
  using user_va_to_pa_eq [OF assms(1, 4)] user_va_to_pa_eq [of t root vb] assms by simp

definition gets_page :: "kstate \<Rightarrow> u64 \<Rightarrow> u64 \<Rightarrow> u64 \<Rightarrow> kstate \<Rightarrow> bool" where
  "gets_page s root va x t \<longleftrightarrow> (\<forall>vb. unat vb < 0x4000000000 \<longrightarrow> user_va_to_pa root vb t =
     (if page_of vb = va then Inr (x + (vb - va), t)
      else Inr (case user_va_to_pa root vb s of Inr (p, _) \<Rightarrow> p, t)))"

lemma map_taken_page:
  assumes ok: "pt_ok s root (x # xs)" and va: "aligned 4096 va" "unat va + 4096 \<le> 0x4000000000"
    and need: "need (mem s) root va \<le> length xs" and new: "vmap (mem s) root va = None"
  shows "\<exists>t. user_vm_map root va 4096 x (prot_to_type (PROT_WRITE OR PROT_READ) 1)
      ((bump_mem_count 1 (s\<lparr>g_free_mem_list := mem s x\<rparr>))\<lparr>g_ufree_page := u\<rparr>) = Inr ((), t) \<and>
    g_ufree_page t = u \<and> gets_page s root va x t"
proof -
  let ?s = "(bump_mem_count 1 (s\<lparr>g_free_mem_list := mem s x\<rparr>))\<lparr>g_ufree_page := u\<rparr>"
  have m: "mem ?s = mem s" "page_ok ?s = page_ok s" by (auto intro: page_ok_cong)
  have "pt_ok ?s root xs" using pt_ok_taken(1) [OF ok] by (simp add: pt_ok_def free_pages_def)
  moreover have "page_ok ?s x" using pt_ok_taken(2) [OF ok] m by simp
  moreover have "leaf_perm (prot_to_type (PROT_WRITE OR PROT_READ) 1)"
    by (simp add: leaf_perm_def prot_to_type_def)
  ultimately obtain t where "user_vm_map root va 4096 x (prot_to_type (PROT_WRITE OR PROT_READ) 1) ?s = Inr ((), t)"
      "mem_erase t = mem_erase ?s"
      "\<forall>vb. unat vb < 0x4000000000 \<longrightarrow> user_va_to_pa root vb t = (if page_of vb = va then Inr (x + (vb - va), t)
         else Inr (case user_va_to_pa root vb ?s of Inr (p, _) \<Rightarrow> p, t))"
    using map_fresh_page [of ?s root xs va x] va need new m(1) by auto
  moreover from this(2) have "g_ufree_page (mem_erase t) = g_ufree_page (mem_erase ?s)" by (rule arg_cong)
  then have "g_ufree_page t = u" by (simp add: mem_erase_def)
  moreover have "tables_ok (page_ok s) (mem s) root" using ok by (simp add: pt_ok_def)
  ultimately show ?thesis
    unfolding gets_page_def using translate_same [OF _ m] by auto
qed

lemma take_page:
  assumes "current s = Some c" and "c < length (procs s)" and "pt_ok s root (x # xs)"
  defines "t \<equiv> bump_mem_count 1 (s\<lparr>g_free_mem_list := mem s x\<rparr>)"
  shows "alloc_page s = Inr (x, t)" and "pagetable (procs t ! c) = pagetable (procs s ! c)"
    and "g_ufree_page t = g_ufree_page s"
proof -
  show "alloc_page s = Inr (x, t)"
    unfolding t_def using assms(3) by (intro alloc_page_Cons [where xs = xs]) (simp add: pt_ok_def)
  show "pagetable (procs t ! c) = pagetable (procs s ! c)" "g_ufree_page t = g_ufree_page s"
    using assms(1, 2) by (simp_all add: t_def bump_mem_count_def nth_list_update split: option.splits)
qed

text \<open>
  C16: \<^verbatim>\<open>sys_user_allocate_page\<close> gives the program a page of its own. It returns the next address
  of the heap and moves the mark by a page; that page of addresses is now translated to a
  page that was free, byte by byte, and no other translation of the program changes.
\<close>

theorem allocate_page_maps:
  assumes "current s = Some c" and "c < length (procs s)" and "pt_ok s (pagetable (procs s ! c)) (x # xs)"
    and "aligned 4096 (g_ufree_page s)" and "unat (g_ufree_page s) + 4096 \<le> 0x4000000000"
    and "need (mem s) (pagetable (procs s ! c)) (g_ufree_page s) \<le> length xs"
    and "vmap (mem s) (pagetable (procs s ! c)) (g_ufree_page s) = None"
  shows "\<exists>t. sys_user_allocate_page s = Inr (g_ufree_page s, t) \<and> g_ufree_page t = g_ufree_page s + PGSIZE \<and>
    gets_page s (pagetable (procs s ! c)) (g_ufree_page s) x t"
  using map_taken_page [OF assms(3-7), of "g_ufree_page s + PGSIZE"] take_page [OF assms(1-3)] assms(1)
  by (auto simp: sys_user_allocate_page_def cur_proc_def kdefs)

text \<open>
  C17: the handler of a store page fault maps a free page at the page of the faulting address,
  so that the store can be repeated; no other translation changes. A load page fault
  reaches the same handler, which does nothing: the program would fault again for ever.
\<close>

theorem page_fault_maps:
  assumes "current s = Some c" and "c < length (procs s)" and "pt_ok s (pagetable (procs s ! c)) (x # xs)"
    and "unat va < 0x4000000000" and "need (mem s) (pagetable (procs s ! c)) va \<le> length xs"
    and "vmap (mem s) (pagetable (procs s ! c)) va = None"
  shows "(\<exists>t. handle_user_page_fault CAUSE_STORE_PAGE_FAULT pc va s = Inr ((), t) \<and>
      gets_page s (pagetable (procs s ! c)) (page_of va) x t) \<and>
    handle_user_page_fault CAUSE_LOAD_PAGE_FAULT pc va s = Inr ((), s)"
proof -
  let ?s = "bump_mem_count 1 (s\<lparr>g_free_mem_list := mem s x\<rparr>)"
  have va: "aligned 4096 (page_of va)" "unat (page_of va) + 4096 \<le> 0x4000000000"
    using assms(4) by (simp_all add: aligned_def unat_page_of)
  have "need (mem s) (pagetable (procs s ! c)) (page_of va) = need (mem s) (pagetable (procs s ! c)) va"
    by (rule need_vpn) (simp add: vpn_def unat_page_of)
  moreover have "vmap (mem s) (pagetable (procs s ! c)) (page_of va) = None"
    using assms(6) vmap_vpn [of "page_of va" va] by simp
  moreover have same: "?s\<lparr>g_ufree_page := g_ufree_page ?s\<rparr> = ?s" by simp
  ultimately obtain t where "user_vm_map (pagetable (procs s ! c)) (page_of va) 4096 x
      (prot_to_type (PROT_WRITE OR PROT_READ) 1) ?s = Inr ((), t)"
      "gets_page s (pagetable (procs s ! c)) (page_of va) x t"
    using map_taken_page [OF assms(3) va, of "g_ufree_page ?s"] assms(5) same by auto
  then show ?thesis
    using take_page [OF assms(1-3)] assms(1) by (simp add: handle_user_page_fault_def cur_proc_def kdefs page_of_def)
qed

section \<open>Reading and writing files\<close>

lemma sext_minus_1: "(scast (- 1 :: i32) :: u64) = - 1"
  by (rule bit_word_eqI) (simp add: bit_simps)

text \<open>
  C31: reading and writing files always reports success. No operation on a file is
  implemented, each returns -1; but the loops of \<^verbatim>\<open>sys_user_read\<close> and \<^verbatim>\<open>sys_user_write\<close> compare that
  as an unsigned number, take it for a complete transfer and return the full count,
  without a byte of memory or of any file having changed.
\<close>

theorem transfer_reports_count:
  assumes "current s = Some c" and "tables_ok (page_ok s) (mem s) (pagetable (procs s ! c))"
    and "unat bufva < 0x4000000000"
  shows "sys_user_read fd bufva count s = Inr (count, s) \<and> sys_user_write fd bufva count s = Inr (count, s)"
  using lookup_pa_eq [OF assms(2, 3)] assms(1)
  by (auto simp: sys_user_read_def sys_user_write_def read_loop.simps [of _ _ _ 0] write_loop.simps [of _ _ _ 0]
      read_loop.simps [of _ _ _ "- 1"] write_loop.simps [of _ _ _ "- 1"] do_read_def do_write_def cur_proc_def
      kdefs sext_minus_1 ucast_minus_1)

section \<open>Examples\<close>

definition umem_state :: kstate where
  "umem_state = demo_state\<lparr>procs := [zero_process\<lparr>pagetable := 0x8001c000\<rparr>], current := Some 0, g_ufree_page := 0x400000\<rparr>"

lemma umem_fields [simp]: "procs umem_state = [zero_process\<lparr>pagetable := 0x8001c000\<rparr>]" "current umem_state = Some 0"
  "g_ufree_page umem_state = 0x400000" "mem umem_state = mem demo_state" "page_ok umem_state = page_ok demo_state"
  by (simp_all add: umem_state_def)

lemma umem_ok: "pt_ok umem_state 0x8001c000 (0x8001d000 # tl demo_pages)"
  using demo_ok by (simp add: pt_ok_def free_pages_def umem_state_def demo_pages_def)

theorem allocate_page_maps_witness:
  "\<exists>t. sys_user_allocate_page umem_state = Inr (0x400000, t) \<and> g_ufree_page t = 0x401000 \<and>
    gets_page umem_state 0x8001c000 0x400000 0x8001d000 t"
  using allocate_page_maps [of umem_state 0 "0x8001d000" "tl demo_pages"] umem_ok
  by (simp add: demo_need demo_empty aligned_def demo_pages_def)

theorem page_fault_maps_witness:
  "\<exists>t. handle_user_page_fault CAUSE_STORE_PAGE_FAULT 0 0x7fffe123 umem_state = Inr ((), t) \<and>
    gets_page umem_state 0x8001c000 (page_of 0x7fffe123) 0x8001d000 t"
  using page_fault_maps [of umem_state 0 "0x8001d000" "tl demo_pages" "0x7fffe123" 0] umem_ok
  by (simp add: demo_need demo_empty demo_pages_def)

theorem transfer_reports_count_witness:
  "sys_user_read 3 0x400000 512 umem_state = Inr (512, umem_state)"
  using transfer_reports_count [of umem_state 0 "0x400000" 3 512] umem_ok by (simp add: pt_ok_def)

end
