(* ===== verification/PKE_Space.thy ===== *)
theory PKE_Space
  imports PKE_Heap PKE_Umem PKE_Process
begin

text \<open>
  Address spaces in pages. \<open>space b xs M root T f s\<close> adds a page table to the view of \<^verbatim>\<open>PKE_Heap\<close>: the
  table at \<open>root\<close> consists of the pages \<open>T\<close>, none of them free, and maps virtual addresses as \<open>f\<close>. It
  depends on the contents of the pages \<open>T\<close> only, so writing to other pages keeps it, and mapping a
  page is an update of \<open>f\<close> that takes at most two pages for new tables.
\<close>

section \<open>Page tables and their pages\<close>

definition tabs :: "(u64 \<Rightarrow> u64) \<Rightarrow> u64 \<Rightarrow> u64 set" where
  "tabs m root = {u. \<exists>d va. tree m root d va u}"

definition space :: "kstate \<Rightarrow> u64 list \<Rightarrow> (u64 \<Rightarrow> u64 \<Rightarrow> u64) \<Rightarrow> u64 \<Rightarrow> u64 set \<Rightarrow> (u64 \<Rightarrow> u64 option) \<Rightarrow> kstate \<Rightarrow> bool" where
  "space b xs M root T f s \<longleftrightarrow> holds b xs M s \<and> tables_ok (page_ok b) (mem s) root \<and>
     tabs (mem s) root = T \<and> T \<inter> set xs = {} \<and> (\<forall>va. unat va < 0x4000000000 \<longrightarrow> vmap (mem s) root va = f va)"

lemma tree_frame_slots:
  assumes same: "\<And>d vb t k va. tree m root d vb t \<Longrightarrow> m' (slot t k va) = m (slot t k va)"
  shows "tree m' root = tree m root"
    and "unat vb < 0x4000000000 \<Longrightarrow> vmap m' root vb = vmap m root vb"
proof -
  have tb: "table m' root d va = table m root d va" if "d \<le> 2" "unat va < 0x4000000000" for d va
    using that by (intro table_cong same) (auto intro: treeI)
  then show "tree m' root = tree m root" by (auto simp: tree_def fun_eq_iff)
  show "vmap m' root vb = vmap m root vb" if "unat vb < 0x4000000000"
    using tb [of 2 vb] that same [of 2 vb] by (auto simp: vmap_def tree_def split: option.splits)
qed

lemma space_pages: "space b xs M root T f s \<Longrightarrow> p \<in> T \<Longrightarrow> page_ok b p \<and> p \<notin> set xs"
  unfolding space_def tabs_def tables_ok_def by blast

lemma space_holds: "space b xs M root T f s \<Longrightarrow> holds b xs M s"
  by (simp add: space_def)

lemma space_pt_ok: "space b xs M root T f s \<Longrightarrow> pt_ok s root xs"
proof -
  assume sp: "space b xs M root T f s"
  then have "page_ok s = page_ok b" using holds_eq [OF space_holds [OF sp]] by simp
  moreover have "t \<notin> set xs" if "tree (mem s) root d va t" for d va t
    using that sp space_pages [OF sp, of t] by (auto simp: space_def tabs_def)
  ultimately show ?thesis using sp by (simp add: space_def pt_ok_def holds_def)
qed

lemma space_move:
  assumes sp: "space b xs M root T f s" and h: "holds b' ys M' t" and ok: "page_ok b' = page_ok b"
    and same: "\<And>p. p \<in> T \<Longrightarrow> M' p = M p" and free: "T \<inter> set ys = {}"
  shows "space b' ys M' root T f t"
proof -
  have same: "mem t (slot u k va) = mem s (slot u k va)" if "tree (mem s) root d vb u" for d vb u k va
  proof -
    have u: "u \<in> T" "page_ok b u" using sp that by (auto simp: space_def tabs_def tables_ok_def)
    then show ?thesis
      using holds_mem [OF h, of u "8 * PX k va"] holds_mem [OF space_holds [OF sp], of u "8 * PX k va"] same ok
      by (simp add: slot_def unat_8_PX)
  qed
  show ?thesis
    using sp h ok free tree_frame_slots(1) [of "mem s" root "mem t", OF same] tree_frame_slots(2) [of "mem s" root "mem t", OF same]
    unfolding space_def tables_ok_def tabs_def by simp
qed

lemma space_lookup:
  assumes "space b xs M root T f s" and "unat va < 0x4000000000" and "f va = Some e" and "\<not> (e AND PTE_R = 0 \<and> e AND PTE_W = 0)"
  shows "lookup_pa root va s = Inr (PTE2PA e, s)"
  using lookup_pa_eq [of s root va] assms holds_eq [of b xs M s] by (auto simp: space_def)

section \<open>Mapping a page\<close>

definition map_leaf :: "(u64 \<Rightarrow> u64 option) \<Rightarrow> u64 \<Rightarrow> u64 \<Rightarrow> u64 \<Rightarrow> (u64 \<Rightarrow> u64 option)" where
  "map_leaf f va pa perm = (\<lambda>vb. if page_of vb = va then Some (PA2PTE pa OR perm OR PTE_V) else f vb)"

lemma map_range_1: "aligned 4096 va \<Longrightarrow> map_range f va 1 pa perm = map_leaf f va pa perm"
  by (auto simp: map_range_def map_leaf_def fun_eq_iff page_of_iff_vpn)

lemma map_page_spec:
  assumes ok: "pt_ok s root xs" and va: "aligned 4096 va" "unat va + 4096 \<le> 0x4000000000" and new: "vmap (mem s) root va = None"
    and xs: "2 \<le> length xs"
  shows "\<exists>t j. map_pages root va 4096 pa perm s = Inr (0, t) \<and> j \<le> 2 \<and>
    remapped root xs s j (map_leaf (vmap (mem s) root) va pa perm) t"
proof -
  have np: "npages va 4096 = 1" using npages_1 [OF va] .
  have cost: "walk_cost (mem s) root va (vpn 0 va + 1) \<le> 2" unfolding walk_cost_1 by (simp add: need_def)
  have "vmap (mem s) root vb = None" if "vpn 0 va \<le> vpn 0 vb" "vpn 0 vb < vpn 0 va + 1" for vb
    using that new vmap_vpn [of vb va] by simp
  then have "\<exists>t k. map_pages root va 4096 pa perm s = Inr (0, t) \<and> k \<le> walk_cost (mem s) root va (vpn 0 va + 1) \<and>
      remapped root xs s k (map_range (vmap (mem s) root) va 1 pa perm) t"
    using map_pages_spec [OF ok, of 4096 va pa perm] va(2) cost xs unfolding np by simp
  then show ?thesis using cost unfolding map_range_1 [OF va(1)] by (meson le_trans)
qed

lemma space_map:
  assumes sp: "space b xs M root T f s" and va: "aligned 4096 va" "unat va + 4096 \<le> 0x4000000000" and new: "f va = None"
    and xs: "2 \<le> length xs"
  shows "\<exists>t j M' T'. map_pages root va 4096 pa perm s = Inr (0, t) \<and> j \<le> 2 \<and>
    space b (drop j xs) M' root T' (map_leaf f va pa perm) t \<and> T \<subseteq> T' \<and> T' \<subseteq> T \<union> set (take j xs) \<and>
    (\<forall>p. p \<notin> T' \<longrightarrow> M' p = M p)"
proof -
  have h: "holds b xs M s" and f: "\<And>va. unat va < 0x4000000000 \<Longrightarrow> vmap (mem s) root va = f va"
    using sp by (simp_all add: space_def)
  have "vmap (mem s) root va = None" using f va(2) new by simp
  then obtain t j where t: "map_pages root va 4096 pa perm s = Inr (0, t)" "j \<le> 2"
      "remapped root xs s j (map_leaf (vmap (mem s) root) va pa perm) t"
    using map_page_spec [OF space_pt_ok [OF sp] va _ xs] by blast
  then have e: "mem_erase t = mem_erase b" and ok: "pt_ok t root (drop j xs)"
    and out: "\<And>a. page_of a \<notin> tabs (mem t) root \<Longrightarrow> mem t a = mem s a"
    using h by (auto simp: remapped_def grows_def tabs_def holds_def)
  define M' where "M' = (\<lambda>p k. if p \<in> tabs (mem t) root then mem t (p + k) else M p k)"
  have "mem t (p + k) = M' p k" if "page_ok b p" "unat k < 4096" "unat k mod 8 = 0" for p k
    using that out page_of_page_off [OF that(1, 2)] holds_mem [OF h that] by (auto simp: M'_def)
  then have "holds b (drop j xs) M' t" using e ok by (simp add: holds_def pt_ok_def)
  moreover have "page_ok t = page_ok b" using mem_eraseD [OF e] by simp
  ultimately have "space b (drop j xs) M' root (tabs (mem t) root) (map_leaf f va pa perm) t"
    using ok t(3) f by (auto simp: space_def pt_ok_def tabs_def remapped_def map_leaf_def)
  moreover have "T \<subseteq> tabs (mem t) root" "tabs (mem t) root \<subseteq> T \<union> set (take j xs)"
    using sp t(3) unfolding space_def tabs_def remapped_def grows_def tables_from_def by blast+
  moreover have "\<forall>p. p \<notin> tabs (mem t) root \<longrightarrow> M' p = M p" by (simp add: M'_def)
  ultimately show ?thesis using t(1, 2) by blast
qed

section \<open>Changing a process\<close>

lemma holds_upd_proc:
  assumes h: "holds b xs M s" and g: "\<And>p q. p\<lparr>total_mem_count := 0\<rparr> = q\<lparr>total_mem_count := 0\<rparr> \<Longrightarrow>
      (g p)\<lparr>total_mem_count := 0\<rparr> = (g q)\<lparr>total_mem_count := 0\<rparr>" and i: "i < length (procs b)"
  shows "runs_to (set_proc i g) s (\<lambda>_. holds (upd_proc i g b) xs M)"
proof -
  have e: "mem_erase s = mem_erase b" using h by (simp add: holds_def)
  have "map (\<lambda>p. p\<lparr>total_mem_count := 0\<rparr>) (procs s) = map (\<lambda>p. p\<lparr>total_mem_count := 0\<rparr>) (procs b)"
    using arg_cong [OF e, of procs] by (simp add: mem_erase_def)
  moreover from arg_cong [OF this, of "\<lambda>xs. xs ! i"] i arg_cong [OF this, of length]
  have "(g (procs s ! i))\<lparr>total_mem_count := 0\<rparr> = (g (procs b ! i))\<lparr>total_mem_count := 0\<rparr>" by (intro g) simp
  ultimately have "mem_erase (upd_proc i g s) = mem_erase (upd_proc i g b)"
    using arg_cong [OF e, of "\<lambda>u. u\<lparr>procs := (map (\<lambda>p. p\<lparr>total_mem_count := 0\<rparr>) (procs b))[i := (g (procs b ! i))\<lparr>total_mem_count := 0\<rparr>]\<rparr>"]
    by (simp add: mem_erase_def upd_proc_def map_update)
  moreover have "free_pages (upd_proc i g s) xs" using h by (simp add: holds_def upd_proc_def free_pages_def)
  ultimately show ?thesis using h by (simp add: runs_to_iff set_proc_def kdefs holds_def upd_proc_def)
qed

end
