(* ===== verification/PKE_Fork.thy ===== *)
theory PKE_Fork
  imports PKE_Space
begin

text \<open>
  The memory of a child: what \<^verbatim>\<open>do_fork\<close> of \<^verbatim>\<open>kernel/process.c\<close> does once it has a process. Pages of
  data segments are copied to pages of the child's own, pages of code segments are shared, stack and
  trapframe are copied, the regions are recorded, and no page of the parent is written to.
\<close>

section \<open>Regions\<close>

type_synonym region = "u64 \<times> u32 \<times> u32"

definition region_pages :: "region \<Rightarrow> (u64 \<times> u32) list" where
  "region_pages r = (case r of (va, np, ty) \<Rightarrow> map (\<lambda>i. (va + of_nat i * 4096, ty)) [0..<unat np])"

definition all_pages :: "region list \<Rightarrow> (u64 \<times> u32) list" where
  "all_pages R = concat (map region_pages R)"

definition seg_pages :: "(u64 \<times> u32) list \<Rightarrow> u32 \<Rightarrow> u64 set" where
  "seg_pages L ty = {va. (va, ty) \<in> set L}"

definition region_is :: "(u64 \<Rightarrow> u64) \<Rightarrow> nat \<Rightarrow> region \<Rightarrow> bool" where
  "region_is c j r = (case r of (va, np, ty) \<Rightarrow> c (16 * of_nat j) = va \<and> c (16 * of_nat j + 8) = halves np ty)"

definition page_content :: "kstate \<Rightarrow> u64 \<Rightarrow> u64 \<Rightarrow> u64" where
  "page_content s p = (\<lambda>k. mem s (p + k))"

section \<open>Parent and child before the copy\<close>

abbreviation code_perm :: u64 where
  "code_perm \<equiv> prot_to_type (PROT_WRITE OR PROT_READ OR PROT_EXEC) 1"

abbreviation data_perm :: u64 where
  "data_perm \<equiv> prot_to_type (PROT_WRITE OR PROT_READ) 1"

abbreviation root_of :: "kstate \<Rightarrow> nat \<Rightarrow> u64" where
  "root_of s i \<equiv> pagetable (procs s ! i)"

definition leads_to :: "u64 option \<Rightarrow> u64 \<Rightarrow> bool" where
  "leads_to r p \<longleftrightarrow> (\<exists>e. r = Some e \<and> \<not> (e AND PTE_R = 0 \<and> e AND PTE_W = 0) \<and> PTE2PA e = p)"

definition parent_page :: "kstate \<Rightarrow> nat \<Rightarrow> u64 \<Rightarrow> u64" where
  "parent_page s i va = PTE2PA (the (vmap (mem s) (root_of s i) va))"

definition child_pages :: "kstate \<Rightarrow> nat \<Rightarrow> u64 \<Rightarrow> u64 set" where
  "child_pages s i st = tabs (mem s) (root_of s i) \<union> {trapframe (procs s ! i), mapped_info (procs s ! i), st}"

definition page_va :: "u64 \<Rightarrow> bool" where
  "page_va va \<longleftrightarrow> aligned 4096 va \<and> unat va + 4096 \<le> 0x4000000000"

definition child_ready :: "kstate \<Rightarrow> nat \<Rightarrow> u64 list \<Rightarrow> u64 \<Rightarrow> bool" where
  "child_ready s i xs st \<longleftrightarrow> (let c = procs s ! i in
     i < length (procs s) \<and> pt_ok s (pagetable c) xs \<and> distinct [trapframe c, mapped_info c, st] \<and>
     (\<forall>p \<in> {trapframe c, mapped_info c, st}. page_ok s p \<and> p \<notin> set xs \<and> p \<notin> tabs (mem s) (pagetable c)) \<and>
     page_content s (mapped_info c) 0 = USER_STACK_TOP - 4096 \<and>
     leads_to (vmap (mem s) (pagetable c) (USER_STACK_TOP - 4096)) st \<and> total_mapped_region c = 3)"

definition parent_ready :: "kstate \<Rightarrow> nat \<Rightarrow> u64 set \<Rightarrow> region list \<Rightarrow> bool" where
  "parent_ready s i X R \<longleftrightarrow> (let p = procs s ! i; mi = page_content s (mapped_info p); pages = map fst (all_pages R) in
     i < length (procs s) \<and> tables_ok (page_ok s) (mem s) (pagetable p) \<and> tabs (mem s) (pagetable p) \<inter> X = {} \<and>
     (\<forall>q \<in> {trapframe p, mapped_info p}. page_ok s q \<and> q \<notin> X) \<and>
     length R \<le> 253 \<and> total_mapped_region p = of_nat (3 + length R) \<and>
     (\<exists>np va1 np1 va2 np2. region_is mi 0 (USER_STACK_TOP - 4096, np, STACK_SEGMENT) \<and>
        region_is mi 1 (va1, np1, CONTEXT_SEGMENT) \<and> region_is mi 2 (va2, np2, SYSTEM_SEGMENT)) \<and>
     (\<forall>j < length R. region_is mi (3 + j) (R ! j)) \<and> (\<forall>(va, np, ty) \<in> set R. ty = CODE_SEGMENT \<or> ty = DATA_SEGMENT) \<and>
     distinct pages \<and> (\<forall>va \<in> set pages. page_va va) \<and>
     (\<forall>va \<in> insert (USER_STACK_TOP - 4096) (set pages). leads_to (vmap (mem s) (pagetable p) va) (parent_page s i va) \<and>
        page_ok s (parent_page s i va) \<and> parent_page s i va \<notin> X))"

definition forkable :: "kstate \<Rightarrow> nat \<Rightarrow> nat \<Rightarrow> u64 list \<Rightarrow> u64 \<Rightarrow> region list \<Rightarrow> bool" where
  "forkable s pi ci xs st R \<longleftrightarrow> pi \<noteq> ci \<and> child_ready s ci xs st \<and> parent_ready s pi (child_pages s ci st \<union> set xs) R \<and>
     (\<forall>va \<in> set (map fst (all_pages R)). vmap (mem s) (root_of s ci) va = None) \<and> 3 * length (all_pages R) \<le> length xs"

section \<open>The copy under way\<close>

definition child_map :: "(u64 \<Rightarrow> u64 option) \<Rightarrow> (u64 \<times> u32) list \<Rightarrow> (u64 \<Rightarrow> u64) \<Rightarrow> (u64 \<Rightarrow> u64) \<Rightarrow> (u64 \<Rightarrow> u64 option)" where
  "child_map f L pp g = (\<lambda>vb.
     if page_of vb \<in> seg_pages L CODE_SEGMENT then Some (PA2PTE (pp (page_of vb)) OR code_perm OR PTE_V)
     else if page_of vb \<in> seg_pages L DATA_SEGMENT then Some (PA2PTE (g (page_of vb)) OR data_perm OR PTE_V)
     else f vb)"

definition more_regions :: "nat \<Rightarrow> nat \<Rightarrow> kstate \<Rightarrow> kstate" where
  "more_regions i n s = upd_proc i (\<lambda>c. c\<lparr>total_mapped_region := total_mapped_region c + of_nat n\<rparr>) s"

text \<open>
  \<open>forked_at s ci xs st n k T f G M t\<close>: from the state \<open>s\<close> the first \<open>k\<close> of the free pages \<open>xs\<close> have been taken,
  the child's table consists of the pages \<open>T\<close> and implements \<open>f\<close>, for \<open>(q, p)\<close> in \<open>G\<close> the new page \<open>q\<close> is
  a copy of \<open>p\<close>, \<open>n\<close> regions have been recorded, and only pages of the child have been written to.
\<close>

definition forked_at :: "kstate \<Rightarrow> nat \<Rightarrow> u64 list \<Rightarrow> u64 \<Rightarrow> nat \<Rightarrow> nat \<Rightarrow> u64 set \<Rightarrow> (u64 \<Rightarrow> u64 option) \<Rightarrow> (u64 \<times> u64) set \<Rightarrow>
    (u64 \<Rightarrow> u64 \<Rightarrow> u64) \<Rightarrow> kstate \<Rightarrow> bool" where
  "forked_at s ci xs st n k T f G M t \<longleftrightarrow> k \<le> length xs \<and> distinct xs \<and>
     space (more_regions ci n s) (drop k xs) M (root_of s ci) T f t \<and>
     T \<subseteq> tabs (mem s) (root_of s ci) \<union> set (take k xs) \<and> tabs (mem s) (root_of s ci) \<inter> set xs = {} \<and>
     (\<forall>p. p \<notin> child_pages s ci st \<union> set (take k xs) \<longrightarrow> M p = page_content s p) \<and>
     (\<forall>q p. (q, p) \<in> G \<longrightarrow> q \<in> set (take k xs) - T \<and> M q = page_content s p)"

definition copies :: "kstate \<Rightarrow> nat \<Rightarrow> (u64 \<times> u32) list \<Rightarrow> (u64 \<Rightarrow> u64) \<Rightarrow> (u64 \<times> u64) set" where
  "copies s pi L g = (\<lambda>va. (g va, parent_page s pi va)) ` seg_pages L DATA_SEGMENT"

definition forking :: "kstate \<Rightarrow> nat \<Rightarrow> nat \<Rightarrow> u64 list \<Rightarrow> u64 \<Rightarrow> nat \<Rightarrow> (u64 \<times> u32) list \<Rightarrow> (u64 \<Rightarrow> u64) \<Rightarrow> (u64 \<Rightarrow> u64 \<Rightarrow> u64) \<Rightarrow> kstate \<Rightarrow> bool" where
  "forking s pi ci xs st n L g M t \<longleftrightarrow> (\<exists>k T. k \<le> 3 * length L \<and> inj_on g (seg_pages L DATA_SEGMENT) \<and>
     forked_at s ci xs st n k T (child_map (vmap (mem s) (root_of s ci)) L (parent_page s pi) g) (copies s pi L g) M t)"

lemma more_regions_simps [simp]:
  "page_ok (more_regions i n s) = page_ok s" "length (procs (more_regions i n s)) = length (procs s)"
  "more_regions i 0 s = s"
  by (simp_all add: more_regions_def upd_proc_def)

lemma more_regions_procs:
  "procs (more_regions i n s) ! j = (if j = i \<and> i < length (procs s)
     then (procs s ! i)\<lparr>total_mapped_region := total_mapped_region (procs s ! i) + of_nat n\<rparr> else procs s ! j)"
  by (cases "i < length (procs s)") (auto simp: more_regions_def upd_proc_def nth_list_update list_update_beyond)

lemma holds_proc:
  assumes "holds b xs M t" and "i < length (procs b)"
  shows "(procs t ! i)\<lparr>total_mem_count := 0\<rparr> = (procs b ! i)\<lparr>total_mem_count := 0\<rparr>"
proof -
  have e: "mem_erase t = mem_erase b" using assms(1) by (simp add: holds_def)
  have "map (\<lambda>p. p\<lparr>total_mem_count := 0\<rparr>) (procs t) = map (\<lambda>p. p\<lparr>total_mem_count := 0\<rparr>) (procs b)"
    using arg_cong [OF e, of procs] by (simp add: mem_erase_def)
  from arg_cong [OF this, of "\<lambda>xs. xs ! i"] arg_cong [OF this, of length] assms(2) show ?thesis by simp
qed

lemma holds_proc_fields:
  assumes "holds b xs M t" and "i < length (procs b)"
  shows "pagetable (procs t ! i) = pagetable (procs b ! i)" "mapped_info (procs t ! i) = mapped_info (procs b ! i)"
    "trapframe (procs t ! i) = trapframe (procs b ! i)" "total_mapped_region (procs t ! i) = total_mapped_region (procs b ! i)"
    "pid (procs t ! i) = pid (procs b ! i)"
  using arg_cong [OF holds_proc [OF assms], of pagetable] arg_cong [OF holds_proc [OF assms], of mapped_info]
    arg_cong [OF holds_proc [OF assms], of trapframe] arg_cong [OF holds_proc [OF assms], of total_mapped_region]
    arg_cong [OF holds_proc [OF assms], of pid] by simp_all

lemma seg_pages_simps [simp]:
  "seg_pages [] ty = {}" "seg_pages (L @ [(va, ty')]) ty = (if ty' = ty then insert va (seg_pages L ty) else seg_pages L ty)"
  by (auto simp: seg_pages_def)

lemma page_of_aligned: "aligned 4096 va \<Longrightarrow> page_of va = va"
  using page_of_iff_vpn by blast

lemma map_leaf_child:
  assumes "va \<notin> seg_pages L CODE_SEGMENT \<union> seg_pages L DATA_SEGMENT"
  shows "map_leaf (child_map f L pp g) va (pp va) code_perm = child_map f (L @ [(va, CODE_SEGMENT)]) pp g"
    and "map_leaf (child_map f L pp g) va q data_perm = child_map f (L @ [(va, DATA_SEGMENT)]) pp (g(va := q))"
  using assms by (auto simp: map_leaf_def child_map_def fun_eq_iff)

lemma forked_at_alloc:
  assumes h: "forked_at s ci xs st n k T f G M t" and k: "k < length xs"
  shows "\<exists>u. alloc_page t = Inr (xs ! k, u) \<and> forked_at s ci xs st n (Suc k) T f G M u"
proof -
  have d: "drop k xs = xs ! k # drop (Suc k) xs" using k by (simp add: Cons_nth_drop_Suc)
  have sp: "space (more_regions ci n s) (drop k xs) M (root_of s ci) T f t" using h by (simp add: forked_at_def)
  obtain u where u: "alloc_page t = Inr (xs ! k, u)" "holds (more_regions ci n s) (drop (Suc k) xs) M u"
    using holds_alloc [OF space_holds [OF sp, unfolded d]] by (auto simp: runs_to_iff)
  have "T \<inter> set (drop (Suc k) xs) = {}" using sp unfolding space_def d by auto
  then have "space (more_regions ci n s) (drop (Suc k) xs) M (root_of s ci) T f u"
    by (intro space_move [OF sp u(2)]) auto
  moreover have "set (take k xs) \<subseteq> set (take (Suc k) xs)" by (simp add: set_take_subset_set_take)
  ultimately have "forked_at s ci xs st n (Suc k) T f G M u"
    using h Suc_leI [OF k] unfolding forked_at_def by blast
  with u(1) show ?thesis by blast
qed

lemma forked_at_fresh:
  assumes h: "forked_at s ci xs st n k T f G M t" and k: "k < length xs"
  shows "xs ! k \<notin> T" and "xs ! k \<notin> fst ` G" and "page_ok s (xs ! k)"
proof -
  have d: "xs ! k \<in> set (drop k xs)" using k by (simp add: Cons_nth_drop_Suc [symmetric])
  have h': "holds (more_regions ci n s) (drop k xs) M t" "T \<inter> set (drop k xs) = {}"
    using h by (simp_all add: forked_at_def space_def)
  then show "xs ! k \<notin> T" using d by blast
  have "set (take k xs) \<inter> set (drop k xs) = {}"
    using h by (simp add: forked_at_def set_take_disj_set_drop_if_distinct)
  then show "xs ! k \<notin> fst ` G" using h d unfolding forked_at_def by fastforce
  show "page_ok s (xs ! k)" using d holds_eq [OF h'(1)] h'(1) by (auto simp: holds_def free_pages_def)
qed

lemma forked_at_write:
  assumes h: "forked_at s ci xs st n k T f G M t"
    and h': "holds (more_regions ci n' s) (drop k xs) (M(p := N)) u"
    and p: "p \<in> child_pages s ci st \<union> set (take k xs)" "p \<notin> T" "p \<notin> fst ` G"
  shows "forked_at s ci xs st n' k T f G (M(p := N)) u"
proof -
  have sp: "space (more_regions ci n s) (drop k xs) M (root_of s ci) T f t" using h by (simp add: forked_at_def)
  then have "space (more_regions ci n' s) (drop k xs) (M(p := N)) (root_of s ci) T f u"
    using p(2) by (intro space_move [OF sp h']) (auto simp: space_def)
  moreover have "(M(p := N)) q = M q" if "(q, p') \<in> G" for q p'
    using that p(3) by (cases "q = p") force+
  then have "\<forall>q p'. (q, p') \<in> G \<longrightarrow> q \<in> set (take k xs) - T \<and> (M(p := N)) q = page_content s p'"
    using h unfolding forked_at_def by metis
  moreover have "\<forall>q. q \<notin> child_pages s ci st \<union> set (take k xs) \<longrightarrow> (M(p := N)) q = page_content s q"
    using h p(1) unfolding forked_at_def by auto
  ultimately show ?thesis using h unfolding forked_at_def by blast
qed

lemma forked_at_holds: "forked_at s ci xs st n k T f G M t \<Longrightarrow> holds (more_regions ci n s) (drop k xs) M t"
  by (simp add: forked_at_def space_def)

lemma forked_at_disjoint: "forked_at s ci xs st n k T f G M t \<Longrightarrow> set (take k xs) \<inter> set (drop k xs) = {}"
  by (simp add: forked_at_def set_take_disj_set_drop_if_distinct)

text \<open>Copying a page of the parent to the page taken last.\<close>

lemma forked_at_copy:
  assumes h: "forked_at s ci xs st n (Suc k) T f G M t" and k: "k < length xs"
    and x: "xs ! k \<notin> T" "xs ! k \<notin> fst ` G" "page_ok s (xs ! k)" and p: "page_ok s p" "p \<notin> child_pages s ci st \<union> set xs"
  shows "\<exists>u r. memcpy (xs ! k) p 4096 t = Inr (r, u) \<and>
    forked_at s ci xs st n (Suc k) T f (insert (xs ! k, p) G) (M(xs ! k := page_content s p)) u"
proof -
  let ?x = "xs ! k"
  have tk: "?x \<in> set (take (Suc k) xs)" using k by (simp add: take_Suc_conv_app_nth)
  have "?x \<notin> set (drop (Suc k) xs)" using forked_at_disjoint [OF h] tk by blast
  then have "own (more_regions ci n s) (drop (Suc k) xs) ?x" "?x \<noteq> p" using x(3) p k by (auto simp: own_def)
  then obtain u r where u: "memcpy ?x p 4096 t = Inr (r, u)" "holds (more_regions ci n s) (drop (Suc k) xs) (M(?x := M p)) u"
    using holds_memcpy [OF forked_at_holds [OF h], of ?x p] p(1) by (auto simp: runs_to_iff)
  have "M p = page_content s p" using h p(2) by (auto simp: forked_at_def dest: in_set_takeD)
  then have "forked_at s ci xs st n (Suc k) T f G (M(?x := page_content s p)) u"
    using forked_at_write [OF h, of n ?x "M p" u] u(2) x tk by simp
  then have "forked_at s ci xs st n (Suc k) T f (insert (?x, p) G) (M(?x := page_content s p)) u"
    using tk x(1) unfolding forked_at_def by auto
  with u(1) show ?thesis by blast
qed

text \<open>Mapping a page in the child.\<close>

lemma forked_at_map:
  assumes h: "forked_at s ci xs st n k T f G M t" and va: "page_va va" "f va = None" and k: "k + 2 \<le> length xs"
  shows "\<exists>u j T' M'. map_pages (root_of s ci) va 4096 pa perm t = Inr (0, u) \<and> j \<le> 2 \<and>
    forked_at s ci xs st n (k + j) T' (map_leaf f va pa perm) G M' u \<and>
    (\<forall>p. p \<notin> tabs (mem s) (root_of s ci) \<union> set xs \<longrightarrow> M' p = M p)"
proof -
  have sp: "space (more_regions ci n s) (drop k xs) M (root_of s ci) T f t" using h by (simp add: forked_at_def)
  have len: "2 \<le> length (drop k xs)" using k by simp
  obtain u j M' T' where u: "map_pages (root_of s ci) va 4096 pa perm t = Inr (0, u)" "j \<le> 2"
      "space (more_regions ci n s) (drop j (drop k xs)) M' (root_of s ci) T' (map_leaf f va pa perm) u"
      "T \<subseteq> T'" "T' \<subseteq> T \<union> set (take j (drop k xs))" "\<And>p. p \<notin> T' \<Longrightarrow> M' p = M p"
    using space_map [OF sp _ _ va(2) len] va(1) unfolding page_va_def by blast
  have tk: "set (take (k + j) xs) = set (take k xs) \<union> set (take j (drop k xs))" by (simp only: take_add set_append)
  have sub: "set (take j (drop k xs)) \<subseteq> set (drop k xs)" by (rule set_take_subset)
  have T: "T \<subseteq> tabs (mem s) (root_of s ci) \<union> set (take k xs)" using h by (simp add: forked_at_def)
  have "q \<in> set (take (k + j) xs) - T' \<and> M' q = page_content s p" if "(q, p) \<in> G" for q p
  proof -
    have "q \<in> set (take k xs) - T" "M q = page_content s p" using h that by (auto simp: forked_at_def)
    moreover from this have "q \<notin> T'" using u(5) sub forked_at_disjoint [OF h] by blast
    ultimately show ?thesis using u(6) tk by auto
  qed
  moreover have "M' p = page_content s p" if "p \<notin> child_pages s ci st \<union> set (take (k + j) xs)" for p
  proof -
    have "p \<notin> T'" using that u(5) T tk unfolding child_pages_def by blast
    then show ?thesis using that h u(6) tk by (auto simp: forked_at_def)
  qed
  moreover have "drop j (drop k xs) = drop (k + j) xs" by (simp add: add.commute)
  moreover have "T' \<subseteq> tabs (mem s) (root_of s ci) \<union> set (take (k + j) xs)" using u(5) T tk by blast
  ultimately have "forked_at s ci xs st n (k + j) T' (map_leaf f va pa perm) G M' u"
    using h u(2, 3) k unfolding forked_at_def by simp
  moreover have "M' p = M p" if "p \<notin> tabs (mem s) (root_of s ci) \<union> set xs" for p
    using that u(5, 6) T sub by (auto dest: in_set_takeD in_set_dropD)
  ultimately show ?thesis using u(1, 2) by blast
qed

lemma forking_start:
  assumes "child_ready s ci xs st"
  shows "forking s pi ci xs st 0 [] g (page_content s) s"
proof -
  have pt: "pt_ok s (root_of s ci) xs" using assms by (simp add: child_ready_def Let_def)
  then have "holds s xs (page_content s) s" "tables_ok (page_ok s) (mem s) (root_of s ci)" "distinct xs"
    using holds_start [of s xs] free_pages_distinct [of s xs] by (auto simp: pt_ok_def page_content_def [abs_def])
  moreover have "tabs (mem s) (root_of s ci) \<inter> set xs = {}" using pt unfolding pt_ok_def tabs_def by blast
  ultimately show ?thesis by (auto simp: forking_def forked_at_def space_def child_map_def copies_def)
qed

text \<open>The parent's page table and pages are as they were.\<close>

lemma forkable_parent:
  assumes "forkable s pi ci xs st R" and "va = USER_STACK_TOP - 4096 \<or> va \<in> set (map fst (all_pages R))"
  shows "leads_to (vmap (mem s) (root_of s pi) va) (parent_page s pi va)" "page_ok s (parent_page s pi va)"
    "parent_page s pi va \<notin> child_pages s ci st \<union> set xs" "unat va < 0x4000000000"
proof -
  show "leads_to (vmap (mem s) (root_of s pi) va) (parent_page s pi va)" "page_ok s (parent_page s pi va)"
    "parent_page s pi va \<notin> child_pages s ci st \<union> set xs"
    using assms unfolding forkable_def parent_ready_def Let_def by blast+
  have "unat va + 4096 \<le> 0x4000000000" if "va \<in> set (map fst (all_pages R))"
    using assms(1) that unfolding forkable_def parent_ready_def Let_def page_va_def by blast
  moreover have "unat (USER_STACK_TOP - 4096) < 0x4000000000" by (simp add: USER_STACK_TOP_def)
  ultimately show "unat va < 0x4000000000" using assms(2) by fastforce
qed

lemma forking_holds: "forking s pi ci xs st n L g M t \<Longrightarrow> \<exists>ys. holds (more_regions ci n s) ys M t \<and> set ys \<subseteq> set xs"
  unfolding forking_def using forked_at_holds set_drop_subset by meson

lemma forking_outside: "forking s pi ci xs st n L g M t \<Longrightarrow> p \<notin> child_pages s ci st \<union> set xs \<Longrightarrow> M p = page_content s p"
  by (auto simp: forking_def forked_at_def dest: in_set_takeD)

lemma forked_at_outside: "forked_at s ci xs st n k T f G M t \<Longrightarrow> p \<notin> child_pages s ci st \<union> set xs \<Longrightarrow> M p = page_content s p"
  by (auto simp: forked_at_def dest: in_set_takeD)

lemma forking_lookup_parent:
  assumes fk: "forkable s pi ci xs st R" and fo: "forked_at s ci xs st n k T f G M t"
    and va: "va = USER_STACK_TOP - 4096 \<or> va \<in> set (map fst (all_pages R))"
  shows "lookup_pa (root_of s pi) va t = Inr (parent_page s pi va, t)"
proof -
  let ?T = "tabs (mem s) (root_of s pi)"
  note h = forked_at_holds [OF fo]
  have tab: "tables_ok (page_ok s) (mem s) (root_of s pi)" and T: "?T \<inter> (child_pages s ci st \<union> set xs) = {}"
    using fk by (simp_all add: forkable_def parent_ready_def Let_def)
  have "free_pages s xs" using fk by (simp add: forkable_def child_ready_def Let_def pt_ok_def)
  then have "space s xs (page_content s) (root_of s pi) ?T (vmap (mem s) (root_of s pi)) s"
    using tab T holds_start [of s xs] by (auto simp: space_def page_content_def [abs_def])
  then have "space (more_regions ci n s) (drop k xs) M (root_of s pi) ?T (vmap (mem s) (root_of s pi)) t"
  proof (rule space_move [OF _ h])
    show "?T \<inter> set (drop k xs) = {}" using T set_drop_subset [of k xs] by blast
    show "M p = page_content s p" if "p \<in> ?T" for p using that T by (intro forked_at_outside [OF fo]) blast
  qed simp
  from space_lookup [OF this] show ?thesis
    using forkable_parent(1, 4) [OF fk va] by (auto simp: leads_to_def)
qed

section \<open>One page\<close>

lemma forkable_page:
  assumes "forkable s pi ci xs st R" and "(va, ty) \<in> set (all_pages R)"
  shows "page_va va" "vmap (mem s) (root_of s ci) va = None" "3 * length (all_pages R) \<le> length xs" "ci < length (procs s)"
    "va \<in> set (map fst (all_pages R))"
proof -
  show v: "va \<in> set (map fst (all_pages R))" using assms(2) by force
  show "page_va va" "vmap (mem s) (root_of s ci) va = None" "3 * length (all_pages R) \<le> length xs" "ci < length (procs s)"
    using assms(1) v unfolding forkable_def parent_ready_def child_ready_def Let_def by blast+
qed

lemma child_map_new:
  assumes "page_va va" "f va = None" "va \<notin> fst ` set L"
  shows "child_map f L pp g va = None" and "va \<notin> seg_pages L ty"
proof -
  show n: "va \<notin> seg_pages L ty" for ty using assms(3) by (force simp: seg_pages_def)
  show "child_map f L pp g va = None"
    using assms(1, 2) n page_of_aligned [of va] by (simp add: child_map_def page_va_def)
qed

lemma code_page_step:
  assumes fk: "forkable s pi ci xs st R" and fo: "forking s pi ci xs st n L g M t"
    and va: "(va, CODE_SEGMENT) \<in> set (all_pages R)" "va \<notin> fst ` set L" and len: "length L < length (all_pages R)"
  shows "runs_to (fork_code_page ci (root_of s pi) va) t (\<lambda>_ u. \<exists>M'. forking s pi ci xs st n (L @ [(va, CODE_SEGMENT)]) g M' u \<and>
    (\<forall>p. p \<notin> tabs (mem s) (root_of s ci) \<union> set xs \<longrightarrow> M' p = M p))"
proof -
  note f = forkable_page [OF fk va(1)]
  note new = child_map_new [where f = "vmap (mem s) (root_of s ci)" and L = L, OF f(1, 2) va(2)]
  obtain k T where k: "k \<le> 3 * length L" "inj_on g (seg_pages L DATA_SEGMENT)"
    and at: "forked_at s ci xs st n k T (child_map (vmap (mem s) (root_of s ci)) L (parent_page s pi) g) (copies s pi L g) M t"
    using fo unfolding forking_def by blast
  obtain u j T' M' where u: "map_pages (root_of s ci) va 4096 (parent_page s pi va) code_perm t = Inr (0, u)" "j \<le> 2"
      "forked_at s ci xs st n (k + j) T' (map_leaf (child_map (vmap (mem s) (root_of s ci)) L (parent_page s pi) g) va (parent_page s pi va) code_perm)
         (copies s pi L g) M' u"
      "\<forall>p. p \<notin> tabs (mem s) (root_of s ci) \<union> set xs \<longrightarrow> M' p = M p"
    using forked_at_map [OF at f(1) new(1)] k(1) f(3) len by fastforce
  have "fork_code_page ci (root_of s pi) va t = Inr ((), u)"
    using forking_lookup_parent [OF fk at disjI2 [OF f(5)]] u(1) holds_proc_fields(1) [OF forked_at_holds [OF at], of ci] f(4)
    by (simp add: fork_code_page_def the_proc_def kdefs more_regions_procs)
  moreover have "forking s pi ci xs st n (L @ [(va, CODE_SEGMENT)]) g M' u"
    unfolding forking_def using u(2, 3) k map_leaf_child(1) new(2)
    by (intro exI [of _ "k + j"] exI [of _ T']) (simp add: copies_def)
  ultimately show ?thesis using u(4) by (auto simp: runs_to_iff)
qed

lemma data_page_step:
  assumes fk: "forkable s pi ci xs st R" and fo: "forking s pi ci xs st n L g M t"
    and va: "(va, DATA_SEGMENT) \<in> set (all_pages R)" "va \<notin> fst ` set L" and len: "length L < length (all_pages R)"
  shows "runs_to (fork_data_page ci (root_of s pi) va) t (\<lambda>_ u. \<exists>g' M'. forking s pi ci xs st n (L @ [(va, DATA_SEGMENT)]) g' M' u \<and>
    (\<forall>p. p \<notin> tabs (mem s) (root_of s ci) \<union> set xs \<longrightarrow> M' p = M p))"
proof -
  note f = forkable_page [OF fk va(1)] and pp = forkable_parent [OF fk disjI2 [OF forkable_page(5) [OF fk va(1)]]]
  note new = child_map_new [where f = "vmap (mem s) (root_of s ci)" and L = L, OF f(1, 2) va(2)]
  let ?f = "child_map (vmap (mem s) (root_of s ci)) L (parent_page s pi) g" and ?p = "parent_page s pi va"
  obtain k T where k: "k \<le> 3 * length L" "inj_on g (seg_pages L DATA_SEGMENT)"
    and at: "forked_at s ci xs st n k T ?f (copies s pi L g) M t"
    using fo unfolding forking_def by blast
  have kx: "k < length xs" "Suc k + 2 \<le> length xs" using k(1) f(3) len by linarith+
  let ?x = "xs ! k"
  obtain t1 where t1: "alloc_page t = Inr (?x, t1)" "forked_at s ci xs st n (Suc k) T ?f (copies s pi L g) M t1"
    using forked_at_alloc [OF at kx(1)] by blast
  note x = forked_at_fresh [OF at kx(1)]
  obtain t2 r where t2: "memcpy ?x ?p 4096 t1 = Inr (r, t2)"
      "forked_at s ci xs st n (Suc k) T ?f (insert (?x, ?p) (copies s pi L g)) (M(?x := page_content s ?p)) t2"
    using forked_at_copy [OF t1(2) kx(1) x pp(2, 3)] by blast
  obtain u j T' M' where u: "map_pages (root_of s ci) va 4096 ?x data_perm t2 = Inr (0, u)" "j \<le> 2"
      "forked_at s ci xs st n (Suc k + j) T' (map_leaf ?f va ?x data_perm) (insert (?x, ?p) (copies s pi L g)) M' u"
      "\<forall>p. p \<notin> tabs (mem s) (root_of s ci) \<union> set xs \<longrightarrow> M' p = (M(?x := page_content s ?p)) p"
    using forked_at_map [OF t2(2) f(1) new(1) kx(2)] by blast
  have "fork_data_page ci (root_of s pi) va t = Inr ((), u)"
    using forking_lookup_parent [OF fk t1(2) disjI2 [OF f(5)]] t1(1) t2(1) u(1) holds_proc_fields(1) [OF forked_at_holds [OF t2(2)], of ci] f(4)
    by (simp add: fork_data_page_def the_proc_def kdefs more_regions_procs)
  moreover have "forking s pi ci xs st n (L @ [(va, DATA_SEGMENT)]) (g(va := ?x)) M' u"
  proof -
    have B: "va \<notin> seg_pages L DATA_SEGMENT" using new(2) .
    then have "copies s pi (L @ [(va, DATA_SEGMENT)]) (g(va := ?x)) = insert (?x, ?p) (copies s pi L g)"
      by (force simp: copies_def)
    moreover have "inj_on (g(va := ?x)) (insert va (seg_pages L DATA_SEGMENT))"
      using k(2) x(2) B by (force simp: inj_on_def copies_def)
    moreover have "map_leaf ?f va ?x data_perm =
        child_map (vmap (mem s) (root_of s ci)) (L @ [(va, DATA_SEGMENT)]) (parent_page s pi) (g(va := ?x))"
      using new(2) by (intro map_leaf_child(2)) simp
    ultimately show ?thesis
      unfolding forking_def using u(2, 3) k(1) by (intro exI [of _ "Suc k + j"] exI [of _ T']) simp
  qed
  moreover have "?x \<in> set xs" using kx(1) by simp
  then have "\<forall>p. p \<notin> tabs (mem s) (root_of s ci) \<union> set xs \<longrightarrow> M' p = M p" using u(4) by auto
  ultimately show ?thesis unfolding runs_to_iff by blast
qed

definition fork_page :: "u32 \<Rightarrow> nat \<Rightarrow> u64 \<Rightarrow> u64 \<Rightarrow> unit K" where
  "fork_page ty = (if ty = CODE_SEGMENT then fork_code_page else fork_data_page)"

lemma page_step:
  assumes fk: "forkable s pi ci xs st R" and fo: "forking s pi ci xs st n L g M t"
    and va: "(va, ty) \<in> set (all_pages R)" "va \<notin> fst ` set L" and len: "length L < length (all_pages R)"
  shows "runs_to (fork_page ty ci (root_of s pi) va) t (\<lambda>_ u. \<exists>g' M'. forking s pi ci xs st n (L @ [(va, ty)]) g' M' u \<and>
    (\<forall>p. p \<notin> tabs (mem s) (root_of s ci) \<union> set xs \<longrightarrow> M' p = M p))"
proof -
  have "\<forall>(va, np, ty) \<in> set R. ty = CODE_SEGMENT \<or> ty = DATA_SEGMENT"
    using fk unfolding forkable_def parent_ready_def Let_def by blast
  then have "ty = CODE_SEGMENT \<or> ty = DATA_SEGMENT" using va(1) by (auto simp: all_pages_def region_pages_def)
  then show ?thesis
    using code_page_step [OF fk fo _ va(2) len] data_page_step [OF fk fo _ va(2) len] va(1)
    by (auto simp: fork_page_def runs_to_iff simp del: One_nat_def) blast+
qed

section \<open>One region\<close>

lemma region_loads:
  assumes h: "holds b ys M t" and p: "page_ok b mi" and r: "region_is (M mi) j (va, np, ty)" and j: "j < 256"
  shows "load64 (region_va mi (of_nat j)) t = Inr (va, t)" "load32 (region_npages mi (of_nat j)) t = Inr (np, t)"
    "load32 (region_seg_type mi (of_nat j)) t = Inr (ty, t)"
proof -
  let ?k = "16 * of_nat j :: u64"
  have k: "unat ?k = 16 * j" using j by (simp add: unat_word_ariths unat_of_nat)
  then have k8: "unat (?k + 8) = 16 * j + 8" "unat (?k + 12) = 16 * j + 12" using j by (simp_all add: unat_word_ariths)
  have d: "dword_of (?k + 8) = ?k + 8" "dword_of (?k + 12) = ?k + 8" "bit_off (?k + 8) = 0" "bit_off (?k + 12) = 32"
    using k8 by (simp_all add: word_unat_eq_iff unat_dword_of bit_off_def) presburger+
  show "load64 (region_va mi (of_nat j)) t = Inr (va, t)"
    using holds_load64 [OF h p, of ?k] k j r by (auto simp: runs_to_iff region_is_def)
  show "load32 (region_npages mi (of_nat j)) t = Inr (np, t)" "load32 (region_seg_type mi (of_nat j)) t = Inr (ty, t)"
    using holds_load32 [OF h p, of "?k + 8"] holds_load32 [OF h p, of "?k + 12"] k8 j r d get_halves [of np ty]
    by (auto simp: runs_to_iff region_is_def)
qed

text \<open>Writing to a page the child had from the start.\<close>

lemma forking_update:
  assumes fk: "forkable s pi ci xs st R" and fo: "forking s pi ci xs st n L g M t"
    and p: "p \<in> {trapframe (procs s ! ci), mapped_info (procs s ! ci), st}"
    and run: "\<And>ys. holds (more_regions ci n s) ys M t \<Longrightarrow> own (more_regions ci n s) ys p \<Longrightarrow>
      runs_to m t (\<lambda>_. holds (more_regions ci n' s) ys (M(p := N)))"
  shows "runs_to m t (\<lambda>_. forking s pi ci xs st n' L g (M(p := N)))"
proof -
  have ok: "page_ok s p" "p \<notin> set xs" "p \<notin> tabs (mem s) (root_of s ci)"
    using fk p unfolding forkable_def child_ready_def Let_def by blast+
  obtain k T where k: "k \<le> 3 * length L" "inj_on g (seg_pages L DATA_SEGMENT)"
    and at: "forked_at s ci xs st n k T (child_map (vmap (mem s) (root_of s ci)) L (parent_page s pi) g) (copies s pi L g) M t"
    using fo unfolding forking_def by blast
  have "own (more_regions ci n s) (drop k xs) p" using ok by (auto simp: own_def dest: in_set_dropD)
  then obtain r u where u: "m t = Inr (r, u)" "holds (more_regions ci n' s) (drop k xs) (M(p := N)) u"
    using run [OF forked_at_holds [OF at]] by (auto simp: runs_to_iff)
  have sub: "T \<subseteq> tabs (mem s) (root_of s ci) \<union> set (take k xs)" "fst ` copies s pi L g \<subseteq> set (take k xs)"
    using at unfolding forked_at_def by force+
  have "p \<notin> T" "p \<notin> fst ` copies s pi L g" using sub ok set_take_subset [of k xs] by blast+
  then have "forked_at s ci xs st n' k T (child_map (vmap (mem s) (root_of s ci)) L (parent_page s pi) g) (copies s pi L g) (M(p := N)) u"
    using p by (intro forked_at_write [OF at u(2)]) (auto simp: child_pages_def)
  then show ?thesis using u(1) k unfolding runs_to_iff forking_def by blast
qed

lemma holds_page_cong:
  assumes "holds b ys (M(p := N)) t" and "\<And>k. unat k < 4096 \<Longrightarrow> unat k mod 8 = 0 \<Longrightarrow> N k = N' k"
  shows "holds b ys (M(p := N')) t"
  using assms by (auto simp: holds_def)

lemma holds_copy_trapframe:
  assumes h: "holds b ys M t" and d: "own b ys d" and a: "page_ok b a" "d \<noteq> a"
  shows "runs_to (copy_trapframe d a) t (\<lambda>_. holds b ys (M(d := \<lambda>k. if unat k < 280 then M a k else M d k)))"
proof -
  define N where "N i = (\<lambda>k :: u64. if unat k < 8 * i then M a k else M d k)" for i
  have step: "runs_to (copy64 (d + 8 * of_nat i) (a + 8 * of_nat i)) u (\<lambda>_. holds b ys (M(d := N (Suc i))))"
    if i: "i < 35" and J: "holds b ys (M(d := N i)) u" for i u
  proof -
    let ?k = "8 * of_nat i :: u64"
    have k: "unat ?k = 8 * i" using i by (simp add: unat_word_ariths unat_of_nat)
    have eq: "((N i)(?k := M a ?k)) w = N (Suc i) w" if "unat w mod 8 = 0" for w
    proof (cases "w = ?k")
      case True
      then show ?thesis using k by (simp add: N_def)
    next
      case False
      then have "unat w \<noteq> 8 * i" using k by (metis word_unat_eq_iff)
      then have "unat w < 8 * i \<longleftrightarrow> unat w < 8 * Suc i" using that by presburger
      then show ?thesis using False by (simp add: N_def)
    qed
    have "runs_to (store64 (d + ?k) (M a ?k)) u (\<lambda>_. holds b ys (M(d := (N i)(?k := M a ?k))))"
      using holds_store64 [OF J d, of ?k "M a ?k"] k i by simp
    then have "runs_to (store64 (d + ?k) (M a ?k)) u (\<lambda>_. holds b ys (M(d := N (Suc i))))"
      by (rule runs_to_weaken) (erule holds_page_cong, rule eq)
    then show ?thesis using holds_load64 [OF J a(1), of ?k] k i a(2) by (auto simp: copy64_def runs_to_iff kdefs)
  qed
  have "M(d := N 0) = M" by (simp add: N_def fun_eq_iff)
  then have "runs_to (kfor [0..<35] (\<lambda>k. copy64 (d + 8 * of_nat k) (a + 8 * of_nat k))) t (\<lambda>_. holds b ys (M(d := N 35)))"
    using h step by (intro runs_to_kfor_upt [where J = "\<lambda>i. holds b ys (M(d := N i))"]) simp_all
  then show ?thesis by (simp add: copy_trapframe_def N_def)
qed

lemma more_regions_Suc:
  "upd_proc i (\<lambda>c. c\<lparr>total_mapped_region := total_mapped_region c + 1\<rparr>) (more_regions i n s) = more_regions i (Suc n) s"
  by (cases "i < length (procs s)") (simp_all add: more_regions_def upd_proc_def list_update_beyond algebra_simps)

lemma holds_register:
  assumes h: "holds (more_regions ci n s) ys M t" and c: "own s ys (mapped_info (procs s ! ci))" "ci < length (procs s)"
      "total_mapped_region (procs s ! ci) = 3" and n: "n < 253"
    and p: "page_ok s mi" "mi \<noteq> mapped_info (procs s ! ci)" "region_is (M mi) j (va, np, ty')" "j < 256"
  shows "runs_to (fork_register ci mi (of_nat j) ty) t (\<lambda>_. holds (more_regions ci (Suc n) s) ys
    (M(mapped_info (procs s ! ci) := (M (mapped_info (procs s ! ci)))(16 * of_nat (3 + n) := va, 16 * of_nat (3 + n) + 8 := halves np ty))))"
proof -
  let ?mc = "mapped_info (procs s ! ci)" and ?k = "16 * of_nat (3 + n) :: u64" and ?b = "more_regions ci n s"
  let ?g = "\<lambda>c. c\<lparr>total_mapped_region := total_mapped_region c + 1\<rparr>"
  have proc: "mapped_info (procs t ! ci) = ?mc" "total_mapped_region (procs t ! ci) = of_nat (3 + n)"
    using holds_proc_fields [OF h, of ci] c by (simp_all add: more_regions_procs)
  have sc: "scast (total_mapped_region (procs t ! ci)) = (of_nat (3 + n) :: u64)" unfolding proc using n by (intro scast_small) simp
  have "unat ?k = 16 * (3 + n)" "unat (?k + 8) = 16 * (3 + n) + 8" using n by (simp_all add: unat_word_ariths unat_of_nat)
  then have k: "unat ?k < 4096" "unat ?k mod 8 = 0" "unat (?k + 8) < 4096" "unat (?k + 8) mod 8 = 0"
    using n by presburger+
  have own: "own ?b ys ?mc" and pok: "page_ok ?b mi" using c p by (simp_all add: own_def)
  note ld = region_loads [OF h pok p(3, 4)]
  obtain t1 where t1: "store64 (region_va ?mc (of_nat (3 + n))) va t = Inr ((), t1)" "holds ?b ys (M(?mc := (M ?mc)(?k := va))) t1"
    using holds_store64 [OF h own k(1, 2), of va] by (auto simp: runs_to_iff)
  have "region_is ((M(?mc := (M ?mc)(?k := va))) mi) j (va, np, ty')" using p(2, 3) by simp
  note ld1 = region_loads [OF t1(2) pok this p(4)]
  have "runs_to (kthen (store32 (region_npages ?mc (of_nat (3 + n))) np)
      (kthen (store32 (region_seg_type ?mc (of_nat (3 + n))) ty) (set_proc ci ?g))) t1
      (\<lambda>_. holds (upd_proc ci ?g ?b) ys (M(?mc := (M ?mc)(?k := va, ?k + 8 := halves np ty))))"
  proof (rule runs_store_pair [OF t1(2) own k(3, 4)])
    fix u assume "holds ?b ys ((M(?mc := (M ?mc)(?k := va)))(?mc := ((M(?mc := (M ?mc)(?k := va))) ?mc)(?k + 8 := halves np ty))) u"
    then have hu: "holds ?b ys (M(?mc := (M ?mc)(?k := va, ?k + 8 := halves np ty))) u" by simp
    show "runs_to (set_proc ci ?g) u (\<lambda>_. holds (upd_proc ci ?g ?b) ys (M(?mc := (M ?mc)(?k := va, ?k + 8 := halves np ty))))"
    proof (rule holds_upd_proc [OF hu])
      fix a d :: process assume "a\<lparr>total_mem_count := 0\<rparr> = d\<lparr>total_mem_count := 0\<rparr>"
      then show "(?g a)\<lparr>total_mem_count := 0\<rparr> = (?g d)\<lparr>total_mem_count := 0\<rparr>" by (cases a; cases d) simp
    qed (use c in simp)
  qed simp_all
  then show ?thesis
    unfolding more_regions_Suc using ld(1) t1(1) ld1(2) sc proc(1)
    by (simp add: fork_register_def the_proc_def runs_to_iff kdefs Let_def)
qed

text \<open>The pages of a region.\<close>

lemma all_pages_take:
  assumes "j < length R" and "i < length (region_pages (R ! j))"
  shows "\<exists>rest. all_pages R = (all_pages (take j R) @ take i (region_pages (R ! j))) @ region_pages (R ! j) ! i # rest"
proof -
  have "R = take j R @ R ! j # drop (Suc j) R" using assms(1) by (simp add: id_take_nth_drop)
  then have "all_pages R = all_pages (take j R @ R ! j # drop (Suc j) R)" by simp
  also have "\<dots> = all_pages (take j R) @ region_pages (R ! j) @ all_pages (drop (Suc j) R)"
    unfolding all_pages_def by (simp only: map_append list.map concat_append concat.simps)
  finally have "all_pages R = all_pages (take j R) @ region_pages (R ! j) @ all_pages (drop (Suc j) R)" .
  moreover have "region_pages (R ! j) = take i (region_pages (R ! j)) @ region_pages (R ! j) ! i # drop (Suc i) (region_pages (R ! j))"
    using assms(2) by (simp add: id_take_nth_drop)
  ultimately show ?thesis by (metis append.assoc append_Cons)
qed

lemma all_pages_Suc: "j < length R \<Longrightarrow> all_pages (take (Suc j) R) = all_pages (take j R) @ region_pages (R ! j)"
  by (simp add: all_pages_def take_Suc_conv_app_nth)

lemma forkable_region:
  assumes "forkable s pi ci xs st R"
  shows "page_ok s (mapped_info (procs s ! pi))" "mapped_info (procs s ! pi) \<notin> child_pages s ci st \<union> set xs" "length R \<le> 253"
    "j < length R \<Longrightarrow> region_is (page_content s (mapped_info (procs s ! pi))) (3 + j) (R ! j)"
    "distinct (map fst (all_pages R))" "pi < length (procs s)" "pi \<noteq> ci"
    "total_mapped_region (procs s ! pi) = of_nat (3 + length R)"
  using assms unfolding forkable_def parent_ready_def Let_def by blast+

lemma forking_region_loads:
  assumes fk: "forkable s pi ci xs st R" and fo: "forking s pi ci xs st n L g M t"
    and r: "region_is (page_content s (mapped_info (procs s ! pi))) j (va, np, ty)" "j < 256"
  shows "load64 (region_va (mapped_info (procs s ! pi)) (of_nat j)) t = Inr (va, t)"
    "load32 (region_npages (mapped_info (procs s ! pi)) (of_nat j)) t = Inr (np, t)"
    "load32 (region_seg_type (mapped_info (procs s ! pi)) (of_nat j)) t = Inr (ty, t)"
proof -
  obtain ys where h: "holds (more_regions ci n s) ys M t" using forking_holds [OF fo] by blast
  have "M (mapped_info (procs s ! pi)) = page_content s (mapped_info (procs s ! pi))"
    using forking_outside [OF fo forkable_region(2) [OF fk]] .
  then show "load64 (region_va (mapped_info (procs s ! pi)) (of_nat j)) t = Inr (va, t)"
    "load32 (region_npages (mapped_info (procs s ! pi)) (of_nat j)) t = Inr (np, t)"
    "load32 (region_seg_type (mapped_info (procs s ! pi)) (of_nat j)) t = Inr (ty, t)"
    using region_loads [OF h, of "mapped_info (procs s ! pi)" j va np ty] forkable_region(1) [OF fk] r by simp_all
qed

lemma pages_loop:
  assumes fk: "forkable s pi ci xs st R" and fo: "forking s pi ci xs st n (all_pages (take j R)) g M t"
    and j: "j < length R" "R ! j = (va, np, ty)"
  shows "runs_to (fork_pages (fork_page ty ci (root_of s pi)) (mapped_info (procs s ! pi)) (of_nat (3 + j))) t
    (\<lambda>_ u. \<exists>g' M'. forking s pi ci xs st n (all_pages (take (Suc j) R)) g' M' u \<and>
      (\<forall>p. p \<notin> tabs (mem s) (root_of s ci) \<union> set xs \<longrightarrow> M' p = M p))"
proof -
  let ?L = "\<lambda>i. all_pages (take j R) @ take i (region_pages (R ! j))"
  let ?J = "\<lambda>i u. \<exists>g' M'. forking s pi ci xs st n (?L i) g' M' u \<and> (\<forall>p. p \<notin> tabs (mem s) (root_of s ci) \<union> set xs \<longrightarrow> M' p = M p)"
  have len: "length (region_pages (R ! j)) = unat np" and j3: "3 + j < 256"
    using j forkable_region(3) [OF fk] by (auto simp: region_pages_def)
  have r: "region_is (page_content s (mapped_info (procs s ! pi))) (3 + j) (va, np, ty)"
    using forkable_region(4) [OF fk j(1)] j(2) by simp
  have step: "runs_to (kbind (load64 (region_va (mapped_info (procs s ! pi)) (of_nat (3 + j)))) (\<lambda>va. fork_page ty ci (root_of s pi) (va + of_nat i * PGSIZE))) u (\<lambda>_. ?J (Suc i))"
    if i: "i < unat np" and J: "?J i u" for i u
  proof -
    obtain g' M' where fo': "forking s pi ci xs st n (?L i) g' M' u" and M': "\<forall>p. p \<notin> tabs (mem s) (root_of s ci) \<union> set xs \<longrightarrow> M' p = M p"
      using J by blast
    have pg: "region_pages (R ! j) ! i = (va + of_nat i * 4096, ty)" using i j(2) by (simp add: region_pages_def)
    obtain rest where rest: "all_pages R = ?L i @ (va + of_nat i * 4096, ty) # rest"
      using all_pages_take [OF j(1), of i] i len pg by auto
    have "runs_to (fork_page ty ci (root_of s pi) (va + of_nat i * 4096)) u (\<lambda>_ v. \<exists>g' M''. forking s pi ci xs st n (?L i @ [(va + of_nat i * 4096, ty)]) g' M'' v \<and>
      (\<forall>p. p \<notin> tabs (mem s) (root_of s ci) \<union> set xs \<longrightarrow> M'' p = M' p))"
      using forkable_region(5) [OF fk] unfolding rest
      by (intro page_step [OF fk fo']) (simp_all only: rest, auto)
    moreover have "?L i @ [(va + of_nat i * 4096, ty)] = ?L (Suc i)" using i len pg by (simp add: take_Suc_conv_app_nth)
    ultimately have "runs_to (fork_page ty ci (root_of s pi) (va + of_nat i * 4096)) u (\<lambda>_. ?J (Suc i))"
      using M' by (auto elim!: runs_to_weaken)
    then show ?thesis using forking_region_loads(1) [OF fk fo' r j3] by (simp add: runs_to_iff kdefs)
  qed
  have "runs_to (kfor [0..<unat np] (\<lambda>i. kbind (load64 (region_va (mapped_info (procs s ! pi)) (of_nat (3 + j))))
      (\<lambda>va. fork_page ty ci (root_of s pi) (va + of_nat i * PGSIZE)))) t (\<lambda>_. ?J (unat np))"
    using step fo by (intro runs_to_kfor_upt) auto
  then show ?thesis
    using forking_region_loads(2) [OF fk fo r j3] len all_pages_Suc [OF j(1)]
    by (simp add: fork_pages_def runs_to_iff kdefs)
qed

section \<open>All regions\<close>

definition fork_done :: "kstate \<Rightarrow> nat \<Rightarrow> nat \<Rightarrow> u64 list \<Rightarrow> u64 \<Rightarrow> region list \<Rightarrow> nat \<Rightarrow> (u64 \<Rightarrow> u64) \<Rightarrow> (u64 \<Rightarrow> u64 \<Rightarrow> u64) \<Rightarrow> kstate \<Rightarrow> bool" where
  "fork_done s pi ci xs st R j g M t \<longleftrightarrow> forking s pi ci xs st j (all_pages (take j R)) g M t \<and>
     M st = page_content s (parent_page s pi (USER_STACK_TOP - 4096)) \<and>
     (\<forall>k. unat k < 280 \<longrightarrow> M (trapframe (procs s ! ci)) k = page_content s (trapframe (procs s ! pi)) k) \<and>
     (\<forall>i < j. region_is (M (mapped_info (procs s ! ci))) (3 + i) (R ! i))"

lemma forkable_child:
  assumes "forkable s pi ci xs st R" and "p \<in> {trapframe (procs s ! ci), mapped_info (procs s ! ci), st}"
  shows "page_ok s p" "p \<notin> set xs" "p \<notin> tabs (mem s) (root_of s ci)" "p \<in> child_pages s ci st"
proof -
  show "page_ok s p" "p \<notin> set xs" "p \<notin> tabs (mem s) (root_of s ci)"
    using assms unfolding forkable_def child_ready_def Let_def by blast+
  show "p \<in> child_pages s ci st" using assms(2) by (auto simp: child_pages_def)
qed

lemma forkable_child_fields:
  assumes "forkable s pi ci xs st R"
  shows "ci < length (procs s)" "distinct [trapframe (procs s ! ci), mapped_info (procs s ! ci), st]"
    "page_content s (mapped_info (procs s ! ci)) 0 = USER_STACK_TOP - 4096"
    "leads_to (vmap (mem s) (root_of s ci) (USER_STACK_TOP - 4096)) st" "total_mapped_region (procs s ! ci) = 3"
  using assms unfolding forkable_def child_ready_def Let_def by blast+

lemma forking_procs:
  assumes fk: "forkable s pi ci xs st R" and fo: "forking s pi ci xs st n L g M t"
  shows "procs t ! pi = (procs s ! pi)\<lparr>total_mem_count := total_mem_count (procs t ! pi)\<rparr>"
    "trapframe (procs t ! ci) = trapframe (procs s ! ci)" "mapped_info (procs t ! ci) = mapped_info (procs s ! ci)"
    "pagetable (procs t ! ci) = pagetable (procs s ! ci)"
proof -
  obtain ys where h: "holds (more_regions ci n s) ys M t" using forking_holds [OF fo] by blast
  show "trapframe (procs t ! ci) = trapframe (procs s ! ci)" "mapped_info (procs t ! ci) = mapped_info (procs s ! ci)"
    "pagetable (procs t ! ci) = pagetable (procs s ! ci)"
    using holds_proc_fields [OF h, of ci] forkable_child_fields(1) [OF fk] by (simp_all add: more_regions_procs)
  have "(procs t ! pi)\<lparr>total_mem_count := 0\<rparr> = (procs s ! pi)\<lparr>total_mem_count := 0\<rparr>"
    using holds_proc [OF h, of pi] forkable_region(6, 7) [OF fk] by (simp add: more_regions_procs)
  then show "procs t ! pi = (procs s ! pi)\<lparr>total_mem_count := total_mem_count (procs t ! pi)\<rparr>"
    by (cases "procs t ! pi"; cases "procs s ! pi") simp
qed

lemma forking_parent_fields:
  assumes fk: "forkable s pi ci xs st R" and fo: "forking s pi ci xs st n L g M t"
  shows "trapframe (procs t ! pi) = trapframe (procs s ! pi)" "mapped_info (procs t ! pi) = mapped_info (procs s ! pi)"
    "pagetable (procs t ! pi) = pagetable (procs s ! pi)"
  by (subst forking_procs(1) [OF fk fo], simp)+

lemma forkable_types: "forkable s pi ci xs st R \<Longrightarrow> (va, np, ty) \<in> set R \<Longrightarrow> ty = CODE_SEGMENT \<or> ty = DATA_SEGMENT"
  unfolding forkable_def parent_ready_def Let_def by blast

lemma region_is_upd:
  assumes "j < 256" "i < 256"
  shows "region_is (c(16 * of_nat j := va, 16 * of_nat j + 8 := halves np ty)) i r \<longleftrightarrow>
    (if i = j then r = (va, np, ty) else region_is c i r)"
proof -
  have u: "unat (16 * of_nat k :: u64) = 16 * k" "unat (16 * of_nat k + 8 :: u64) = 16 * k + 8" if "k < 256" for k :: nat
    using that by (simp_all add: unat_word_ariths unat_of_nat)
  have e: "(16 * of_nat i = (16 * of_nat j :: u64)) \<longleftrightarrow> i = j" "(16 * of_nat i + 8 = (16 * of_nat j + 8 :: u64)) \<longleftrightarrow> i = j"
    "16 * of_nat i \<noteq> (16 * of_nat j + 8 :: u64)" "16 * of_nat i + 8 \<noteq> (16 * of_nat j :: u64)"
    using u [OF assms(1)] u [OF assms(2)] by (simp_all add: word_unat_eq_iff) presburger+
  have "halves np ty = halves np' ty' \<longleftrightarrow> np = np' \<and> ty = ty'" for np' ty' by (metis get_halves)
  then show ?thesis using e by (auto simp: region_is_def split: prod.splits)
qed

lemma region_step:
  assumes fk: "forkable s pi ci xs st R" and fo: "fork_done s pi ci xs st R j g M t" and j: "j < length R"
  shows "runs_to (fork_region pi ci (of_nat (3 + j))) t (\<lambda>_ u. \<exists>g' M'. fork_done s pi ci xs st R (Suc j) g' M' u)"
proof -
  let ?mc = "mapped_info (procs s ! ci)" and ?mp = "mapped_info (procs s ! pi)" and ?tf = "trapframe (procs s ! ci)"
  obtain va np ty where r: "R ! j = (va, np, ty)" by (cases "R ! j")
  have f: "forking s pi ci xs st j (all_pages (take j R)) g M t" using fo by (simp add: fork_done_def)
  have j3: "3 + j < 256" using j forkable_region(3) [OF fk] by simp
  have ri: "region_is (page_content s ?mp) (3 + j) (va, np, ty)" using forkable_region(4) [OF fk j] r by simp
  have ty: "ty = CODE_SEGMENT \<or> ty = DATA_SEGMENT"
    using forkable_types [OF fk, of va np ty] nth_mem [OF j] r by simp
  let ?N = "\<lambda>M. (M ?mc)(16 * of_nat (3 + j) := va, 16 * of_nat (3 + j) + 8 := halves np ty)"
  have reg: "runs_to (fork_register ci ?mp (of_nat (3 + j)) ty) u (\<lambda>_. forking s pi ci xs st (Suc j) L g' (M'(?mc := ?N M')))"
    if f': "forking s pi ci xs st j L g' M' u" for L g' M' u
  proof (rule forking_update [OF fk f'])
    fix ys assume "holds (more_regions ci j s) ys M' u" "own (more_regions ci j s) ys ?mc"
    then show "runs_to (fork_register ci ?mp (of_nat (3 + j)) ty) u (\<lambda>_. holds (more_regions ci (Suc j) s) ys (M'(?mc := ?N M')))"
      using forkable_child_fields [OF fk] forkable_region [OF fk] j j3 ri forking_outside [OF f' forkable_region(2) [OF fk]]
        forkable_child(4) [OF fk, of ?mc]
      by (intro holds_register [where ty' = ty]) (auto simp: own_def)
  qed simp
  have "runs_to (kthen (fork_pages (fork_page ty ci (root_of s pi)) ?mp (of_nat (3 + j))) (fork_register ci ?mp (of_nat (3 + j)) ty)) t
      (\<lambda>_ u. \<exists>g' M'. fork_done s pi ci xs st R (Suc j) g' M' u)"
  proof (rule runs_to_kthen [OF pages_loop [OF fk f j r]], elim exE conjE)
    fix u g' M'
    assume f': "forking s pi ci xs st j (all_pages (take (Suc j) R)) g' M' u"
      and M': "\<forall>p. p \<notin> tabs (mem s) (root_of s ci) \<union> set xs \<longrightarrow> M' p = M p"
    have same: "M' p = M p" if "p \<in> {?tf, ?mc, st}" for p using M' forkable_child(2, 3) [OF fk that] by blast
    have "fork_done s pi ci xs st R (Suc j) g' (M'(?mc := ?N M')) v"
      if "forking s pi ci xs st (Suc j) (all_pages (take (Suc j) R)) g' (M'(?mc := ?N M')) v" for v
      unfolding fork_done_def
    proof (intro conjI allI impI)
      have d: "?tf \<noteq> ?mc" "st \<noteq> ?mc" using forkable_child_fields(2) [OF fk] by auto
      show "(M'(?mc := ?N M')) st = page_content s (parent_page s pi (USER_STACK_TOP - 4096))"
        using d same [of st] fo by (simp add: fork_done_def)
      show "(M'(?mc := ?N M')) ?tf k = page_content s (trapframe (procs s ! pi)) k" if "unat k < 280" for k
        using that d same [of ?tf] fo by (simp add: fork_done_def)
      show "region_is ((M'(?mc := ?N M')) ?mc) (3 + i) (R ! i)" if "i < Suc j" for i
        using that fo same [of ?mc] region_is_upd [of "3 + j" "3 + i" "M ?mc" va np ty "R ! i"] j3 r
        by (cases "i = j") (auto simp: fork_done_def less_Suc_eq fun_upd_same simp del: fun_upd_apply of_nat_add)
    qed (fact that)
    then show "runs_to (fork_register ci ?mp (of_nat (3 + j)) ty) u (\<lambda>_ u. \<exists>g' M'. fork_done s pi ci xs st R (Suc j) g' M' u)"
      by (intro runs_to_weaken [OF reg [OF f']] exI)
  qed
  moreover have "fork_region pi ci (of_nat (3 + j)) t =
      kthen (fork_pages (fork_page ty ci (root_of s pi)) ?mp (of_nat (3 + j))) (fork_register ci ?mp (of_nat (3 + j)) ty) t"
    using ty forking_region_loads(3) [OF fk f ri j3] forking_parent_fields [OF fk f]
    unfolding fork_region_def the_proc_def kbind_eq kget_eq sum.case prod.case
    by (elim disjE) (simp_all add: fork_page_def)
  ultimately show ?thesis by (simp add: runs_to_def wp_def)
qed

text \<open>Stack, trapframe and trap vector.\<close>

lemma stack_step:
  assumes fk: "forkable s pi ci xs st R" and fo: "forking s pi ci xs st 0 [] g (page_content s) s"
  shows "runs_to (fork_region pi ci 0) s (\<lambda>_. forking s pi ci xs st 0 [] g
    ((page_content s)(st := page_content s (parent_page s pi (USER_STACK_TOP - 4096)))))"
proof -
  let ?v = "USER_STACK_TOP - 4096 :: u64" and ?mc = "mapped_info (procs s ! ci)" and ?mp = "mapped_info (procs s ! pi)"
  obtain k T where at: "forked_at s ci xs st 0 k T (child_map (vmap (mem s) (root_of s ci)) [] (parent_page s pi) g) (copies s pi [] g) (page_content s) s"
    using fo unfolding forking_def by blast
  note h = forked_at_holds [OF at]
  have v: "unat ?v < 0x4000000000" by (simp add: USER_STACK_TOP_def)
  have "child_map (vmap (mem s) (root_of s ci)) [] (parent_page s pi) g = vmap (mem s) (root_of s ci)" by (simp add: child_map_def)
  then have "space (more_regions ci 0 s) (drop k xs) (page_content s) (root_of s ci) T (vmap (mem s) (root_of s ci)) s"
    using at by (simp add: forked_at_def)
  from space_lookup [OF this v] have look: "lookup_pa (root_of s ci) ?v s = Inr (st, s)"
    using forkable_child_fields(4) [OF fk] unfolding leads_to_def by blast
  have look': "lookup_pa (root_of s pi) ?v s = Inr (parent_page s pi ?v, s)" by (rule forking_lookup_parent [OF fk at]) simp
  have "load64 ?mc s = Inr (?v, s)"
    using holds_load64 [OF h, of ?mc 0] forkable_child(1) [OF fk, of ?mc] forkable_child_fields(3) [OF fk] by (auto simp: runs_to_iff)
  moreover obtain np where "region_is (page_content s ?mp) 0 (?v, np, STACK_SEGMENT)"
    using fk unfolding forkable_def parent_ready_def Let_def by blast
  note ld = forking_region_loads [OF fk fo this, simplified]
  ultimately have eq: "fork_region pi ci 0 s = kbind (memcpy st (parent_page s pi ?v) PGSIZE) (\<lambda>_. kret ()) s"
    using ld look look' by (simp add: fork_region_def the_proc_def kdefs)
  have pp: "page_ok s (parent_page s pi ?v)" "st \<noteq> parent_page s pi ?v"
    using forkable_parent(2, 3) [OF fk, of ?v] by (auto simp: child_pages_def)
  have "runs_to (memcpy st (parent_page s pi ?v) PGSIZE) s (\<lambda>_. forking s pi ci xs st 0 [] g ((page_content s)(st := page_content s (parent_page s pi ?v))))"
    using pp by (intro forking_update [OF fk fo]) (auto intro: holds_memcpy)
  then show ?thesis unfolding runs_to_iff eq by (auto simp: kdefs)
qed

lemma context_step:
  assumes fk: "forkable s pi ci xs st R" and fo: "forking s pi ci xs st 0 [] g M t"
  shows "runs_to (fork_region pi ci 1) t (\<lambda>_. forking s pi ci xs st 0 [] g
    (M(trapframe (procs s ! ci) := \<lambda>k. if unat k < 280 then page_content s (trapframe (procs s ! pi)) k else M (trapframe (procs s ! ci)) k)))"
proof -
  let ?tc = "trapframe (procs s ! ci)" and ?tp = "trapframe (procs s ! pi)"
  obtain va np where "region_is (page_content s (mapped_info (procs s ! pi))) 1 (va, np, CONTEXT_SEGMENT)"
    using fk unfolding forkable_def parent_ready_def Let_def by blast
  from forking_region_loads(3) [OF fk fo this] have eq: "fork_region pi ci 1 t = copy_trapframe ?tc ?tp t"
    using forking_parent_fields [OF fk fo] forking_procs(2-4) [OF fk fo] by (simp add: fork_region_def the_proc_def kdefs)
  have tp: "page_ok s ?tp" "?tp \<notin> child_pages s ci st \<union> set xs"
    using fk unfolding forkable_def parent_ready_def Let_def by blast+
  then have "?tc \<noteq> ?tp" using forkable_child(4) [OF fk, of ?tc] by auto
  then have "runs_to (copy_trapframe ?tc ?tp) t (\<lambda>_. forking s pi ci xs st 0 [] g
      (M(?tc := \<lambda>k. if unat k < 280 then M ?tp k else M ?tc k)))"
    using tp(1) by (intro forking_update [OF fk fo] holds_copy_trapframe) auto
  then show ?thesis unfolding runs_to_def wp_def eq forking_outside [OF fo tp(2)] .
qed

lemma system_step:
  assumes fk: "forkable s pi ci xs st R" and fo: "forking s pi ci xs st n L g M t"
  shows "fork_region pi ci 2 t = Inr ((), t)"
proof -
  obtain va np where "region_is (page_content s (mapped_info (procs s ! pi))) 2 (va, np, SYSTEM_SEGMENT)"
    using fk unfolding forkable_def parent_ready_def Let_def by blast
  from forking_region_loads(3) [OF fk fo this] show ?thesis
    using forking_parent_fields [OF fk fo] by (simp add: fork_region_def the_proc_def kdefs)
qed

lemma first_regions:
  assumes fk: "forkable s pi ci xs st R"
  shows "runs_to (kfor [0..<3] (\<lambda>j. fork_region pi ci (of_nat j))) s (\<lambda>_ t. \<exists>g M. fork_done s pi ci xs st R 0 g M t)"
proof -
  have "child_ready s ci xs st" using fk by (simp add: forkable_def)
  then have f0: "forking s pi ci xs st 0 [] id (page_content s) s" by (rule forking_start)
  obtain t1 M1 where t1: "fork_region pi ci 0 s = Inr ((), t1)" "forking s pi ci xs st 0 [] id M1 t1"
      "M1 st = page_content s (parent_page s pi (USER_STACK_TOP - 4096))"
    using stack_step [OF fk f0] by (auto simp: runs_to_iff intro: that)
  have "trapframe (procs s ! ci) \<noteq> st" using forkable_child_fields(2) [OF fk] by auto
  with t1(3) obtain t2 M2 where t2: "fork_region pi ci 1 t1 = Inr ((), t2)" "forking s pi ci xs st 0 [] id M2 t2"
      "M2 st = page_content s (parent_page s pi (USER_STACK_TOP - 4096))"
      "\<forall>k. unat k < 280 \<longrightarrow> M2 (trapframe (procs s ! ci)) k = page_content s (trapframe (procs s ! pi)) k"
    using context_step [OF fk t1(2)] by (auto simp: runs_to_iff intro: that)
  then have "fork_done s pi ci xs st R 0 id M2 t2" by (simp add: fork_done_def all_pages_def)
  moreover have "kfor [0..<3] (\<lambda>j. fork_region pi ci (of_nat j)) s = Inr ((), t2)"
    using t1(1) t2(1) system_step [OF fk t2(2)] by (simp add: numeral_3_eq_3 upt_rec kdefs)
  ultimately show ?thesis by (auto simp: runs_to_iff)
qed

lemma regions_loop:
  assumes fk: "forkable s pi ci xs st R"
  shows "runs_to (kfor [0..<nat (sint (total_mapped_region (procs s ! pi)))] (\<lambda>j. fork_region pi ci (of_nat j))) s
    (\<lambda>_ t. \<exists>g M. fork_done s pi ci xs st R (length R) g M t)"
proof -
  let ?n = "length R"
  have "sint (of_nat (3 + ?n) :: i32) = int (3 + ?n)"
    using forkable_region(3) [OF fk]
    by (simp del: of_nat_add add: sint_uint unsigned_of_nat take_bit_nat_eq_self signed_take_bit_int_eq_self take_bit_int_eq_self)
  then have l: "[0..<nat (sint (total_mapped_region (procs s ! pi)))] = [0..<3] @ [3..<3 + ?n]"
    using forkable_region(8) [OF fk] upt_add_eq_append [of 0 3 ?n] by (simp del: of_nat_add)
  have r: "runs_to (kfor [3..<3 + ?n] (\<lambda>j. fork_region pi ci (of_nat j))) t (\<lambda>_ t. \<exists>g M. fork_done s pi ci xs st R (3 + ?n - 3) g M t)"
    if "\<exists>g M. fork_done s pi ci xs st R 0 g M t" for t
  proof (rule runs_to_kfor_upt [where J = "\<lambda>i t. \<exists>g M. fork_done s pi ci xs st R (i - 3) g M t"])
    fix i u assume i: "3 \<le> i" "i < 3 + ?n" and "\<exists>g M. fork_done s pi ci xs st R (i - 3) g M u"
    then obtain g M where d: "fork_done s pi ci xs st R (i - 3) g M u" by blast
    have e: "i - 3 < ?n" "3 + (i - 3) = i" "Suc (i - 3) = Suc i - 3" using i by simp_all
    show "runs_to (fork_region pi ci (of_nat i)) u (\<lambda>_ t. \<exists>g M. fork_done s pi ci xs st R (Suc i - 3) g M t)"
      using region_step [OF fk d e(1)] unfolding e(2, 3) .
  qed (use that in simp_all)
  show ?thesis
    unfolding l kfor_append by (rule runs_to_kthen [OF first_regions [OF fk] r [unfolded diff_add_inverse]])
qed

section \<open>Making the child ready\<close>

definition as_child :: "nat \<Rightarrow> process \<Rightarrow> process" where
  "as_child pi c = c\<lparr>parent := Some pi, tick_count := 0, total_tick_count := 0, total_mem_count := total_mapped_region c\<rparr>"

lemma count_child: "p\<lparr>total_mem_count := 0\<rparr> = q\<lparr>total_mem_count := 0\<rparr> \<Longrightarrow>
    (as_child i p)\<lparr>total_mem_count := 0\<rparr> = (as_child i q)\<lparr>total_mem_count := 0\<rparr>" for p q :: process
  by (cases p; cases q) (simp add: as_child_def)

lemma count_ready: "p\<lparr>total_mem_count := 0\<rparr> = q\<lparr>total_mem_count := 0\<rparr> \<Longrightarrow>
    p\<lparr>status := READY\<rparr>\<lparr>total_mem_count := 0\<rparr> = q\<lparr>status := READY\<rparr>\<lparr>total_mem_count := 0\<rparr>" for p q :: process
  by (cases p; cases q) simp

lemma ready_queue_upd: "i \<notin> set q \<Longrightarrow> ready_queue (upd_proc i g b) q = ready_queue b q"
proof -
  assume "i \<notin> set q"
  then have "chain (\<lambda>j. queue_next ((procs b)[i := g (procs b ! i)] ! j)) (ready_queue_head b) q =
      chain (\<lambda>j. queue_next (procs b ! j)) (ready_queue_head b) q"
    by (intro chain_cong) (metis nth_list_update_neq)
  then show ?thesis by (simp add: ready_queue_def upd_proc_def)
qed

lemma holds_ready_queue:
  assumes "holds b ys M t" and "ready_queue b q"
  shows "ready_queue t q"
proof -
  have e: "mem_erase t = mem_erase b" using assms(1) by (simp add: holds_def)
  have "queue_next (procs t ! i) = queue_next (procs b ! i)" if "i < length (procs b)" for i
    using arg_cong [OF holds_proc [OF assms(1) that], of queue_next] by simp
  then have "chain (\<lambda>i. queue_next (procs t ! i)) (ready_queue_head t) q"
    using assms(2) mem_eraseD [OF e] chain_cong [of q "\<lambda>i. queue_next (procs t ! i)" "\<lambda>i. queue_next (procs b ! i)"]
    by (auto simp: ready_queue_def)
  then show ?thesis using assms(2) mem_eraseD [OF e] by (simp add: ready_queue_def)
qed

lemma as_child_cong: "p\<lparr>total_mem_count := 0\<rparr> = q\<lparr>total_mem_count := 0\<rparr> \<Longrightarrow> as_child i p = as_child i q" for p q :: process
  by (cases p; cases q) (simp add: as_child_def)

lemma fork_finish:
  assumes h: "holds b ys M t" and ci: "ci < length (procs b)" and tf: "own b ys (trapframe (procs b ! ci))"
    and q: "ready_queue b q" "ci \<notin> set q"
  defines "tc \<equiv> trapframe (procs b ! ci)"
  shows "runs_to (kthen (set_proc ci (\<lambda>c. c\<lparr>status := READY\<rparr>))
      (kbind (the_proc ci) (\<lambda>c. kthen (store64 (trapframe c + TF_A0) 0)
      (kthen (set_proc ci (as_child pi)) (kthen (insert_to_ready_queue ci) (kbind (the_proc ci) (\<lambda>c. kret (ucast (pid c))))))))) t
    (\<lambda>r u. r = (ucast (pid (procs b ! ci)) :: i32) \<and> ready_queue u (q @ [ci]) \<and>
      (\<exists>w b'. mem u = mem w \<and> page_ok b' = page_ok b \<and> holds b' ys (M(tc := (M tc)(TF_A0 := 0))) w) \<and>
      (procs u ! ci)\<lparr>queue_next := None\<rparr> = as_child pi ((procs b ! ci)\<lparr>status := READY, queue_next := None\<rparr>))"
proof -
  let ?ready = "\<lambda>c. c\<lparr>status := READY\<rparr>"
  define b1 t1 b3 where "b1 = upd_proc ci ?ready b" and "t1 = upd_proc ci ?ready t" and "b3 = upd_proc ci (as_child pi) b1"
  let ?M = "M(tc := (M tc)(TF_A0 := 0))"
  have ci1: "ci < length (procs b1)" and pb1: "procs b1 ! ci = ?ready (procs b ! ci)" and ok: "page_ok b1 = page_ok b" "page_ok b3 = page_ok b"
    using ci by (simp_all add: b1_def b3_def upd_proc_def)
  have s1: "set_proc ci ?ready t = Inr ((), t1)" and h1: "holds b1 ys M t1"
    using holds_upd_proc [OF h count_ready ci] by (simp_all add: set_proc_def runs_to_iff kdefs b1_def t1_def)
  have "own b1 ys tc" using tf by (simp add: own_def ok tc_def)
  then obtain t2 where s2: "store64 (tc + TF_A0) 0 t1 = Inr ((), t2)" and h2: "holds b1 ys ?M t2"
    using holds_store64 [OF h1, of tc TF_A0 0] by (auto simp: runs_to_iff)
  define t3 where "t3 = upd_proc ci (as_child pi) t2"
  have s3: "set_proc ci (as_child pi) t2 = Inr ((), t3)" and h3: "holds b3 ys ?M t3"
    using holds_upd_proc [OF h2 count_child ci1] by (simp_all add: set_proc_def runs_to_iff kdefs b3_def t3_def)
  have "ready_queue b3 q" using q by (simp add: b3_def b1_def ready_queue_upd)
  then have "ready_queue t3 q" using holds_ready_queue [OF h3] by blast
  moreover have ci3: "ci < length (procs t3)" using ci1 mem_eraseD(6) [of t2 b1] h2 by (simp add: t3_def upd_proc_def holds_def)
  ultimately obtain u where u: "insert_to_ready_queue ci t3 = Inr ((), u)" "ready_queue u (q @ [ci])" "mem u = mem t3"
      "status (procs u ! ci) = READY"
      "(procs u ! ci)\<lparr>status := READY, queue_next := None\<rparr> = (procs t3 ! ci)\<lparr>status := READY, queue_next := None\<rparr>"
    using insert_new [OF _ q(2)] by metis
  have "procs t3 ! ci = as_child pi (procs t2 ! ci)" using ci3 by (simp add: t3_def upd_proc_def)
  also have "\<dots> = as_child pi (?ready (procs b ! ci))" using holds_proc [OF h2 ci1] by (intro as_child_cong) (simp add: pb1)
  finally have p3: "procs t3 ! ci = as_child pi (?ready (procs b ! ci))" .
  have pu: "(procs u ! ci)\<lparr>queue_next := None\<rparr> = as_child pi ((procs b ! ci)\<lparr>status := READY, queue_next := None\<rparr>)"
    using u(4, 5) unfolding p3 by (cases "procs u ! ci"; cases "procs b ! ci") (simp add: as_child_def)
  have "pid (procs u ! ci) = pid (procs b ! ci)" using arg_cong [where f = pid, OF pu] by (simp add: as_child_def)
  moreover have "trapframe (procs t1 ! ci) = tc" using holds_proc_fields(3) [OF h1 ci1] by (simp add: pb1 tc_def)
  ultimately show ?thesis
    using s1 s2 s3 u(1, 2, 3) pu h3 ok(2) by (auto simp: runs_to_iff kdefs the_proc_def)
qed

section \<open>Fork\<close>

definition same_page :: "kstate \<Rightarrow> u64 \<Rightarrow> kstate \<Rightarrow> u64 \<Rightarrow> bool" where
  "same_page t q s p \<longleftrightarrow> (\<forall>k. unat k < 4096 \<longrightarrow> unat k mod 8 = 0 \<longrightarrow> mem t (q + k) = mem s (p + k))"

lemma fork_into_alt:
  "fork_into pi ci = kbind (the_proc pi) (\<lambda>p.
     kthen (kfor [0..<nat (sint (total_mapped_region p))] (\<lambda>j. fork_region pi ci (of_nat j)))
    (kthen (set_proc ci (\<lambda>c. c\<lparr>status := READY\<rparr>)) (kbind (the_proc ci) (\<lambda>c. kthen (store64 (trapframe c + TF_A0) 0)
    (kthen (set_proc ci (as_child pi)) (kthen (insert_to_ready_queue ci) (kbind (the_proc ci) (\<lambda>c. kret (ucast (pid c))))))))))"
  unfolding fork_into_def as_child_def ..

lemma same_pageI:
  assumes "holds b ys M w" and "mem t = mem w" and "page_ok b q" and "\<And>k. unat k < 4096 \<Longrightarrow> unat k mod 8 = 0 \<Longrightarrow> M q k = page_content s p k"
  shows "same_page t q s p"
  using assms holds_mem [OF assms(1)] by (simp add: same_page_def page_content_def)

lemma trapframe_words:
  assumes "\<forall>k. unat k < 280 \<longrightarrow> N k = page_content s p k" and "k < 35"
  shows "unat (8 * of_nat k :: u64) = 8 * k" "(N(TF_A0 := 0)) (8 * of_nat k) = (if k = 9 then 0 else mem s (p + 8 * of_nat k))"
proof -
  show u: "unat (8 * of_nat k :: u64) = 8 * k" using assms(2) by (simp add: unat_word_ariths unat_of_nat)
  then have "8 * of_nat k = TF_A0 \<longleftrightarrow> k = 9" by (auto simp: word_unat_eq_iff)
  with u show "(N(TF_A0 := 0)) (8 * of_nat k) = (if k = 9 then 0 else mem s (p + 8 * of_nat k))"
    using assms by (simp add: page_content_def)
qed

lemma holds_region:
  assumes h: "holds b ys M w" and p: "page_ok b mi" and j: "j < 256" and t: "mem t = mem w" and r: "region_is (M mi) j r"
  shows "region_is (page_content t mi) j r"
proof -
  have "unat (16 * of_nat j :: u64) = 16 * j" "unat (16 * of_nat j + 8 :: u64) = 16 * j + 8"
    using j by (simp_all add: unat_word_ariths unat_of_nat)
  then have "unat (16 * of_nat j :: u64) < 4096" "unat (16 * of_nat j :: u64) mod 8 = 0"
    "unat (16 * of_nat j + 8 :: u64) < 4096" "unat (16 * of_nat j + 8 :: u64) mod 8 = 0" using j by presburger+
  with holds_mem [OF h p] r t show ?thesis by (simp add: region_is_def page_content_def split: prod.splits)
qed

lemma fork_memory:
  assumes fk: "forkable s pi ci xs st R" and dn: "fork_done s pi ci xs st R (length R) g M u"
    and at: "forked_at s ci xs st n k T (child_map (vmap (mem s) (root_of s ci)) (all_pages R) (parent_page s pi) g) (copies s pi (all_pages R) g) M u"
    and h: "holds b (drop k xs) (M(trapframe (procs s ! ci) := (M (trapframe (procs s ! ci)))(TF_A0 := 0))) w"
    and b: "page_ok b = page_ok s" and t: "mem t = mem w"
  shows "\<forall>vb. unat vb < 0x4000000000 \<longrightarrow> vmap (mem t) (root_of s ci) vb =
       child_map (vmap (mem s) (root_of s ci)) (all_pages R) (parent_page s pi) g vb"
    and "\<forall>va \<in> seg_pages (all_pages R) DATA_SEGMENT.
       g va \<in> set xs - tabs (mem t) (root_of s ci) \<and> same_page t (g va) s (parent_page s pi va)"
    and "same_page t st s (parent_page s pi (USER_STACK_TOP - 4096))"
    and "\<forall>k < 35. mem t (trapframe (procs s ! ci) + 8 * of_nat k) =
       (if k = 9 then 0 else mem s (trapframe (procs s ! pi) + 8 * of_nat k))"
    and "\<forall>j < length R. region_is (page_content t (mapped_info (procs s ! ci))) (3 + j) (R ! j)"
    and "\<forall>p. page_ok s p \<longrightarrow> p \<notin> child_pages s ci st \<union> set xs \<longrightarrow> same_page t p s p"
proof -
  let ?tc = "trapframe (procs s ! ci)" and ?mc = "mapped_info (procs s ! ci)"
  let ?M = "M(?tc := (M ?tc)(TF_A0 := 0))" and ?f = "child_map (vmap (mem s) (root_of s ci)) (all_pages R) (parent_page s pi) g"
  note ch = forkable_child [OF fk] and d = forkable_child_fields(2) [OF fk]
  have sp: "space (more_regions ci n s) (drop k xs) M (root_of s ci) T ?f u" and T: "T \<subseteq> tabs (mem s) (root_of s ci) \<union> set (take k xs)"
    using at by (simp_all add: forked_at_def)
  have tc: "?tc \<notin> T" using ch(2, 3) [of ?tc] T set_take_subset [of k xs] by blast
  have "space b (drop k xs) ?M (root_of s ci) T ?f w"
  proof (rule space_move [OF sp h])
    show "T \<inter> set (drop k xs) = {}" using sp by (simp add: space_def)
    show "?M p = M p" if "p \<in> T" for p using that tc by auto
  qed (simp add: b)
  then have sw: "tabs (mem t) (root_of s ci) = T" "\<And>vb. unat vb < 0x4000000000 \<Longrightarrow> vmap (mem t) (root_of s ci) vb = ?f vb"
    by (simp_all add: space_def t)
  then show "\<forall>vb. unat vb < 0x4000000000 \<longrightarrow> vmap (mem t) (root_of s ci) vb = ?f vb" by blast
  show "\<forall>va \<in> seg_pages (all_pages R) DATA_SEGMENT. g va \<in> set xs - tabs (mem t) (root_of s ci) \<and> same_page t (g va) s (parent_page s pi va)"
  proof
    fix va assume "va \<in> seg_pages (all_pages R) DATA_SEGMENT"
    then have "(g va, parent_page s pi va) \<in> copies s pi (all_pages R) g" by (simp add: copies_def)
    then have va: "g va \<in> set (take k xs) - T" "M (g va) = page_content s (parent_page s pi va)"
      using at unfolding forked_at_def by blast+
    then have x: "g va \<in> set xs" "g va \<noteq> ?tc" "page_ok s (g va)"
      using ch(2) [of ?tc] fk by (auto simp: forkable_def child_ready_def Let_def pt_ok_def free_pages_def dest: in_set_takeD)
    then show "g va \<in> set xs - tabs (mem t) (root_of s ci) \<and> same_page t (g va) s (parent_page s pi va)"
      using va sw(1) by (auto intro!: same_pageI [OF h t] simp: b)
  qed
  show "same_page t st s (parent_page s pi (USER_STACK_TOP - 4096))"
    using ch(1) [of st] d dn by (intro same_pageI [OF h t]) (auto simp: b fork_done_def)
  show "\<forall>k < 35. mem t (?tc + 8 * of_nat k) = (if k = 9 then 0 else mem s (trapframe (procs s ! pi) + 8 * of_nat k))"
  proof (intro allI impI)
    fix k :: nat assume k: "k < 35"
    have w: "\<forall>k. unat k < 280 \<longrightarrow> M ?tc k = page_content s (trapframe (procs s ! pi)) k" using dn by (simp add: fork_done_def)
    have "mem t (?tc + 8 * of_nat k) = ?M ?tc (8 * of_nat k)"
      unfolding t using ch(1) [of ?tc] trapframe_words(1) [OF w k] k by (intro holds_mem [OF h]) (simp_all add: b)
    then show "mem t (?tc + 8 * of_nat k) = (if k = 9 then 0 else mem s (trapframe (procs s ! pi) + 8 * of_nat k))"
      using trapframe_words(2) [OF w k] by (simp only: fun_upd_same)
  qed
  show "\<forall>j < length R. region_is (page_content t ?mc) (3 + j) (R ! j)"
    using ch(1) [of ?mc] d dn forkable_region(3) [OF fk]
    by (intro allI impI holds_region [OF h _ _ t]) (auto simp: b fork_done_def)
  show "\<forall>p. page_ok s p \<longrightarrow> p \<notin> child_pages s ci st \<union> set xs \<longrightarrow> same_page t p s p"
    using forked_at_outside [OF at] ch(4) [of ?tc] by (intro allI impI same_pageI [OF h t]) (auto simp: b)
qed

text \<open>
  C10: when \<^verbatim>\<open>do_fork\<close> has got a process with an address space as \<^verbatim>\<open>alloc_process\<close> leaves it, and the parent's
  regions are its stack, its trapframe, the trap vector and any number of code and data segments in
  mapped pages, the rest of \<^verbatim>\<open>do_fork\<close> returns the child's number, and afterwards: the child's page table
  maps each code page to the parent's page and each data page to a page of its own, no two alike, that
  was free and holds a copy of the parent's; other addresses are mapped as before. The stack is a
  copy, the trapframe is a copy but for a0, which is 0, the regions are recorded in the child,
  the child is ready, has the parent recorded and is last in the ready queue. No page but those of the child and
  those that were free has changed.
\<close>

theorem fork_copies:
  assumes "forkable s pi ci xs st R" and "ready_queue s q" and "ci \<notin> set q"
  shows "\<exists>t g. fork_into pi ci s = Inr (ucast (pid (procs s ! ci)), t) \<and>
    (\<forall>vb. unat vb < 0x4000000000 \<longrightarrow> vmap (mem t) (root_of s ci) vb =
       child_map (vmap (mem s) (root_of s ci)) (all_pages R) (parent_page s pi) g vb) \<and>
    inj_on g (seg_pages (all_pages R) DATA_SEGMENT) \<and>
    (\<forall>va \<in> seg_pages (all_pages R) DATA_SEGMENT.
       g va \<in> set xs - tabs (mem t) (root_of s ci) \<and> same_page t (g va) s (parent_page s pi va)) \<and>
    same_page t st s (parent_page s pi (USER_STACK_TOP - 4096)) \<and>
    (\<forall>k < 35. mem t (trapframe (procs s ! ci) + 8 * of_nat k) =
       (if k = 9 then 0 else mem s (trapframe (procs s ! pi) + 8 * of_nat k))) \<and>
    (\<forall>j < length R. region_is (page_content t (mapped_info (procs s ! ci))) (3 + j) (R ! j)) \<and>
    (procs t ! ci)\<lparr>queue_next := None\<rparr> = as_child pi ((procs s ! ci)\<lparr>status := READY, queue_next := None,
       total_mapped_region := of_nat (3 + length R)\<rparr>) \<and> ready_queue t (q @ [ci]) \<and>
    (\<forall>p. page_ok s p \<longrightarrow> p \<notin> child_pages s ci st \<union> set xs \<longrightarrow> same_page t p s p)"
proof -
  let ?root = "root_of s ci" and ?b = "more_regions ci (length R) s"
  note fk = assms(1) and c = forkable_child_fields [OF assms(1)]
  obtain t1 g M where t1: "kfor [0..<nat (sint (total_mapped_region (procs s ! pi)))] (\<lambda>j. fork_region pi ci (of_nat j)) s = Inr ((), t1)"
    and dn: "fork_done s pi ci xs st R (length R) g M t1"
    using regions_loop [OF fk] by (auto simp: runs_to_iff)
  obtain k T where inj: "inj_on g (seg_pages (all_pages R) DATA_SEGMENT)"
    and at: "forked_at s ci xs st (length R) k T (child_map (vmap (mem s) ?root) (all_pages R) (parent_page s pi) g) (copies s pi (all_pages R) g) M t1"
    using dn by (auto simp: fork_done_def forking_def)
  have pb: "procs ?b ! ci = (procs s ! ci)\<lparr>total_mapped_region := of_nat (3 + length R)\<rparr>"
    using c by (simp add: more_regions_procs)
  have own: "own ?b (drop k xs) (trapframe (procs ?b ! ci))"
    using forkable_child(1, 2) [OF fk, of "trapframe (procs s ! ci)"] by (auto simp: pb own_def dest: in_set_dropD)
  have q: "ready_queue ?b q" using assms(2, 3) by (simp add: more_regions_def ready_queue_upd)
  from fork_finish [OF forked_at_holds [OF at] _ own q assms(3), of pi] c(1)
  obtain t w b' where t: "fork_into pi ci s = Inr (ucast (pid (procs s ! ci)), t)" "ready_queue t (q @ [ci])" "mem t = mem w" "page_ok b' = page_ok s"
      "holds b' (drop k xs) (M(trapframe (procs s ! ci) := (M (trapframe (procs s ! ci)))(TF_A0 := 0))) w"
      "(procs t ! ci)\<lparr>queue_next := None\<rparr> = as_child pi ((procs ?b ! ci)\<lparr>status := READY, queue_next := None\<rparr>)"
    using t1 unfolding pb by (auto simp: runs_to_iff fork_into_alt the_proc_def kdefs)
  note m = fork_memory [OF fk dn at t(5, 4, 3)]
  have "as_child pi ((procs ?b ! ci)\<lparr>status := READY, queue_next := None\<rparr>) = as_child pi ((procs s ! ci)\<lparr>status := READY, queue_next := None,
       total_mapped_region := of_nat (3 + length R)\<rparr>)"
    unfolding pb by (cases "procs s ! ci") simp
  with t(1, 2, 6) inj m show ?thesis by (intro exI [of _ t] exI [of _ g] conjI) simp_all
qed

section \<open>An example\<close>

lemma space_map_two:
  assumes s1: "space b xs M r1 T1 f1 s" and s2: "space b xs M r2 T2 f2 s" and d: "T1 \<inter> T2 = {}"
    and va: "page_va va" "f1 va = None" and xs: "2 \<le> length xs"
  shows "\<exists>t j M' T1'. map_pages r1 va 4096 pa perm s = Inr (0, t) \<and> j \<le> 2 \<and>
    space b (drop j xs) M' r1 T1' (map_leaf f1 va pa perm) t \<and> space b (drop j xs) M' r2 T2 f2 t \<and>
    T1' \<inter> T2 = {} \<and> T1' \<subseteq> T1 \<union> set xs \<and> (\<forall>p. p \<notin> T1 \<union> set xs \<longrightarrow> M' p = M p)"
proof -
  obtain t j M' T1' where t: "map_pages r1 va 4096 pa perm s = Inr (0, t)" "j \<le> 2"
      "space b (drop j xs) M' r1 T1' (map_leaf f1 va pa perm) t" "T1 \<subseteq> T1'" "T1' \<subseteq> T1 \<union> set (take j xs)"
      "\<And>p. p \<notin> T1' \<Longrightarrow> M' p = M p"
    using space_map [OF s1 _ _ va(2) xs] va(1) unfolding page_va_def by blast
  have sub: "set (take j xs) \<subseteq> set xs" "set (drop j xs) \<subseteq> set xs" by (simp_all add: set_take_subset set_drop_subset)
  have T2: "T2 \<inter> set xs = {}" using s2 by (simp add: space_def)
  then have d': "T1' \<inter> T2 = {}" using d t(5) sub by blast
  have "space b (drop j xs) M' r2 T2 f2 t"
    by (rule space_move [OF s2 space_holds [OF t(3)]]) (use d' t(6) T2 sub in blast)+
  moreover have "T1' \<subseteq> T1 \<union> set xs" "\<And>p. p \<notin> T1 \<union> set xs \<Longrightarrow> M' p = M p" using t(5, 6) sub by blast+
  ultimately show ?thesis using t(1-3) d' by blast
qed

definition fd_free :: "u64 list" where
  "fd_free = [0x80030000, 0x80031000, 0x80032000, 0x80033000, 0x80034000, 0x80035000, 0x80036000,
     0x80037000, 0x80038000, 0x80039000, 0x8003a000, 0x8003b000, 0x8003c000, 0x8003d000]"

definition fd_regions :: "region list" where
  "fd_regions = [(0x10000, 1, CODE_SEGMENT), (0x11000, 1, DATA_SEGMENT)]"

definition fd_mem :: "u64 \<Rightarrow> u64" where
  "fd_mem = (\<lambda>_. 0)(0x80030000 := 0x80031000, 0x80031000 := 0x80032000, 0x80032000 := 0x80033000,
     0x80033000 := 0x80034000, 0x80034000 := 0x80035000, 0x80035000 := 0x80036000, 0x80036000 := 0x80037000,
     0x80037000 := 0x80038000, 0x80038000 := 0x80039000, 0x80039000 := 0x8003a000, 0x8003a000 := 0x8003b000,
     0x8003b000 := 0x8003c000, 0x8003c000 := 0x8003d000,
     0x80026000 := USER_STACK_TOP - 4096, 0x80026008 := halves 1 STACK_SEGMENT,
     0x80026010 := 0x80025000, 0x80026018 := halves 1 CONTEXT_SEGMENT,
     0x80026020 := 0x80000000, 0x80026028 := halves 1 SYSTEM_SEGMENT,
     0x80026030 := 0x10000, 0x80026038 := halves 1 CODE_SEGMENT,
     0x80026040 := 0x11000, 0x80026048 := halves 1 DATA_SEGMENT,
     0x8002a000 := USER_STACK_TOP - 4096, 0x80029000 := 42, 0x80027ff8 := 7)"

definition fd_start :: kstate where
  "fd_start = (initial_kstate sample_env 0x40000 fd_mem)
     \<lparr>free_mem_start_addr := 0x80024000, free_mem_end_addr := 0x8003e000, g_free_mem_list := 0x80030000,
      current := Some 0, ready_queue_head := None,
      procs := [zero_process\<lparr>status := READY, pagetable := 0x80024000, trapframe := 0x80025000, mapped_info := 0x80026000, total_mapped_region := 5\<rparr>,
        zero_process\<lparr>pid := 1, pagetable := 0x8002b000, trapframe := 0x8002c000, mapped_info := 0x8002a000, total_mapped_region := 3\<rparr>]\<rparr>"

definition fd_maps :: "unit K" where
  "fd_maps = kbind (map_pages 0x80024000 (USER_STACK_TOP - 4096) 4096 0x80027000 data_perm) (\<lambda>_.
     kbind (map_pages 0x80024000 0x10000 4096 0x80028000 code_perm) (\<lambda>_.
     kbind (map_pages 0x80024000 0x11000 4096 0x80029000 data_perm) (\<lambda>_.
     kbind (map_pages 0x8002b000 (USER_STACK_TOP - 4096) 4096 0x8002d000 data_perm) (\<lambda>_. kret ()))))"

lemma fd_page_ok: "aligned 4096 p \<Longrightarrow> 0x80024000 \<le> p \<Longrightarrow> p \<le> 0x8003d000 \<Longrightarrow> page_ok fd_start p"
  by (auto simp: page_ok_def fd_start_def word_le_nat_alt)

lemma fd_start_free: "free_pages fd_start fd_free"
proof -
  have "pages_from fd_mem 0x80030000 fd_free" by (simp add: fd_free_def fd_mem_def ptr_def)
  moreover have "\<forall>x \<in> set fd_free. page_ok fd_start x"
    by (auto simp: fd_free_def intro!: fd_page_ok) (simp_all add: aligned_def)
  ultimately show ?thesis by (simp add: free_pages_def fd_start_def initial_kstate_def)
qed

lemma fd_start_space:
  assumes "r = 0x80024000 \<or> r = 0x8002b000"
  shows "space fd_start fd_free (page_content fd_start) r {r} (\<lambda>_. None) fd_start"
proof -
  have ok: "page_ok fd_start r" "r \<notin> set fd_free" using assms by (auto intro!: fd_page_ok simp: aligned_def fd_free_def)
  have zero: "mem fd_start a = 0" if "in_block r 4096 a" for a
    using that assms by (auto simp: in_block_def fd_start_def initial_kstate_def fd_mem_def)
  note f = pt_ok_fresh [OF ok(1) fd_start_free ok(2) zero]
  have tr: "tree (mem fd_start) r d va u \<longleftrightarrow> d = 0 \<and> unat va < 0x4000000000 \<and> u = r" for d va u
    by (rule f(3))
  have "tabs (mem fd_start) r = {r}" by (auto simp: tabs_def tr intro!: exI [of _ 0])
  moreover have "holds fd_start fd_free (page_content fd_start) fd_start"
    using holds_start [OF fd_start_free] by (simp add: page_content_def [abs_def])
  ultimately show ?thesis using f(1, 2) ok(2) by (simp add: space_def pt_ok_def)
qed

definition fd_spaces :: "nat \<Rightarrow> (u64 \<Rightarrow> u64 option) \<Rightarrow> (u64 \<Rightarrow> u64 option) \<Rightarrow> kstate \<Rightarrow> bool" where
  "fd_spaces n fp fc s \<longleftrightarrow> (\<exists>xs M Tp Tc. n \<le> length xs \<and> set xs \<subseteq> set fd_free \<and>
     space fd_start xs M 0x80024000 Tp fp s \<and> space fd_start xs M 0x8002b000 Tc fc s \<and> Tp \<inter> Tc = {} \<and>
     Tp \<union> Tc \<subseteq> {0x80024000, 0x8002b000} \<union> set fd_free \<and>
     (\<forall>p. p \<notin> {0x80024000, 0x8002b000} \<union> set fd_free \<longrightarrow> M p = page_content fd_start p))"

lemma fd_map_parent:
  assumes "fd_spaces (n + 2) fp fc s" and "page_va va" and "fp va = None"
  shows "\<exists>t. map_pages 0x80024000 va 4096 pa perm s = Inr (0, t) \<and> fd_spaces n (map_leaf fp va pa perm) fc t"
proof -
  obtain xs M Tp Tc where xs: "n + 2 \<le> length xs" "set xs \<subseteq> set fd_free" and s: "space fd_start xs M 0x80024000 Tp fp s"
      "space fd_start xs M 0x8002b000 Tc fc s" "Tp \<inter> Tc = {}" and T: "Tp \<union> Tc \<subseteq> {0x80024000, 0x8002b000} \<union> set fd_free"
      and M: "\<forall>p. p \<notin> {0x80024000, 0x8002b000} \<union> set fd_free \<longrightarrow> M p = page_content fd_start p"
    using assms(1) unfolding fd_spaces_def by blast
  have len: "2 \<le> length xs" using xs(1) by simp
  obtain t j M' T' where t: "map_pages 0x80024000 va 4096 pa perm s = Inr (0, t)" "j \<le> 2"
      "space fd_start (drop j xs) M' 0x80024000 T' (map_leaf fp va pa perm) t" "space fd_start (drop j xs) M' 0x8002b000 Tc fc t"
      "T' \<inter> Tc = {}" "T' \<subseteq> Tp \<union> set xs" "\<forall>p. p \<notin> Tp \<union> set xs \<longrightarrow> M' p = M p"
    using space_map_two [OF s assms(2, 3) len] by blast
  have "n \<le> length (drop j xs)" "set (drop j xs) \<subseteq> set fd_free" using xs t(2) set_drop_subset [of j xs] by auto
  moreover have "T' \<union> Tc \<subseteq> {0x80024000, 0x8002b000} \<union> set fd_free" using t(6) T xs(2) by blast
  moreover have "\<forall>p. p \<notin> {0x80024000, 0x8002b000} \<union> set fd_free \<longrightarrow> M' p = page_content fd_start p" using t(7) M T xs(2) by auto
  ultimately show ?thesis using t(1, 3-5) unfolding fd_spaces_def by blast
qed

lemma fd_map_child:
  assumes "fd_spaces (n + 2) fp fc s" and "page_va va" and "fc va = None"
  shows "\<exists>t. map_pages 0x8002b000 va 4096 pa perm s = Inr (0, t) \<and> fd_spaces n fp (map_leaf fc va pa perm) t"
proof -
  obtain xs M Tp Tc where xs: "n + 2 \<le> length xs" "set xs \<subseteq> set fd_free" and s: "space fd_start xs M 0x80024000 Tp fp s"
      "space fd_start xs M 0x8002b000 Tc fc s" "Tp \<inter> Tc = {}" and T: "Tp \<union> Tc \<subseteq> {0x80024000, 0x8002b000} \<union> set fd_free"
      and M: "\<forall>p. p \<notin> {0x80024000, 0x8002b000} \<union> set fd_free \<longrightarrow> M p = page_content fd_start p"
    using assms(1) unfolding fd_spaces_def by blast
  have len: "2 \<le> length xs" "Tc \<inter> Tp = {}" using xs(1) s(3) by auto
  obtain t j M' T' where t: "map_pages 0x8002b000 va 4096 pa perm s = Inr (0, t)" "j \<le> 2"
      "space fd_start (drop j xs) M' 0x8002b000 T' (map_leaf fc va pa perm) t" "space fd_start (drop j xs) M' 0x80024000 Tp fp t"
      "T' \<inter> Tp = {}" "T' \<subseteq> Tc \<union> set xs" "\<forall>p. p \<notin> Tc \<union> set xs \<longrightarrow> M' p = M p"
    using space_map_two [OF s(2, 1) len(2) assms(2, 3) len(1)] by blast
  have "n \<le> length (drop j xs)" "set (drop j xs) \<subseteq> set fd_free" using xs t(2) set_drop_subset [of j xs] by auto
  moreover have "Tp \<union> T' \<subseteq> {0x80024000, 0x8002b000} \<union> set fd_free" using t(6) T xs(2) by blast
  moreover have "\<forall>p. p \<notin> {0x80024000, 0x8002b000} \<union> set fd_free \<longrightarrow> M' p = page_content fd_start p" using t(7) M T xs(2) by auto
  ultimately show ?thesis using t(1, 3-5) unfolding fd_spaces_def by blast
qed

definition fd_parent :: "u64 \<Rightarrow> u64 option" where
  "fd_parent = map_leaf (map_leaf (map_leaf (\<lambda>_. None) (USER_STACK_TOP - 4096) 0x80027000 data_perm) 0x10000 0x80028000 code_perm) 0x11000 0x80029000 data_perm"

definition fd_child :: "u64 \<Rightarrow> u64 option" where
  "fd_child = map_leaf (\<lambda>_. None) (USER_STACK_TOP - 4096) 0x8002d000 data_perm"

lemma fd_mapped: "\<exists>s. fd_maps fd_start = Inr ((), s) \<and> fd_spaces 6 fd_parent fd_child s"
proof -
  let ?v = "USER_STACK_TOP - 4096 :: u64"
  have va: "page_va ?v" "page_va 0x10000" "page_va 0x11000" by (simp_all add: page_va_def aligned_def)
  have n: "map_leaf (\<lambda>_. None) ?v 0x80027000 data_perm 0x10000 = None"
    "map_leaf (map_leaf (\<lambda>_. None) ?v 0x80027000 data_perm) 0x10000 0x80028000 code_perm 0x11000 = None"
    by (simp_all add: map_leaf_def page_of_aligned aligned_def)
  have "length fd_free = 14" by (simp add: fd_free_def)
  then have "fd_spaces (12 + 2) (\<lambda>_. None) (\<lambda>_. None) fd_start"
    unfolding fd_spaces_def using fd_start_space [of "0x80024000"] fd_start_space [of "0x8002b000"]
    by (intro exI [of _ fd_free] exI [of _ "page_content fd_start"] exI [of _ "{0x80024000}"] exI [of _ "{0x8002b000}"]) simp
  from fd_map_parent [OF this va(1) refl, of "0x80027000" data_perm] obtain s1
    where 1: "map_pages 0x80024000 ?v 4096 0x80027000 data_perm fd_start = Inr (0, s1)"
      "fd_spaces (10 + 2) (map_leaf (\<lambda>_. None) ?v 0x80027000 data_perm) (\<lambda>_. None) s1" by auto
  from fd_map_parent [OF 1(2) va(2) n(1), of "0x80028000" code_perm] obtain s2
    where 2: "map_pages 0x80024000 0x10000 4096 0x80028000 code_perm s1 = Inr (0, s2)"
      "fd_spaces (8 + 2) (map_leaf (map_leaf (\<lambda>_. None) ?v 0x80027000 data_perm) 0x10000 0x80028000 code_perm) (\<lambda>_. None) s2" by auto
  from fd_map_parent [OF 2(2) va(3) n(2), of "0x80029000" data_perm] obtain s3
    where 3: "map_pages 0x80024000 0x11000 4096 0x80029000 data_perm s2 = Inr (0, s3)" "fd_spaces (6 + 2) fd_parent (\<lambda>_. None) s3"
    unfolding fd_parent_def by auto
  from fd_map_child [OF 3(2) va(1) refl, of "0x8002d000" data_perm] obtain s4
    where 4: "map_pages 0x8002b000 ?v 4096 0x8002d000 data_perm s3 = Inr (0, s4)" "fd_spaces 6 fd_parent fd_child s4"
    unfolding fd_child_def by auto
  have "fd_maps fd_start = Inr ((), s4)" using 1(1) 2(1) 3(1) 4(1) unfolding fd_maps_def kbind_eq by (simp only: sum.case prod.case kdefs)
  with 4(2) show ?thesis by blast
qed

lemma leads_to_leaf: "aligned 4096 p \<Longrightarrow> leaf_perm perm \<Longrightarrow> leads_to (Some (PA2PTE p OR perm OR PTE_V)) p"
  using leaf_entry [of p perm] by (simp add: leads_to_def)

lemma fork_perms: "leaf_perm code_perm" "leaf_perm data_perm"
  by (simp_all add: leaf_perm_def prot_to_type_def)

lemma fd_translations:
  "leads_to (fd_parent (USER_STACK_TOP - 4096)) 0x80027000" "leads_to (fd_parent 0x10000) 0x80028000"
  "leads_to (fd_parent 0x11000) 0x80029000" "leads_to (fd_child (USER_STACK_TOP - 4096)) 0x8002d000"
  "fd_child 0x10000 = None" "fd_child 0x11000 = None"
  unfolding fd_parent_def fd_child_def map_leaf_def
  using leads_to_leaf [OF _ fork_perms(2), of "0x80027000"] leads_to_leaf [OF _ fork_perms(1), of "0x80028000"]
    leads_to_leaf [OF _ fork_perms(2), of "0x80029000"] leads_to_leaf [OF _ fork_perms(2), of "0x8002d000"]
  by (simp_all add: page_of_aligned aligned_def)

lemma fd_table:
  "region_is (page_content fd_start 0x80026000) 0 (USER_STACK_TOP - 4096, 1, STACK_SEGMENT)"
  "region_is (page_content fd_start 0x80026000) 1 (0x80025000, 1, CONTEXT_SEGMENT)"
  "region_is (page_content fd_start 0x80026000) 2 (0x80000000, 1, SYSTEM_SEGMENT)"
  "region_is (page_content fd_start 0x80026000) 3 (0x10000, 1, CODE_SEGMENT)"
  "region_is (page_content fd_start 0x80026000) 4 (0x11000, 1, DATA_SEGMENT)"
  "page_content fd_start 0x8002a000 0 = USER_STACK_TOP - 4096"
  by (simp_all add: region_is_def page_content_def fd_start_def initial_kstate_def fd_mem_def)

lemma fd_procs:
  assumes "holds fd_start xs M s"
  shows "pagetable (procs s ! 0) = 0x80024000" "trapframe (procs s ! 0) = 0x80025000" "mapped_info (procs s ! 0) = 0x80026000"
    "total_mapped_region (procs s ! 0) = 5" "pagetable (procs s ! 1) = 0x8002b000" "trapframe (procs s ! 1) = 0x8002c000"
    "mapped_info (procs s ! 1) = 0x8002a000" "total_mapped_region (procs s ! 1) = 3" "pid (procs s ! 1) = 1" "length (procs s) = 2"
    "page_ok s = page_ok fd_start" "ready_queue s []"
  using holds_proc_fields [OF assms, of 0] holds_proc_fields [OF assms, of 1] holds_eq [OF assms]
    mem_eraseD [of s fd_start] holds_ready_queue [OF assms, of "[]"] assms
  by (simp_all add: fd_start_def holds_def ready_queue_def)

lemma fd_pages: "all_pages fd_regions = [(0x10000, CODE_SEGMENT), (0x11000, DATA_SEGMENT)]"
  by (simp add: all_pages_def fd_regions_def region_pages_def)

lemma fd_forkable:
  assumes "fd_maps fd_start = Inr ((), s)"
  shows "\<exists>xs. forkable s 0 1 xs 0x8002d000 fd_regions \<and> ready_queue s [] \<and> pid (procs s ! 1) = 1 \<and>
    set xs \<subseteq> set fd_free \<and> parent_page s 0 0x11000 = 0x80029000"
proof -
  have "fd_spaces 6 fd_parent fd_child s" using fd_mapped assms by auto
  then obtain xs M Tp Tc where xs: "6 \<le> length xs" "set xs \<subseteq> set fd_free" and sp: "space fd_start xs M 0x80024000 Tp fd_parent s"
      "space fd_start xs M 0x8002b000 Tc fd_child s" "Tp \<inter> Tc = {}" and T: "Tp \<union> Tc \<subseteq> {0x80024000, 0x8002b000} \<union> set fd_free"
      and M: "\<forall>p. p \<notin> {0x80024000, 0x8002b000} \<union> set fd_free \<longrightarrow> M p = page_content fd_start p"
    unfolding fd_spaces_def by blast
  note h = space_holds [OF sp(1)] and pr = fd_procs [OF space_holds [OF sp(1)]]
  have out: "p \<notin> {0x80024000, 0x8002b000} \<union> set fd_free" "page_ok fd_start p"
    if "p \<in> {0x80025000, 0x80026000, 0x80027000, 0x80028000, 0x80029000, 0x8002a000, 0x8002c000, 0x8002d000}" for p
    using that by (auto simp: fd_free_def aligned_def intro!: fd_page_ok)
  have m: "page_content s p k = page_content fd_start p k"
    if "p \<in> {0x80025000, 0x80026000, 0x80027000, 0x80028000, 0x80029000, 0x8002a000, 0x8002c000, 0x8002d000}" "unat k < 4096" "unat k mod 8 = 0" for p k
    using holds_mem [OF h out(2) [OF that(1)] that(2, 3)] M out(1) [OF that(1)] by (simp add: page_content_def)
  have tabs: "tabs (mem s) 0x80024000 = Tp" "tabs (mem s) 0x8002b000 = Tc" using sp by (simp_all add: space_def)
  have vp: "vmap (mem s) 0x80024000 va = fd_parent va" "vmap (mem s) 0x8002b000 va = fd_child va" if "unat va < 0x4000000000" for va
    using sp that by (simp_all add: space_def)
  have reg: "region_is (page_content s 0x80026000) j r" if "region_is (page_content fd_start 0x80026000) j r" "j < 256" for j r
  proof -
    have "unat (16 * of_nat j :: u64) = 16 * j" "unat (16 * of_nat j + 8 :: u64) = 16 * j + 8"
      using that(2) by (simp_all add: unat_word_ariths unat_of_nat)
    then have "unat (16 * of_nat j :: u64) < 4096" "unat (16 * of_nat j :: u64) mod 8 = 0"
      "unat (16 * of_nat j + 8 :: u64) < 4096" "unat (16 * of_nat j + 8 :: u64) mod 8 = 0" using that(2) by presburger+
    then show ?thesis using that(1) m [of "0x80026000"] by (simp add: region_is_def split: prod.splits)
  qed
  have pages: "p \<notin> set xs" "p \<notin> Tp" "p \<notin> Tc" "page_ok fd_start p"
    if "p \<in> {0x80025000, 0x80026000, 0x80027000, 0x80028000, 0x80029000, 0x8002a000, 0x8002c000, 0x8002d000}" for p
    using out [OF that] xs(2) T by auto
  have child: "child_ready s 1 xs 0x8002d000"
    unfolding child_ready_def Let_def pr tabs
    using space_pt_ok [OF sp(2)] pages [of "0x8002a000"] pages [of "0x8002c000"] pages [of "0x8002d000"]
      m [of "0x8002a000" 0] fd_table(6) fd_translations(4) vp(2) [of "USER_STACK_TOP - 4096"]
    by simp
  have pp: "leads_to (vmap (mem s) 0x80024000 va) p \<and> parent_page s 0 va = p"
    if "leads_to (fd_parent va) p" "unat va < 0x4000000000" for va p
    using that vp(1) [of va] by (auto simp: leads_to_def parent_page_def pr)
  note pps = pp [OF fd_translations(1)] pp [OF fd_translations(2)] pp [OF fd_translations(3)]
  have parent: "parent_ready s 0 (child_pages s 1 0x8002d000 \<union> set xs) fd_regions"
  proof -
    have X: "p \<notin> child_pages s 1 0x8002d000 \<union> set xs" if "p \<in> {0x80025000, 0x80026000, 0x80027000, 0x80028000, 0x80029000}" for p
      using that pages [of p] by (auto simp: child_pages_def pr tabs simp del: One_nat_def)
    have "Tp \<inter> (child_pages s 1 0x8002d000 \<union> set xs) = {}"
      using sp(3) space_pages [OF sp(1)] pages(2) by (auto simp: child_pages_def pr tabs simp del: One_nat_def)
    moreover have "region_is (page_content s 0x80026000) (3 + j) (fd_regions ! j)" if "j < length fd_regions" for j
      using that reg [OF fd_table(4)] reg [OF fd_table(5)] by (auto simp: fd_regions_def less_Suc_eq)
    moreover have "tables_ok (page_ok fd_start) (mem s) 0x80024000" using sp(1) by (simp add: space_def)
    moreover have "leads_to (vmap (mem s) 0x80024000 va) (parent_page s 0 va) \<and> page_ok fd_start (parent_page s 0 va) \<and>
        parent_page s 0 va \<notin> child_pages s 1 0x8002d000 \<union> set xs" if "va \<in> {USER_STACK_TOP - 4096, 0x10000, 0x11000}" for va
      using that pps X [of "0x80027000"] X [of "0x80028000"] X [of "0x80029000"]
        pages(4) [of "0x80027000"] pages(4) [of "0x80028000"] pages(4) [of "0x80029000"]
      by (elim insertE emptyE) (simp_all del: Un_iff)
    ultimately show ?thesis
      unfolding parent_ready_def Let_def pr tabs fd_pages
      using X [of "0x80025000"] X [of "0x80026000"] pages(4) [of "0x80025000"] pages(4) [of "0x80026000"]
        reg [OF fd_table(1)] reg [OF fd_table(2)] reg [OF fd_table(3)]
      by (intro conjI) (auto simp: fd_regions_def page_va_def aligned_def simp del: Un_iff One_nat_def)
  qed
  have "forkable s 0 1 xs 0x8002d000 fd_regions"
    using child parent xs(1) fd_translations(5, 6) vp(2) by (simp add: forkable_def fd_pages pr del: One_nat_def)
  then show ?thesis using pr xs(2) pps(3) by auto
qed

theorem fork_copies_witness:
  "\<exists>s t g. fd_maps fd_start = Inr ((), s) \<and> fork_into 0 1 s = Inr (1, t) \<and> g 0x11000 \<in> set fd_free \<and>
    same_page t (g 0x11000) s 0x80029000 \<and> ready_queue t [1]"
proof -
  obtain s where s: "fd_maps fd_start = Inr ((), s)" using fd_mapped by blast
  obtain xs where f: "forkable s 0 1 xs 0x8002d000 fd_regions" "ready_queue s []" "pid (procs s ! 1) = 1" "set xs \<subseteq> set fd_free"
      "parent_page s 0 0x11000 = 0x80029000"
    using fd_forkable [OF s] by blast
  have "0x11000 \<in> seg_pages (all_pages fd_regions) DATA_SEGMENT" by (simp add: seg_pages_def fd_pages)
  then show ?thesis using fork_copies [OF f(1, 2)] f(3-5) s by fastforce
qed

end
