(* ===== verification/Spec2Isabelle.thy ===== *)
theory Spec2Isabelle
  imports PKE_Usys PKE_Shell PKE_Htif PKE_Mount PKE_Umem PKE_Fork
begin

text \<open>
  \<^bold>\<open>Verification of the riscv-pke teaching kernel.\<close>

  The program is a small operating system for one RISC-V hart under the Spike emulator:
  machine-mode start-up, a physical page allocator, three-level page tables, processes with
  fork, wait, exec and exit, a round-robin scheduler, system calls and traps, a RAM disk with
  a file system, files of the host reached through the emulator, and a shell with a few user
  programs. The theories follow this division; each imports the prelude and the components
  it calls.

  \<^bold>\<open>How programs are written.\<close> \<^verbatim>\<open>PKE_Prelude\<close> has the machine integers (words of their width, so
  all arithmetic wraps as in the code), the macros and constants, and a state monad with exits:
  a kernel function returns a value and a new state, or leaves for good in a panic, a failed
  assertion, a shutdown, a trapped memory access (\<open>Wild\<close>, \<open>Misaligned\<close>), undefined behaviour
  (\<open>Undef\<close>), an endless loop (\<open>Spins\<close>), or by passing control to user mode. It also has the rules by
  which invariants and weakest preconditions go through code. \<^verbatim>\<open>PKE_State\<close> has the state: the
  global variables, the process table, the control registers, the memory as 64-bit words
  at physical addresses, and an environment with what the linker and the host decide. Structures that
  live in allocated pages are accessed at the byte offsets of the ABI; a pointer to one of the
  statically allocated processes is its index.

  \<^bold>\<open>The parts.\<close>
  \<^item> \<^verbatim>\<open>PKE_Pmm\<close>: \<^verbatim>\<open>kernel/pmm.c\<close>. The free list lies in the free pages themselves. A locale states
    what clients see, a stack of pages, and the allocator is an interpretation of it.
  \<^item> \<^verbatim>\<open>PKE_String\<close>: \<^verbatim>\<open>util/string.c\<close>; \<^verbatim>\<open>PKE_Print\<close>: \<^verbatim>\<open>util/snprintf.c\<close>, against a specification of the
    text a format stands for.
  \<^item> \<^verbatim>\<open>PKE_Vmm\<close>: \<^verbatim>\<open>kernel/vmm.c\<close>. The abstraction is a function from virtual addresses to entries;
    mapping and unmapping refine its update, translation reads it, and the tables never share
    pages with the free list.
  \<^item> \<^verbatim>\<open>PKE_Sched\<close>: \<^verbatim>\<open>kernel/sched.c\<close> and the switch to user mode, with a locale for a first-come
    first-served dispatcher and its round-robin lemma.
  \<^item> \<^verbatim>\<open>PKE_Spike\<close>, \<^verbatim>\<open>PKE_Htif\<close>: the host files of \<^verbatim>\<open>spike_interface/spike_file.c\<close> and \<^verbatim>\<open>kernel/hostfs.c\<close>,
    where a front-end call is one step, and the mailbox of \<^verbatim>\<open>spike_htif.c\<close> with its locks, where a call
    is shown to return the host's answer.
  \<^item> \<^verbatim>\<open>PKE_Fs\<close>, \<^verbatim>\<open>PKE_Disk\<close>, \<^verbatim>\<open>PKE_File\<close>: \<^verbatim>\<open>kernel/dev.c\<close>, \<^verbatim>\<open>rfs.c\<close>, \<^verbatim>\<open>vfs.c\<close> and \<^verbatim>\<open>file.c\<close>, with the correctness of
    the RAM disk. \<^verbatim>\<open>PKE_Heap\<close> has the rules for structures in pages (\<open>holds\<close>: which pages are free and what
    the others contain); with them \<^verbatim>\<open>PKE_Format\<close> follows the formatting of the disk by \<^verbatim>\<open>rfs_do_mount\<close>, and
    \<^verbatim>\<open>PKE_Mount\<close> shows what \<^verbatim>\<open>fs_init\<close> leaves, that the root inode is read back, and that lookup traps.
  \<^item> \<^verbatim>\<open>PKE_Process\<close>, \<^verbatim>\<open>PKE_Elf\<close>, \<^verbatim>\<open>PKE_Syscall\<close>, \<^verbatim>\<open>PKE_Strap\<close>: \<^verbatim>\<open>kernel/process.c\<close>, \<^verbatim>\<open>elf.c\<close>, \<^verbatim>\<open>syscall.c\<close>, \<^verbatim>\<open>strap.c\<close>,
    \<^verbatim>\<open>strap_vector.S\<close> and \<^verbatim>\<open>kernel.c\<close>. \<^verbatim>\<open>PKE_Umem\<close> proves what the memory calls, the page fault handler and
    the file transfers do. \<^verbatim>\<open>PKE_Space\<close> joins page tables and page contents in one assertion (\<open>space\<close>), and
    \<^verbatim>\<open>PKE_Fork\<close> shows with it how the memory of a child is made from that of its parent.
  \<^item> \<^verbatim>\<open>PKE_Frame\<close>: the locale \<open>frame_inv\<close>, an invariant that does not look at memory, files and the
    like; inside it all code that does not schedule is shown to keep such an invariant and to stay
    in the kernel. It is interpreted for the scheduler's view of the state, for the kernel's
    invariant, and for the states of a process being created or reclaimed.
  \<^item> \<^verbatim>\<open>PKE_Kernel\<close>: the invariant of the process table and the ready queue, kept by every system call
    and trap; \<^verbatim>\<open>PKE_Machine\<close>: the machine that alternates between user programs and the kernel, as a
    step relation, from boot on.
  \<^item> \<^verbatim>\<open>PKE_Dts\<close>, \<^verbatim>\<open>PKE_Mmode\<close>: \<^verbatim>\<open>spike_interface/dts_parse.c\<close>, \<^verbatim>\<open>spike_memory.c\<close>, and the machine-mode code
    under \<^verbatim>\<open>kernel/machine\<close>. The scanner of the device tree is shown equal to a traversal of the tree
    that was encoded.
  \<^item> \<^verbatim>\<open>PKE_User\<close>, \<^verbatim>\<open>PKE_Shell\<close>, \<^verbatim>\<open>PKE_Usys\<close>: the programs under \<^verbatim>\<open>user\<close>. The library is written over a
    parameter for the \<^verbatim>\<open>ecall\<close> instruction; the shell's parser is shown to split a line into its
    words; and the calling convention of a system call, the shape of every state the kernel
    returns to user mode in, and the library's \<^verbatim>\<open>wait\<close> on the kernel are proved.

  \<^bold>\<open>What the theorems show.\<close> From boot on, in every state the machine reaches, the process table and
  the ready queue are well formed and no live process is lost (C1, C3); every trap ends, in user
  mode, a shutdown or a halt, and never in an endless loop (C2); every return to user mode
  prepares the next trap (C4); system calls and ticks preserve the program's registers but for
  t6 (C5, C6). Page tables implement the mapping they are asked for (C7 to C9, C23, C35) and
  programs get pages of their own (C16, C17). A forked child shares the code, has copies of data,
  stack and trapframe in pages of its own, and no page of the parent changes (C10). Scheduling is fair
  among processes that yield (C15). The file system is formatted as its layout says (C18, C19), although
  lookup in it traps (C20). The
  remaining properties state the functional behaviour of the allocator, the strings, formatted
  output, host files and mailbox, RAM disk, device tree, machine mode and shell, on normal and
  error paths. Where the code departs from its documentation the theorems state what the code does.

  \<^bold>\<open>Loops and fuel.\<close> Loops over addresses and lists terminate by a measure, or follow a linked list
  as a partial function whose missing result is \<open>Spins\<close>; C2 and C3 show that this does not happen.
  Fuel is used where the code waits for somebody else or reads data of unknown length: the
  device tree scanner (the theorems hold for every fuel above the size of the encoded tree), the
  mailbox loops (any fuel at least the number of turns within which the emulator answers), the
  library's \<^verbatim>\<open>wait\<close> and the shell's main loop (one unit for each round).

  \<^bold>\<open>Parameters.\<close> The host's answers, the emulator's turns at the mailbox, what happens behind a
  user program's \<^verbatim>\<open>ecall\<close>, the addresses the linker chooses and the contents of memory at boot are
  arguments of the definitions. What a theorem needs of them is a named hypothesis, such as
  \<open>serves\<close> for the emulator, and each has an example that satisfies it.

  \<^bold>\<open>Not modelled.\<close> The diagnostics the kernel prints on its way (\<^verbatim>\<open>sprint\<close> of fixed messages, and
  \<^verbatim>\<open>print_proc_vmspace\<close>, which only prints); the memory barriers and \<^verbatim>\<open>sfence.vma\<close>, which have no effect
  on one hart without a cache of translations; kernel stacks, whose contents are the local variables of
  the definitions; \<^verbatim>\<open>spike_file_stat\<close>, \<^verbatim>\<open>vprintm\<close>, \<^verbatim>\<open>poweroff\<close> and the inline functions of \<^verbatim>\<open>kernel/riscv.h\<close>
  that nothing calls; the linker script, whose symbols are parameters; faults of user programs on
  their own memory, which the models of the programs take to be mapped; machine-mode timer
  interrupts that arrive while the kernel runs (the supervisor's own interrupts are disabled there).
\<close>

end
